(* ===== verification/Prelude.thy ===== *)
theory Prelude
  imports Main "HOL-Library.Word"
begin

unbundle bit_operations_syntax

text \<open>
  Shared vocabulary of the development: the machine types of the i386 target, results of C
  code that may abort or run into undefined behaviour, a byte-addressed store with block
  reads and writes, and the little-endian layout of 32-bit words.
\<close>

named_theorems store_simps \<open>block reads and writes of a byte store\<close>
named_theorems layout_simps \<open>lengths and round trips of the on-disk layouts\<close>

type_synonym byte = "8 word"
type_synonym u16 = "16 word"
type_synonym u32 = "32 word"

section \<open>Results of C code\<close>

text \<open>
  \<open>Aborted\<close> is a call of \<open>abort\<close>, \<open>exit(1)\<close> or a failed \<open>assert\<close>; \<open>Undefined\<close> is behaviour that the
  C standard leaves undefined: an access outside an object, a shift by a count outside the
  width, a signed overflow.
\<close>

datatype c_error = Aborted | Undefined

datatype 'a res = Ok 'a | Err c_error

primrec bindr :: "'a res \<Rightarrow> ('a \<Rightarrow> 'b res) \<Rightarrow> 'b res" where
  "bindr (Ok x) f = f x"
| "bindr (Err e) f = Err e"

lemma bindr_Ok_iff [simp]: "bindr m f = Ok y \<longleftrightarrow> (\<exists>x. m = Ok x \<and> f x = Ok y)"
  by (cases m) auto

lemma bindr_Err_iff: "bindr m f = Err e \<longleftrightarrow> m = Err e \<or> (\<exists>x. m = Ok x \<and> f x = Err e)"
  by (cases m) auto

lemma bindr_assoc: "bindr (bindr m f) g = bindr m (\<lambda>x. bindr (f x) g)"
  by (cases m) auto

lemma bindr_cong [fundef_cong]:
  "m = m' \<Longrightarrow> (\<And>x. m' = Ok x \<Longrightarrow> f x = g x) \<Longrightarrow> bindr m f = bindr m' g"
  by (cases m') auto

lemma bindr_split:
  "P (bindr m f) \<longleftrightarrow> (\<forall>x. m = Ok x \<longrightarrow> P (f x)) \<and> (\<forall>e. m = Err e \<longrightarrow> P (Err e))"
  by (cases m) auto

section \<open>Counted loops\<close>

text \<open>
  \<open>for_each f xs s\<close> is a \<open>for\<close> loop whose body \<open>f\<close> sees the values \<open>xs\<close> of the loop variable in
  order and may fail.
\<close>

primrec for_each :: "('a \<Rightarrow> 's \<Rightarrow> 's res) \<Rightarrow> 'a list \<Rightarrow> 's \<Rightarrow> 's res" where
  "for_each f [] s = Ok s"
| "for_each f (x # xs) s = bindr (f x s) (for_each f xs)"

lemma for_each_append: "for_each f (xs @ ys) s = bindr (for_each f xs s) (for_each f ys)"
  by (induction xs arbitrary: s) (auto simp: bindr_assoc intro: bindr_cong)

lemma for_each_cong [fundef_cong]:
  "xs = ys \<Longrightarrow> s = t \<Longrightarrow> (\<And>x s. x \<in> set ys \<Longrightarrow> f x s = g x s) \<Longrightarrow> for_each f xs s = for_each g ys t"
proof (induction xs arbitrary: s t ys)
  case (Cons x xs)
  then have "for_each f xs = for_each g xs" by fastforce
  then show ?case using Cons.prems by auto
qed auto

text \<open>A loop that keeps an invariant and whose body never fails under it ends in a state of the invariant.\<close>

lemma for_each_inv:
  assumes "I s" and "\<And>x s. x \<in> set xs \<Longrightarrow> I s \<Longrightarrow> \<exists>s'. f x s = Ok s' \<and> I s'"
  shows "\<exists>s'. for_each f xs s = Ok s' \<and> I s'"
  using assms by (induction xs arbitrary: s) (fastforce)+

text \<open>A loop whose body never fails under the invariant is the fold of the total step.\<close>

lemma for_each_fold:
  assumes "I s" and "\<And>x s. x \<in> set xs \<Longrightarrow> I s \<Longrightarrow> f x s = Ok (g x s) \<and> I (g x s)"
  shows "for_each f xs s = Ok (fold g xs s) \<and> I (fold g xs s)"
  using assms by (induction xs arbitrary: s) auto

section \<open>C integers\<close>

text \<open>
  A C \<open>int\<close> is an Isabelle \<open>int\<close>; \<open>int32\<close> is the guard on the result of a signed operation.
  \<open>c_div\<close> and \<open>c_mod\<close> truncate towards zero.
\<close>

definition is_int32 :: "int \<Rightarrow> bool" where
  "is_int32 x \<longleftrightarrow> - (2 ^ 31) \<le> x \<and> x < 2 ^ 31"

definition int32 :: "int \<Rightarrow> int res" where
  "int32 x = (if is_int32 x then Ok x else Err Undefined)"

definition c_div :: "int \<Rightarrow> int \<Rightarrow> int" where
  "c_div a b = sgn a * sgn b * (\<bar>a\<bar> div \<bar>b\<bar>)"

definition c_mod :: "int \<Rightarrow> int \<Rightarrow> int" where
  "c_mod a b = a - b * c_div a b"

lemma c_div_nonneg [simp]: "0 \<le> a \<Longrightarrow> 0 < b \<Longrightarrow> c_div a b = a div b"
  by (cases "a = 0") (auto simp: c_div_def)

lemma c_mod_nonneg [simp]: "0 \<le> a \<Longrightarrow> 0 < b \<Longrightarrow> c_mod a b = a mod b"
  by (simp add: c_mod_def minus_mult_div_eq_mod)

lemma is_int32_sint [simp]: "is_int32 (sint (w :: u32))"
  using sint_range_size [of w] by (simp add: is_int32_def word_size)

lemma int32_ok [simp]: "is_int32 x \<Longrightarrow> int32 x = Ok x"
  by (simp add: int32_def)

lemma sint_of_int32 [simp]: "is_int32 x \<Longrightarrow> sint (of_int x :: u32) = x"
  by (simp add: is_int32_def signed_of_int signed_take_bit_int_eq_self)

lemma sint_of_nat32: "n < 2 ^ 31 \<Longrightarrow> sint (of_nat n :: u32) = int n"
  using sint_of_int32 [of "int n"] by (simp add: is_int32_def)

lemma unat_u32_less: "unat (w :: u32) < 2 ^ 32"
  using unsigned_less [of w] by simp

lemma unat_add_small: "unat a + n < 2 ^ 32 \<Longrightarrow> unat (a + of_nat n :: u32) = unat a + n"
  by (simp add: unat_word_ariths unat_of_nat)

section \<open>Byte stores\<close>

definition rd :: "(nat \<Rightarrow> 'a) \<Rightarrow> nat \<Rightarrow> nat \<Rightarrow> 'a list" where
  "rd m a n = map m [a..<a + n]"

definition wr :: "(nat \<Rightarrow> 'a) \<Rightarrow> nat \<Rightarrow> 'a list \<Rightarrow> (nat \<Rightarrow> 'a)" where
  "wr m a bs = (\<lambda>x. if a \<le> x \<and> x < a + length bs then bs ! (x - a) else m x)"

lemma length_rd [store_simps, simp]: "length (rd m a n) = n"
  by (simp add: rd_def)

lemma nth_rd [store_simps, simp]: "i < n \<Longrightarrow> rd m a n ! i = m (a + i)"
  by (simp add: rd_def)

lemma rd_0 [store_simps, simp]: "rd m a 0 = []"
  by (simp add: rd_def)

lemma rd_cong: "(\<And>i. i < n \<Longrightarrow> m (a + i) = m' (b + i)) \<Longrightarrow> rd m a n = rd m' b n"
  by (rule nth_equalityI) auto

lemma rd_add: "rd m a (n + k) = rd m a n @ rd m (a + n) k"
  by (rule nth_equalityI) (auto simp: nth_append)

lemma take_rd [store_simps]: "k \<le> n \<Longrightarrow> take k (rd m a n) = rd m a k"
  by (rule nth_equalityI) auto

lemma drop_rd [store_simps]: "drop k (rd m a n) = rd m (a + k) (n - k)"
  by (rule nth_equalityI) (auto simp: add.assoc)

lemma rd_wr_same [store_simps, simp]: "n = length bs \<Longrightarrow> rd (wr m a bs) a n = bs"
  by (rule nth_equalityI) (auto simp: wr_def)

lemma rd_wr_inside:
  "a \<le> b \<Longrightarrow> b + n \<le> a + length bs \<Longrightarrow> rd (wr m a bs) b n = take n (drop (b - a) bs)"
  by (rule nth_equalityI) (auto simp: wr_def)

lemma rd_wr_disjoint [store_simps]:
  "b + n \<le> a \<or> a + length bs \<le> b \<Longrightarrow> rd (wr m a bs) b n = rd m b n"
  by (rule rd_cong) (auto simp: wr_def)

lemma wr_Nil [store_simps, simp]: "wr m a [] = m"
  by (intro ext) (auto simp: wr_def)

lemma wr_apply_out: "x < a \<or> a + length bs \<le> x \<Longrightarrow> wr m a bs x = m x"
  by (auto simp: wr_def)

lemma wr_append: "wr m a (xs @ ys) = wr (wr m a xs) (a + length xs) ys"
  by (auto simp: wr_def fun_eq_iff nth_append)

lemma wr_rd_id [simp]: "wr m a (rd m a n) = m"
  by (auto simp: wr_def fun_eq_iff)

section \<open>Little-endian words\<close>

definition le32 :: "u32 \<Rightarrow> byte list" where
  "le32 w = [ucast w, ucast (drop_bit 8 w), ucast (drop_bit 16 w), ucast (drop_bit 24 w)]"

definition un_le32 :: "byte list \<Rightarrow> u32" where
  "un_le32 bs = ucast (bs ! 0) OR push_bit 8 (ucast (bs ! 1))
     OR push_bit 16 (ucast (bs ! 2)) OR push_bit 24 (ucast (bs ! 3))"

lemma length_le32 [layout_simps, simp]: "length (le32 w) = 4"
  by (simp add: le32_def)

lemma un_le32_le32 [layout_simps, simp]: "un_le32 (le32 w) = w"
proof (rule bit_eqI)
  fix n assume "possible_bit TYPE(u32) n"
  then have "n < 32" by simp
  consider "n < 8" | "8 \<le> n" "n < 16" | "16 \<le> n" "n < 24" | "24 \<le> n"
    by linarith
  then show "bit (un_le32 (le32 w)) n = bit w n"
    using \<open>n < 32\<close> by cases (auto simp add: un_le32_def le32_def bit_simps)
qed

lemma le32_un_le32:
  assumes "length bs = 4"
  shows "le32 (un_le32 bs) = bs"
proof -
  obtain a b c d where bs: "bs = [a, b, c, d]"
    using assms by (auto simp: numeral_eq_Suc length_Suc_conv)
  have lem: "ucast (drop_bit k (ucast a OR push_bit 8 (ucast b) OR push_bit 16 (ucast c) OR push_bit 24 (ucast d) :: u32)) = (if k = 0 then a else if k = 8 then b else if k = 16 then c else d)"
    if "k \<in> {0, 8, 16, 24}" for k
  proof (rule bit_eqI)
    fix n assume "possible_bit TYPE(byte) n"
    then have "n < 8" by simp
    with that show "bit (ucast (drop_bit k (ucast a OR push_bit 8 (ucast b) OR push_bit 16 (ucast c) OR push_bit 24 (ucast d) :: u32)) :: byte) n = bit (if k = 0 then a else if k = 8 then b else if k = 16 then c else d) n"
      by (auto simp: bit_simps not_le dest: bit_imp_le_length)
  qed
  show ?thesis
    using lem [of 0] lem [of 8] lem [of 16] lem [of 24]
    by (simp add: bs le32_def un_le32_def)
qed

definition enc_int :: "int \<Rightarrow> byte list" where
  "enc_int x = le32 (of_int x)"

definition dec_int :: "byte list \<Rightarrow> int" where
  "dec_int bs = sint (un_le32 bs)"

lemma length_enc_int [layout_simps, simp]: "length (enc_int x) = 4"
  by (simp add: enc_int_def)

lemma dec_enc_int [layout_simps, simp]: "is_int32 x \<Longrightarrow> dec_int (enc_int x) = x"
  by (simp add: dec_int_def enc_int_def)

lemma is_int32_dec_int [simp]: "is_int32 (dec_int bs)"
  by (simp add: dec_int_def)

end
