(* ===== verification/CString.thy ===== *)
theory CString
  imports Prelude
begin

text \<open>
  The string and memory routines of libc/string, on a flat byte memory. Loops that stop only
  at a NUL byte are partial functions: a string that is not terminated is a loop that does
  not return, the value None. Addresses are natural numbers and do not wrap, except in \<open>strlen\<close>, whose pointer and length
  are words of 32 bits.
\<close>

section \<open>Block routines\<close>

primrec memcpy_from :: "(nat \<Rightarrow> byte) \<Rightarrow> nat \<Rightarrow> nat \<Rightarrow> nat \<Rightarrow> nat \<Rightarrow> (nat \<Rightarrow> byte)" where
  "memcpy_from m dst src i 0 = m"
| "memcpy_from m dst src i (Suc n) = memcpy_from (m(dst + i := m (src + i))) dst src (Suc i) n"

definition memcpy :: "(nat \<Rightarrow> byte) \<Rightarrow> nat \<Rightarrow> nat \<Rightarrow> nat \<Rightarrow> (nat \<Rightarrow> byte)" where
  "memcpy m dst src n = memcpy_from m dst src 0 n"

primrec memmove_down :: "(nat \<Rightarrow> byte) \<Rightarrow> nat \<Rightarrow> nat \<Rightarrow> nat \<Rightarrow> (nat \<Rightarrow> byte)" where
  "memmove_down m dst src 0 = m"
| "memmove_down m dst src (Suc i) = memmove_down (m(dst + i := m (src + i))) dst src i"

definition memmove :: "(nat \<Rightarrow> byte) \<Rightarrow> nat \<Rightarrow> nat \<Rightarrow> nat \<Rightarrow> (nat \<Rightarrow> byte)" where
  "memmove m dst src n =
     (if dst < src then memcpy_from m dst src 0 n else memmove_down m dst src n)"

primrec memset_from :: "(nat \<Rightarrow> byte) \<Rightarrow> nat \<Rightarrow> byte \<Rightarrow> nat \<Rightarrow> nat \<Rightarrow> (nat \<Rightarrow> byte)" where
  "memset_from m buf v i 0 = m"
| "memset_from m buf v i (Suc n) = memset_from (m(buf + i := v)) buf v (Suc i) n"

definition memset :: "(nat \<Rightarrow> byte) \<Rightarrow> nat \<Rightarrow> int \<Rightarrow> nat \<Rightarrow> (nat \<Rightarrow> byte)" where
  "memset m buf value n = memset_from m buf (of_int value) 0 n"

primrec memcmp_from :: "(nat \<Rightarrow> byte) \<Rightarrow> nat \<Rightarrow> nat \<Rightarrow> nat \<Rightarrow> nat \<Rightarrow> int" where
  "memcmp_from m a b i 0 = 0"
| "memcmp_from m a b i (Suc n) =
     (if m (a + i) < m (b + i) then - 1
      else if m (b + i) < m (a + i) then 1
      else memcmp_from m a b (Suc i) n)"

definition memcmp :: "(nat \<Rightarrow> byte) \<Rightarrow> nat \<Rightarrow> nat \<Rightarrow> nat \<Rightarrow> int" where
  "memcmp m a b n = memcmp_from m a b 0 n"

section \<open>String routines\<close>

text \<open>The pointer and the \<open>size_t\<close> are words of 32 bits, and the address wraps at the end of the memory.\<close>

partial_function (option) strlen_from :: "(nat \<Rightarrow> byte) \<Rightarrow> u32 \<Rightarrow> u32 \<Rightarrow> u32 option" where
  "strlen_from m str len = (if m (unat (str + len)) \<noteq> 0 then strlen_from m str (len + 1) else Some len)"

definition strlen :: "(nat \<Rightarrow> byte) \<Rightarrow> u32 \<Rightarrow> u32 option" where
  "strlen m str = strlen_from m str 0"

partial_function (option) strcmp :: "(nat \<Rightarrow> byte) \<Rightarrow> nat \<Rightarrow> nat \<Rightarrow> int option" where
  "strcmp m s1 s2 =
     (if m s1 \<noteq> 0 \<and> m s1 = m s2 then strcmp m (Suc s1) (Suc s2)
      else Some (uint (m s1) - uint (m s2)))"

text \<open>\<open>sizeof(src)\<close> is the size of a pointer, 4 on i386.\<close>

definition sizeof_ptr :: nat where
  "sizeof_ptr = 4"

definition strcpy :: "(nat \<Rightarrow> byte) \<Rightarrow> nat \<Rightarrow> nat \<Rightarrow> (nat \<Rightarrow> byte)" where
  "strcpy m dest src = memcpy m dest src (sizeof_ptr + 1)"

partial_function (option) strcat_end :: "(nat \<Rightarrow> byte) \<Rightarrow> nat \<Rightarrow> nat option" where
  "strcat_end m dest = (if m dest \<noteq> 0 then strcat_end m (Suc dest) else Some dest)"

partial_function (option) strcat_copy ::
    "(nat \<Rightarrow> byte) \<Rightarrow> nat \<Rightarrow> nat \<Rightarrow> (nat \<Rightarrow> byte) option" where
  "strcat_copy m dest src =
     (let m' = m(dest := m src)
      in if m src \<noteq> 0 then strcat_copy m' (Suc dest) (Suc src) else Some m')"

definition strcat :: "(nat \<Rightarrow> byte) \<Rightarrow> nat \<Rightarrow> nat \<Rightarrow> (nat \<Rightarrow> byte) option" where
  "strcat m dest src = Option.bind (strcat_end m dest) (\<lambda>e. strcat_copy m e src)"

text \<open>A NUL-terminated string \<open>s\<close> stored at \<open>p\<close>.\<close>

definition str_at :: "(nat \<Rightarrow> byte) \<Rightarrow> nat \<Rightarrow> byte list \<Rightarrow> bool" where
  "str_at m p s \<longleftrightarrow> 0 \<notin> set s \<and> rd m p (Suc (length s)) = s @ [0]"

section \<open>What the block routines store\<close>

lemma memcpy_from_out:
  "x < dst + i \<or> dst + i + n \<le> x \<Longrightarrow> memcpy_from m dst src i n x = m x"
  by (induction n arbitrary: m i) auto

lemma memcpy_from_in:
  assumes "dst \<le> src \<or> src + (i + n) \<le> dst" and "k < n"
  shows "memcpy_from m dst src i n (dst + i + k) = m (src + i + k)"
  using assms
proof (induction n arbitrary: m i k)
  case 0
  then show ?case by simp
next
  case (Suc n)
  show ?case
  proof (cases k)
    case 0
    then show ?thesis by (simp add: memcpy_from_out)
  next
    case (Suc k')
    have "memcpy_from (m(dst + i := m (src + i))) dst src (Suc i) n (dst + Suc i + k')
        = (m(dst + i := m (src + i))) (src + Suc i + k')"
      using Suc.prems Suc by (intro Suc.IH) auto
    also have "\<dots> = m (src + i + k)"
      using Suc.prems Suc by auto
    finally show ?thesis using Suc by simp
  qed
qed

lemma memcpy_eq_wr:
  assumes "dst \<le> src \<or> src + n \<le> dst"
  shows "memcpy_from m dst src 0 n = wr m dst (rd m src n)"
proof
  fix x
  show "memcpy_from m dst src 0 n x = wr m dst (rd m src n) x"
    using assms memcpy_from_out [of x dst 0 n m src] memcpy_from_in [of dst src 0 n "x - dst" m]
    by (cases "dst \<le> x \<and> x < dst + n") (auto simp: wr_def)
qed

lemma memmove_down_out:
  "x < dst \<or> dst + n \<le> x \<Longrightarrow> memmove_down m dst src n x = m x"
  by (induction n arbitrary: m) auto

lemma memmove_down_in:
  assumes "src \<le> dst" and "k < n"
  shows "memmove_down m dst src n (dst + k) = m (src + k)"
  using assms
proof (induction n arbitrary: m)
  case 0
  then show ?case by simp
next
  case (Suc n)
  then show ?case
    by (cases "k = n") (auto simp: memmove_down_out)
qed

lemma memmove_down_eq_wr:
  assumes "src \<le> dst"
  shows "memmove_down m dst src n = wr m dst (rd m src n)"
proof
  fix x
  show "memmove_down m dst src n x = wr m dst (rd m src n) x"
    using assms memmove_down_out [of x dst n m src] memmove_down_in [of src dst "x - dst" n m]
    by (cases "dst \<le> x \<and> x < dst + n") (auto simp: wr_def)
qed

text \<open>
  \<open>memmove\<close> stores at the destination the bytes the source held before the call, for every
  overlap of the two ranges, and changes no other byte.
\<close>

theorem memmove_spec: "memmove m dst src n = wr m dst (rd m src n)"
  by (simp add: memmove_def memcpy_eq_wr memmove_down_eq_wr)

lemma memcpy_spec:
  "dst \<le> src \<or> src + n \<le> dst \<Longrightarrow> memcpy m dst src n = wr m dst (rd m src n)"
  by (simp add: memcpy_def memcpy_eq_wr)

lemma memset_from_apply:
  "memset_from m buf v i n x = (if buf + i \<le> x \<and> x < buf + i + n then v else m x)"
  by (induction n arbitrary: m i) auto

lemma memset_spec: "memset m buf value n = wr m buf (replicate n (of_int value))"
  by (intro ext) (auto simp: memset_def memset_from_apply wr_def)

lemma memcmp_from_cases:
  "memcmp_from m a b i n = 0 \<and> (\<forall>k. i \<le> k \<and> k < i + n \<longrightarrow> m (a + k) = m (b + k)) \<or>
   (\<exists>k. i \<le> k \<and> k < i + n \<and> (\<forall>j. i \<le> j \<and> j < k \<longrightarrow> m (a + j) = m (b + j)) \<and>
     m (a + k) \<noteq> m (b + k) \<and> memcmp_from m a b i n = (if m (a + k) < m (b + k) then - 1 else 1))"
  (is "?P i n")
proof (induction n arbitrary: i)
  case 0
  then show ?case by auto
next
  case (Suc n)
  show ?case
  proof (cases "m (a + i) = m (b + i)")
    case True
    from Suc.IH [of "Suc i"] show ?thesis
    proof (elim disjE exE conjE)
      assume "memcmp_from m a b (Suc i) n = 0"
        and "\<forall>k. Suc i \<le> k \<and> k < Suc i + n \<longrightarrow> m (a + k) = m (b + k)"
      with True show ?thesis
        by (intro disjI1) (auto, metis le_neq_implies_less less_eq_Suc_le)
    next
      fix k assume k: "Suc i \<le> k" "k < Suc i + n" "m (a + k) \<noteq> m (b + k)"
        "\<forall>j. Suc i \<le> j \<and> j < k \<longrightarrow> m (a + j) = m (b + j)"
        "memcmp_from m a b (Suc i) n = (if m (a + k) < m (b + k) then - 1 else 1)"
      have "m (a + j) = m (b + j)" if "i \<le> j" "j < k" for j
        using that True k(4) by (cases "j = i") auto
      with True k show ?thesis by (intro disjI2 exI [of _ k]) auto
    qed
  next
    case False
    then show ?thesis
      by (intro disjI2 exI [of _ i]) (auto simp: not_less_iff_gr_or_eq)
  qed
qed

lemma memcmp_spec:
  "memcmp m a b n = 0 \<longleftrightarrow> rd m a n = rd m b n"
  "memcmp m a b n < 0 \<longleftrightarrow>
     (\<exists>k < n. rd m a k = rd m b k \<and> m (a + k) < m (b + k))"
  using memcmp_from_cases [of m a b 0 n]
  by (auto simp: memcmp_def list_eq_iff_nth_eq split: if_splits)
     (metis linorder_neqE_nat order_less_imp_not_less)+


section \<open>What the string routines compute\<close>

lemma str_atD:
  assumes "str_at m p s"
  shows "\<And>k. k < length s \<Longrightarrow> m (p + k) = s ! k" and "m (p + length s) = 0"
    and "\<And>k. k < length s \<Longrightarrow> m (p + k) \<noteq> 0"
proof -
  have rd: "rd m p (Suc (length s)) = s @ [0]" and nz: "0 \<notin> set s"
    using assms by (auto simp: str_at_def)
  have "m (p + k) = (s @ [0]) ! k" if "k < Suc (length s)" for k
    using that nth_rd [of k "Suc (length s)" m p] rd by simp
  then show 1: "m (p + k) = s ! k" if "k < length s" for k
    using that by (metis less_SucI nth_append)
  show "m (p + length s) = 0"
    using \<open>\<And>k. k < Suc (length s) \<Longrightarrow> m (p + k) = (s @ [0]) ! k\<close> [of "length s"] by simp
  show "m (p + k) \<noteq> 0" if "k < length s" for k
    using that 1 nz nth_mem by metis
qed

lemma str_at_Nil [simp]: "str_at m p [] \<longleftrightarrow> m p = 0"
  by (simp add: str_at_def rd_def)

lemma str_at_Cons [simp]: "str_at m p (c # s) \<longleftrightarrow> c \<noteq> 0 \<and> m p = c \<and> str_at m (Suc p) s"
proof -
  have "rd m p (Suc (Suc (length s))) = m p # rd m (Suc p) (Suc (length s))"
    using rd_add [of m p 1 "Suc (length s)"] by (simp add: rd_def)
  then show ?thesis
    by (auto simp: str_at_def)
qed

lemma str_at_cong:
  "(\<And>i. i \<le> length s \<Longrightarrow> m (p + i) = m' (q + i)) \<Longrightarrow> str_at m p s = str_at m' q s"
  using rd_cong [of "Suc (length s)" m p m' q] by (simp add: str_at_def)

lemma uint_pos_iff: "0 < uint (w :: byte) \<longleftrightarrow> w \<noteq> 0"
  using unsigned_greater_eq [of w] by (auto simp: order_le_less uint_0_iff)

lemma strlen_from_terminated:
  "m (unat (str + (len + of_nat d))) = 0 \<Longrightarrow> \<forall>j < d. m (unat (str + (len + of_nat j))) \<noteq> 0 \<Longrightarrow>
   strlen_from m str len = Some (len + of_nat d)"
proof (induction d arbitrary: len)
  case 0
  then show ?case by (simp add: strlen_from.simps)
next
  case (Suc d)
  have "m (unat (str + (len + 1 + of_nat j))) \<noteq> 0" if "j < d" for j
    using that Suc.prems(2) [rule_format, of "Suc j"] by (simp add: add.assoc)
  then have "strlen_from m str (len + 1) = Some (len + 1 + of_nat d)"
    using Suc.prems(1) by (intro Suc.IH) (simp_all add: add.assoc)
  moreover have "m (unat (str + len)) \<noteq> 0"
    using Suc.prems(2) [rule_format, of 0] by simp
  ultimately show ?case
    by (simp add: strlen_from.simps [of m str len] add.assoc)
qed

lemma strlen_from_Some:
  assumes "strlen_from m str len = Some r"
  shows "\<exists>d. r = len + of_nat d \<and> m (unat (str + r)) = 0 \<and> (\<forall>j < d. m (unat (str + (len + of_nat j))) \<noteq> 0)"
proof (rule strlen_from.raw_induct [where P = "\<lambda>m str len r. \<exists>d. r = len + of_nat d \<and>
      m (unat (str + r)) = 0 \<and> (\<forall>j < d. m (unat (str + (len + of_nat j))) \<noteq> 0)", OF _ assms])
  fix strlen_from m str len r
  assume IH: "\<And>m str len r. strlen_from m str len = Some r \<Longrightarrow> \<exists>d. r = len + of_nat d \<and>
      m (unat (str + r)) = 0 \<and> (\<forall>j < d. m (unat (str + (len + of_nat j))) \<noteq> 0)"
    and r: "(if m (unat (str + len)) \<noteq> 0 then strlen_from m str (len + 1) else Some len) = Some r"
  show "\<exists>d. r = len + of_nat d \<and> m (unat (str + r)) = 0 \<and> (\<forall>j < d. m (unat (str + (len + of_nat j))) \<noteq> 0)"
  proof (cases "m (unat (str + len)) = 0")
    case True
    with r show ?thesis by (intro exI [of _ 0]) simp
  next
    case False
    with r obtain d where d: "r = len + 1 + of_nat d" "m (unat (str + r)) = 0"
      "\<forall>j < d. m (unat (str + (len + 1 + of_nat j))) \<noteq> 0"
      using IH by fastforce
    have "m (unat (str + (len + of_nat j))) \<noteq> 0" if "j < Suc d" for j
      using that False d(3) by (cases j) (auto simp: add.assoc)
    with d(1,2) show ?thesis by (intro exI [of _ "Suc d"]) (simp add: add.assoc)
  qed
qed

lemma strlen_SomeD:
  assumes "strlen m p = Some n"
  shows "m (unat (p + n)) = 0 \<and> (\<forall>k < n. m (unat (p + k)) \<noteq> 0)"
proof -
  obtain d where d: "n = of_nat d" "m (unat (p + n)) = 0" "\<forall>j < d. m (unat (p + of_nat j)) \<noteq> 0"
    using strlen_from_Some [of m p 0 n] assms by (auto simp: strlen_def)
  have "m (unat (p + k)) \<noteq> 0" if "k < n" for k
  proof -
    have "unat k < d"
      using that unat_of_nat [of d, where 'a = 32] by (simp add: d(1) word_less_nat_alt)
    then show ?thesis using d(3) [rule_format, of "unat k"] by simp
  qed
  then show ?thesis using d(2) by blast
qed

lemma strlen_SomeI:
  assumes "m (unat (p + n)) = 0" and "\<forall>k < n. m (unat (p + k)) \<noteq> 0"
  shows "strlen m p = Some n"
proof -
  have "m (unat (p + of_nat j)) \<noteq> 0" if "j < unat n" for j
  proof -
    have "unat (of_nat j :: u32) = j" using that unsigned_less [where 'b = 32 and 'a = nat, of n] by (simp add: unat_of_nat)
    then show ?thesis using that assms(2) by (simp add: word_less_nat_alt)
  qed
  then show ?thesis
    using strlen_from_terminated [of m p 0 "unat n"] assms(1) by (simp add: strlen_def)
qed

lemma strlen_None_iff: "strlen m p = None \<longleftrightarrow> (\<forall>a :: u32. m (unat a) \<noteq> 0)"
proof
  assume none: "strlen m p = None"
  show "\<forall>a :: u32. m (unat a) \<noteq> 0"
  proof (rule ccontr)
    assume "\<not> (\<forall>a :: u32. m (unat a) \<noteq> 0)"
    then obtain a :: u32 where "m (unat a) = 0" by blast
    then have "m (unat (p + of_nat (unat (a - p)))) = 0" by simp
    moreover define d where "d = (LEAST d. m (unat (p + of_nat d)) = 0)"
    ultimately have "m (unat (p + of_nat d)) = 0" "\<forall>j < d. m (unat (p + of_nat j)) \<noteq> 0"
      using LeastI [of "\<lambda>d. m (unat (p + of_nat d)) = 0"] not_less_Least by blast+
    then show False
      using strlen_from_terminated [of m p 0 d] none by (simp add: strlen_def)
  qed
next
  assume "\<forall>a :: u32. m (unat a) \<noteq> 0"
  then show "strlen m p = None" using strlen_SomeD by (cases "strlen m p") blast+
qed

lemma strlen_spec:
  assumes "str_at m (unat p) s" and "unat p + length s < 2 ^ 32"
  shows "strlen m p = Some (of_nat (length s))"
proof (rule strlen_SomeI)
  have pos: "unat (p + of_nat k) = unat p + k" if "k \<le> length s" for k
    using that assms(2) by (simp add: unat_word_ariths unat_of_nat)
  then show "m (unat (p + of_nat (length s))) = 0" using str_atD(2) [OF assms(1)] by simp
  show "\<forall>k < of_nat (length s). m (unat (p + k)) \<noteq> 0"
  proof (intro allI impI)
    fix k :: u32 assume "k < of_nat (length s)"
    then have "unat k < length s" using assms(2) by (simp add: word_less_nat_alt unat_of_nat)
    then show "m (unat (p + k)) \<noteq> 0" using str_atD(3) [OF assms(1)] pos [of "unat k"] by simp
  qed
qed

text \<open>
  C40: \<open>strlen\<close> returns exactly the distance to the first NUL byte at or after the address it is given,
  where addresses wrap at 4 GB. It does not return if and only if no byte of the whole address space is
  NUL.
\<close>

theorem strlen_exact:
  "(strlen m p = Some n \<longleftrightarrow> m (unat (p + n)) = 0 \<and> (\<forall>k < n. m (unat (p + k)) \<noteq> 0)) \<and>
   (strlen m p = None \<longleftrightarrow> (\<forall>a :: u32. m (unat a) \<noteq> 0))"
  by (rule conjI [OF iffI [OF strlen_SomeD] strlen_None_iff]) (auto intro: strlen_SomeI)

text \<open>A string of four bytes that runs over the end of the address space.\<close>

lemma strlen_exact_witness: "strlen (\<lambda>a. if a = 2 then 0 else 65) 0xFFFFFFFE = Some 4"
proof -
  have "unat ((0xFFFFFFFE :: u32) + k) \<noteq> 2" if k: "k < 4" for k
  proof -
    have "unat k < 4" using k by (simp add: word_less_nat_alt)
    then have "unat k \<in> unat ` {0 :: u32, 1, 2, 3}" by auto
    then have "k \<in> {0, 1, 2, 3}" by (auto simp: word_unat_eq_iff)
    then show ?thesis by auto
  qed
  then show ?thesis
    by (subst conjunct1 [OF strlen_exact]) simp
qed

lemma strcmp_terminated:
  assumes "str_at m p s" and "str_at m q t"
  shows "\<exists>c. strcmp m p q = Some c \<and> (c = 0 \<longleftrightarrow> s = t) \<and> (c < 0 \<longleftrightarrow> ord_class.lexordp s t)"
  using assms
proof (induction s arbitrary: p q t)
  case Nil
  then show ?case
    by (cases t) (auto simp: strcmp.simps [of m p q] uint_pos_iff uint_0_iff)
next
  case (Cons a s)
  show ?case
  proof (cases t)
    case Nil
    with Cons.prems show ?thesis
      by (auto simp: strcmp.simps [of m p q] word_less_def uint_0_iff)
  next
    case (Cons b t')
    show ?thesis
    proof (cases "a = b")
      case True
      have "strcmp m p q = strcmp m (Suc p) (Suc q)"
        using Cons.prems Cons True by (simp add: strcmp.simps [of m p q])
      then show ?thesis
        using Cons.IH [of "Suc p" "Suc q" t'] Cons.prems \<open>t = b # t'\<close> True by simp
    next
      case False
      then have "strcmp m p q = Some (uint a - uint b)"
        using Cons.prems Cons by (simp add: strcmp.simps [of m p q])
      then show ?thesis
        using False Cons word_uint_eq_iff [of a b] by (auto simp: word_less_def)
    qed
  qed
qed

lemma strcat_end_str_at: "str_at m p s \<Longrightarrow> strcat_end m p = Some (p + length s)"
  by (induction s arbitrary: p) (simp_all add: strcat_end.simps)

lemma strcat_copy_str_at:
  assumes "str_at m src s" and "dest \<le> src \<or> src + length s < dest"
  shows "strcat_copy m dest src = Some (wr m dest (s @ [0]))"
  using assms
proof (induction s arbitrary: m dest src)
  case Nil
  then show ?case
    by (subst strcat_copy.simps) (auto simp: wr_def fun_eq_iff Let_def)
next
  case (Cons a s)
  have "str_at (m(dest := a)) (Suc src) s = str_at m (Suc src) s"
    using Cons.prems(2) by (intro str_at_cong) auto
  then have "str_at (m(dest := a)) (Suc src) s"
    using Cons.prems(1) by simp
  then have "strcat_copy (m(dest := a)) (Suc dest) (Suc src)
      = Some (wr (m(dest := a)) (Suc dest) (s @ [0]))"
    by (rule Cons.IH) (use Cons.prems(2) in auto)
  moreover have "wr (m(dest := a)) (Suc dest) (s @ [0]) = wr m dest ((a # s) @ [0])"
    using wr_append [of m dest "[a]" "s @ [0]"] by (auto simp: wr_def fun_eq_iff)
  ultimately show ?case
    using Cons.prems by (subst strcat_copy.simps) (auto simp: Let_def)
qed

text \<open>
  \<open>strcat\<close> of two terminated strings appends the second, with its NUL, after the first, when
  the source does not lie in the bytes that are overwritten before they are read.
\<close>

theorem strcat_spec:
  assumes "str_at m dest d" and "str_at m src s"
    and "dest + length d \<le> src \<or> src + length s < dest + length d"
  shows "strcat m dest src = Some (wr m (dest + length d) (s @ [0]))"
  using assms by (simp add: strcat_def strcat_end_str_at strcat_copy_str_at)

text \<open>
  \<open>strcpy\<close> copies \<open>sizeof(src) + 1\<close> bytes, five, whatever the length of the string: it is
  right exactly for strings of at most four characters.
\<close>

lemma strcpy_eq_wr:
  "dest \<le> src \<or> src + 5 \<le> dest \<Longrightarrow> strcpy m dest src = wr m dest (rd m src 5)"
  by (simp add: strcpy_def sizeof_ptr_def memcpy_def memcpy_eq_wr)

lemma strcpy_short:
  assumes "str_at m src s" and "length s \<le> 4" and "dest \<le> src \<or> src + 5 \<le> dest"
  shows "str_at (strcpy m dest src) dest s"
proof -
  have "rd (strcpy m dest src) dest (Suc (length s)) = take (Suc (length s)) (rd m src 5)"
    using assms(2) by (simp add: strcpy_eq_wr [OF assms(3)] rd_wr_inside)
  also have "\<dots> = rd m src (Suc (length s))"
    using assms(2) by (simp add: take_rd)
  finally show ?thesis
    using assms(1) by (simp add: str_at_def)
qed


lemma strcat_spec_witness:
  "let m = (\<lambda>_. 0)(0 := 97, 8 := 98, 9 := 99)
   in strcat m 0 8 = Some (wr m (0 + length [97 :: byte]) ([98, 99] @ [0]))"
  unfolding Let_def by (rule strcat_spec) simp_all

text \<open>
  C24: the \<open>strcpy\<close> of libk copies five bytes (\<open>sizeof(src) + 1\<close>), so it produces a copy of the
  string exactly when the string has at most four characters, unless the destination already
  held a NUL in the right place.
\<close>

theorem strcpy_correct_iff:
  assumes "str_at m src s" and "dest \<le> src \<or> src + 5 \<le> dest" and "m (dest + length s) \<noteq> 0"
  shows "str_at (strcpy m dest src) dest s \<longleftrightarrow> length s \<le> 4"
proof
  assume "length s \<le> 4"
  then show "str_at (strcpy m dest src) dest s" using strcpy_short assms by blast
next
  assume a: "str_at (strcpy m dest src) dest s"
  then have z: "strcpy m dest src (dest + length s) = 0" by (rule str_atD(2))
  show "length s \<le> 4"
  proof (rule ccontr)
    assume "\<not> length s \<le> 4"
    then have "strcpy m dest src (dest + length s) = m (dest + length s)"
      by (simp add: strcpy_eq_wr [OF assms(2)] wr_apply_out)
    with z assms(3) show False by simp
  qed
qed

lemma strcpy_correct_iff_witness:
  "let m = (\<lambda>_. 7)(20 := 97, 21 := 98, 22 := 99, 23 := 100, 24 := 101, 25 := 0)
   in str_at (strcpy m 0 20) 0 [97, 98, 99, 100, 101] \<longleftrightarrow> length [97, 98, 99, 100, 101 :: byte] \<le> 4"
  unfolding Let_def by (rule strcpy_correct_iff) simp_all

end
