(* ===== verification/CArray.thy ===== *)
theory CArray
  imports CString
begin

text \<open>
  The same string routines seen from one C object: a list of bytes, where running off either
  end is undefined behaviour. The callers of this development (printf and the file system)
  keep their buffers as such lists; the lemmas tie each routine to its version on the flat
  memory of CString.
\<close>

section \<open>Array accesses\<close>

definition arr_get :: "'a list \<Rightarrow> int \<Rightarrow> 'a res" where
  "arr_get xs i = (if 0 \<le> i \<and> i < int (length xs) then Ok (xs ! nat i) else Err Undefined)"

definition arr_set :: "'a list \<Rightarrow> int \<Rightarrow> 'a \<Rightarrow> 'a list res" where
  "arr_set xs i x = (if 0 \<le> i \<and> i < int (length xs) then Ok (xs[nat i := x]) else Err Undefined)"

lemma arr_get_ok [simp]: "n < length xs \<Longrightarrow> arr_get xs (int n) = Ok (xs ! n)"
  by (simp add: arr_get_def)

lemma arr_set_ok [simp]: "n < length xs \<Longrightarrow> arr_set xs (int n) x = Ok (xs[n := x])"
  by (simp add: arr_set_def)

lemma arr_get_Ok_iff:
  "arr_get xs i = Ok x \<longleftrightarrow> 0 \<le> i \<and> i < int (length xs) \<and> xs ! nat i = x"
  by (auto simp: arr_get_def)

lemma arr_set_Ok_iff:
  "arr_set xs i x = Ok ys \<longleftrightarrow> 0 \<le> i \<and> i < int (length xs) \<and> ys = xs[nat i := x]"
  by (auto simp: arr_set_def)

section \<open>Strings in an object\<close>

fun arr_strlen :: "byte list \<Rightarrow> nat res" where
  "arr_strlen [] = Err Undefined"
| "arr_strlen (c # cs) = (if c \<noteq> 0 then bindr (arr_strlen cs) (\<lambda>n. Ok (Suc n)) else Ok 0)"

fun arr_strcmp :: "byte list \<Rightarrow> byte list \<Rightarrow> int res" where
  "arr_strcmp (a # as) (b # bs) =
     (if a \<noteq> 0 \<and> a = b then arr_strcmp as bs else Ok (uint a - uint b))"
| "arr_strcmp _ _ = Err Undefined"

text \<open>libk's \<open>strcpy\<close> (five bytes), and the \<open>strcpy\<close> of the C standard that the host tools use.\<close>

definition arr_strcpy :: "byte list \<Rightarrow> byte list \<Rightarrow> byte list res" where
  "arr_strcpy dest src =
     (if sizeof_ptr + 1 \<le> length src \<and> sizeof_ptr + 1 \<le> length dest
      then Ok (take (sizeof_ptr + 1) src @ drop (sizeof_ptr + 1) dest) else Err Undefined)"

definition std_strcpy :: "byte list \<Rightarrow> byte list \<Rightarrow> byte list res" where
  "std_strcpy dest src = bindr (arr_strlen src) (\<lambda>n.
     if Suc n \<le> length dest then Ok (take (Suc n) src @ drop (Suc n) dest) else Err Undefined)"

definition arr_strcat :: "byte list \<Rightarrow> byte list \<Rightarrow> byte list res" where
  "arr_strcat dest src = bindr (arr_strlen dest) (\<lambda>n. bindr (arr_strlen src) (\<lambda>k.
     if n + Suc k \<le> length dest
     then Ok (take n dest @ take (Suc k) src @ drop (n + Suc k) dest) else Err Undefined))"

text \<open>The string an object holds: the bytes before the first NUL.\<close>

definition cstr :: "byte list \<Rightarrow> byte list" where
  "cstr bs = takeWhile (\<lambda>c. c \<noteq> 0) bs"

definition terminated :: "byte list \<Rightarrow> bool" where
  "terminated bs \<longleftrightarrow> 0 \<in> set bs"

lemma zero_notin_cstr [simp]: "0 \<notin> set (cstr bs)"
  by (auto simp: cstr_def dest: set_takeWhileD)

lemma cstr_simps [simp]:
  "cstr [] = []" "cstr (c # cs) = (if c = 0 then [] else c # cstr cs)"
  by (simp_all add: cstr_def)

lemma terminated_simps [simp]:
  "\<not> terminated []" "terminated (c # cs) \<longleftrightarrow> c = 0 \<or> terminated cs"
  by (auto simp: terminated_def)

lemma cstr_append [simp]: "0 \<notin> set s \<Longrightarrow> cstr (s @ 0 # r) = s"
  by (induction s) auto

lemma terminated_append [simp]: "terminated (s @ 0 # r)"
  by (simp add: terminated_def)

lemma terminated_decomp: "terminated bs \<Longrightarrow> \<exists>r. bs = cstr bs @ 0 # r"
  by (induction bs) auto

lemma length_cstr_less: "terminated bs \<Longrightarrow> length (cstr bs) < length bs"
  by (induction bs) auto

lemma arr_strlen_eq: "arr_strlen bs = (if terminated bs then Ok (length (cstr bs)) else Err Undefined)"
  by (induction bs) auto

lemma arr_strcmp_terminated:
  "terminated a \<Longrightarrow> terminated b \<Longrightarrow>
   \<exists>c. arr_strcmp a b = Ok c \<and> (c = 0 \<longleftrightarrow> cstr a = cstr b)"
  by (induction a b rule: arr_strcmp.induct) (auto simp: word_uint_eq_iff)

lemma std_strcpy_ok:
  assumes "terminated src" and "length (cstr src) < length dest"
  obtains bs where "std_strcpy dest src = Ok bs" "cstr bs = cstr src" "terminated bs"
    "length bs = length dest"
proof -
  obtain r where src: "src = cstr src @ 0 # r"
    using terminated_decomp [OF assms(1)] by blast
  let ?n = "length (cstr src)"
  have tk: "take (Suc ?n) src = cstr src @ [0]"
    by (subst src) simp
  have "std_strcpy dest src = Ok (cstr src @ 0 # drop (Suc ?n) dest)"
    using assms tk by (simp add: std_strcpy_def arr_strlen_eq Suc_le_eq)
  moreover have "length (cstr src @ 0 # drop (Suc ?n) dest) = length dest"
    using assms(2) by simp
  ultimately show thesis
    by (intro that [of "cstr src @ 0 # drop (Suc ?n) dest"]) simp_all
qed

section \<open>Agreement with the flat memory\<close>

text \<open>An object of \<open>length bs\<close> bytes stored at \<open>p\<close>.\<close>

definition holds :: "(nat \<Rightarrow> byte) \<Rightarrow> nat \<Rightarrow> byte list \<Rightarrow> bool" where
  "holds m p bs \<longleftrightarrow> rd m p (length bs) = bs"

lemma holds_Cons [simp]: "holds m p (b # bs) \<longleftrightarrow> m p = b \<and> holds m (Suc p) bs"
  using rd_add [of m p 1 "length bs"] by (simp add: holds_def rd_def)

lemma holds_Nil [simp]: "holds m p []"
  by (simp add: holds_def)

lemma holds_append: "holds m p (xs @ ys) \<longleftrightarrow> holds m p xs \<and> holds m (p + length xs) ys"
  by (induction xs arbitrary: p) auto

lemma holds_str_at: "holds m p bs \<Longrightarrow> terminated bs \<Longrightarrow> str_at m p (cstr bs)"
  by (induction bs arbitrary: p) auto

lemma holds_wr_same: "holds (wr m p bs) p bs"
  by (simp add: holds_def)

lemma arr_strlen_memory:
  "holds m (unat p) bs \<Longrightarrow> arr_strlen bs = Ok n \<Longrightarrow> unat p + length bs \<le> 2 ^ 32 \<Longrightarrow> strlen m p = Some (of_nat n)"
  using strlen_spec [OF holds_str_at, of m p bs] length_cstr_less [of bs] by (auto simp: arr_strlen_eq split: if_splits)

lemma arr_strcmp_memory:
  "holds m p as \<Longrightarrow> holds m q bs \<Longrightarrow> arr_strcmp as bs = Ok c \<Longrightarrow> strcmp m p q = Some c"
proof (induction as bs arbitrary: p q rule: arr_strcmp.induct)
  case (1 a as b bs)
  then show ?case
    by (subst strcmp.simps) (auto split: if_splits)
qed auto

lemma arr_strcpy_memory:
  assumes "holds m p dest" and "holds m q src" and "arr_strcpy dest src = Ok r"
    and "p + length dest \<le> q \<or> q + length src \<le> p"
  shows "holds (strcpy m p q) p r"
proof -
  have len: "5 \<le> length src" "5 \<le> length dest" and r: "r = take 5 src @ drop 5 dest"
    using assms(3) by (auto simp: arr_strcpy_def sizeof_ptr_def split: if_splits)
  have "take 5 (rd m q (length src)) = take 5 src"
    using assms(2) by (simp add: holds_def)
  then have src: "rd m q 5 = take 5 src"
    using len(1) by (simp add: take_rd)
  have "drop 5 (rd m p (length dest)) = drop 5 dest"
    using assms(1) by (simp add: holds_def)
  then have dest: "rd m (p + 5) (length dest - 5) = drop 5 dest"
    by (simp add: drop_rd)
  have "strcpy m p q = wr m p (take 5 src)"
    using assms(4) len by (subst strcpy_eq_wr) (auto simp: src)
  then show ?thesis
    using len dest by (simp add: r holds_append holds_wr_same) (simp add: holds_def rd_wr_disjoint)
qed

end
