(* ===== verification/Tty.thy ===== *)
theory Tty
  imports CArray
begin

text \<open>
  The text terminal of kernel/arch/i386/tty.c on the VGA text buffer (vga.h), and \<open>putchar\<close> of
  the kernel's libc on top of it. The terminal is shown to implement a screen with one linear
  cursor, and its invariant keeps every write inside the 80 x 25 cells.
\<close>

named_theorems tty_simps \<open>the terminal under its invariant\<close>

section \<open>VGA cells (vga.h)\<close>

datatype vga_color =
    VGA_COLOR_BLACK | VGA_COLOR_BLUE | VGA_COLOR_GREEN | VGA_COLOR_CYAN | VGA_COLOR_RED
  | VGA_COLOR_MAGENTA | VGA_COLOR_BROWN | VGA_COLOR_LIGHT_GREY | VGA_COLOR_DARK_GREY
  | VGA_COLOR_LIGHT_BLUE | VGA_COLOR_LIGHT_GREEN | VGA_COLOR_LIGHT_CYAN | VGA_COLOR_LIGHT_RED
  | VGA_COLOR_LIGHT_MAGENTA | VGA_COLOR_LIGHT_BROWN | VGA_COLOR_WHITE

primrec vga_color_val :: "vga_color \<Rightarrow> byte" where
  "vga_color_val VGA_COLOR_BLACK = 0" | "vga_color_val VGA_COLOR_BLUE = 1"
| "vga_color_val VGA_COLOR_GREEN = 2" | "vga_color_val VGA_COLOR_CYAN = 3"
| "vga_color_val VGA_COLOR_RED = 4" | "vga_color_val VGA_COLOR_MAGENTA = 5"
| "vga_color_val VGA_COLOR_BROWN = 6" | "vga_color_val VGA_COLOR_LIGHT_GREY = 7"
| "vga_color_val VGA_COLOR_DARK_GREY = 8" | "vga_color_val VGA_COLOR_LIGHT_BLUE = 9"
| "vga_color_val VGA_COLOR_LIGHT_GREEN = 10" | "vga_color_val VGA_COLOR_LIGHT_CYAN = 11"
| "vga_color_val VGA_COLOR_LIGHT_RED = 12" | "vga_color_val VGA_COLOR_LIGHT_MAGENTA = 13"
| "vga_color_val VGA_COLOR_LIGHT_BROWN = 14" | "vga_color_val VGA_COLOR_WHITE = 15"

definition vga_entry_color :: "vga_color \<Rightarrow> vga_color \<Rightarrow> byte" where
  "vga_entry_color fg bg = vga_color_val fg OR push_bit 4 (vga_color_val bg)"

definition vga_entry :: "byte \<Rightarrow> byte \<Rightarrow> u16" where
  "vga_entry uc color = ucast uc OR push_bit 8 (ucast color)"

text \<open>What the hardware shows of a cell: the character and the two colours.\<close>

definition vga_char :: "u16 \<Rightarrow> byte" where "vga_char e = ucast e"
definition vga_attr :: "u16 \<Rightarrow> byte" where "vga_attr e = ucast (drop_bit 8 e)"

lemma vga_char_entry [simp]: "vga_char (vga_entry c color) = c"
  by (rule bit_eqI) (auto simp: vga_char_def vga_entry_def bit_simps)

lemma vga_attr_entry [simp]: "vga_attr (vga_entry c color) = color"
  by (rule bit_eqI) (auto simp: vga_attr_def vga_entry_def bit_simps dest: bit_imp_le_length)

section \<open>The terminal (tty.c)\<close>

definition VGA_WIDTH :: u32 where "VGA_WIDTH = 80"
definition VGA_HEIGHT :: u32 where "VGA_HEIGHT = 25"

text \<open>
  The static variables. \<open>terminal_buffer\<close> is the memory the pointer of that name points to, the
  2000 cells at 0xB8000 after \<open>terminal_initialize\<close> and no object before. An access outside it
  is undefined.
\<close>

record tty =
  terminal_row :: u32
  terminal_column :: u32
  terminal_color :: byte
  terminal_buffer :: "u16 list"

definition terminal_setcolor :: "byte \<Rightarrow> tty \<Rightarrow> tty" where
  "terminal_setcolor color t = t\<lparr>terminal_color := color\<rparr>"

definition terminal_putentryat :: "byte \<Rightarrow> byte \<Rightarrow> u32 \<Rightarrow> u32 \<Rightarrow> tty \<Rightarrow> tty res" where
  "terminal_putentryat c color x y t =
     (let index = y * VGA_WIDTH + x
      in bindr (arr_set (terminal_buffer t) (uint index) (vga_entry c color)) (\<lambda>b.
           Ok (t\<lparr>terminal_buffer := b\<rparr>)))"

text \<open>The two nested loops, with \<open>x\<close> and \<open>y\<close> as words.\<close>

definition terminal_clear :: "tty \<Rightarrow> tty res" where
  "terminal_clear t =
     for_each (\<lambda>y. for_each (\<lambda>x t.
       let index = y * VGA_WIDTH + x
       in bindr (arr_set (terminal_buffer t) (uint index) (vga_entry 32 (terminal_color t))) (\<lambda>b.
            Ok (t\<lparr>terminal_buffer := b\<rparr>)))
       (map of_nat [0..<unat VGA_WIDTH])) (map of_nat [0..<unat VGA_HEIGHT]) t"

definition terminal_initialize :: "u16 list \<Rightarrow> tty \<Rightarrow> tty res" where
  "terminal_initialize vga_memory t =
     terminal_clear (t\<lparr>terminal_row := 0, terminal_column := 0,
       terminal_color := vga_entry_color VGA_COLOR_LIGHT_GREY VGA_COLOR_BLACK,
       terminal_buffer := vga_memory\<rparr>)"

definition next_row :: "tty \<Rightarrow> tty res" where
  "next_row t = (let t = t\<lparr>terminal_row := terminal_row t + 1\<rparr>
     in if terminal_row t = VGA_HEIGHT then terminal_clear (t\<lparr>terminal_row := 0\<rparr>) else Ok t)"

definition terminal_putchar :: "byte \<Rightarrow> tty \<Rightarrow> tty res" where
  "terminal_putchar c t =
     (if c = 10 then next_row (t\<lparr>terminal_column := 0\<rparr>)
      else bindr (terminal_putentryat c (terminal_color t) (terminal_column t) (terminal_row t) t) (\<lambda>t.
        let t = t\<lparr>terminal_column := terminal_column t + 1\<rparr>
        in if terminal_column t = VGA_WIDTH then next_row (t\<lparr>terminal_column := 0\<rparr>) else Ok t))"

definition terminal_write :: "byte list \<Rightarrow> nat \<Rightarrow> tty \<Rightarrow> tty res" where
  "terminal_write data sz =
     for_each (\<lambda>i t. bindr (arr_get data (int i)) (\<lambda>c. terminal_putchar c t)) [0..<sz]"

definition terminal_writestring :: "byte list \<Rightarrow> tty \<Rightarrow> tty res" where
  "terminal_writestring data t = bindr (arr_strlen data) (\<lambda>n. terminal_write data n t)"

text \<open>\<open>putchar\<close> of libk (libc/stdio/putchar.c): one character through \<open>terminal_write\<close>.\<close>

definition putchar :: "int \<Rightarrow> tty \<Rightarrow> (int \<times> tty) res" where
  "putchar ic t = (let c = of_int ic in bindr (terminal_write [c] 1 t) (\<lambda>t. Ok (ic, t)))"

section \<open>The invariant\<close>

definition term_ok :: "tty \<Rightarrow> bool" where
  "term_ok t \<longleftrightarrow> terminal_row t < 25 \<and> terminal_column t < 80 \<and> length (terminal_buffer t) = 2000"

lemma cell_index: "x < (80 :: u32) \<Longrightarrow> y < (25 :: u32) \<Longrightarrow> unat (y * 80 + x) = unat y * 80 + unat x"
proof -
  assume "x < 80" "y < 25"
  then have "unat x < 80" "unat y < 25" by (simp_all add: word_less_nat_alt)
  then show ?thesis by (simp add: unat_word_ariths)
qed

lemma cell_index_less: "x < (80 :: u32) \<Longrightarrow> y < (25 :: u32) \<Longrightarrow> unat (y * 80 + x) < 2000"
proof -
  assume a: "x < 80" "y < 25"
  then have "unat x < 80" "unat y < 25" by (simp_all add: word_less_nat_alt)
  then show ?thesis using cell_index [OF a] by simp
qed

text \<open>A cell is written in place.\<close>

lemma set_cell:
  assumes "length b = 2000" and "x < (80 :: u32)" and "y < (25 :: u32)"
  shows "arr_set b (uint (y * VGA_WIDTH + x)) e = Ok (b[unat y * 80 + unat x := e])"
proof -
  have "uint (y * VGA_WIDTH + x) = int (unat y * 80 + unat x)"
    using cell_index [OF assms(2,3)] by (simp only: VGA_WIDTH_def uint_nat)
  moreover have "unat y * 80 + unat x < length b"
    using cell_index_less [OF assms(2,3)] cell_index [OF assms(2,3)] assms(1) by simp
  ultimately show ?thesis
    by (simp only: arr_set_ok)
qed

text \<open>The cells before position \<open>k\<close> are cleared.\<close>

definition cleared :: "nat \<Rightarrow> tty \<Rightarrow> tty" where
  "cleared k t = t\<lparr>terminal_buffer := replicate k (vga_entry 32 (terminal_color t)) @ drop k (terminal_buffer t)\<rparr>"

lemma cleared_step:
  assumes "length b = 2000" and "k < 2000"
  shows "(replicate k e @ drop k b)[k := e] = replicate (Suc k) e @ drop (Suc k) b"
  using assms by (simp add: list_update_append replicate_append_same flip: Cons_nth_drop_Suc)

lemma clear_row:
  assumes "length (terminal_buffer t) = 2000" and "y < 25" and "n \<le> 80"
  shows "for_each (\<lambda>x t. let index = of_nat y * VGA_WIDTH + x
       in bindr (arr_set (terminal_buffer t) (uint index) (vga_entry 32 (terminal_color t))) (\<lambda>b.
            Ok (t\<lparr>terminal_buffer := b\<rparr>)))
       (map of_nat [0..<n]) (cleared (y * 80) t) = Ok (cleared (y * 80 + n) t)"
  using assms(3)
proof (induction n)
  case (Suc n)
  have "(of_nat n :: u32) < 80" "(of_nat y :: u32) < 25" "unat (of_nat n :: u32) = n" "unat (of_nat y :: u32) = y"
    using Suc.prems assms(2) by (simp_all add: word_less_nat_alt unat_of_nat)
  moreover have "y * 80 + n < 2000" using Suc.prems assms(2) by simp
  ultimately show ?case
    using Suc assms(1) by (simp add: for_each_append Let_def cleared_def set_cell cleared_step)
qed simp

lemma terminal_clear_eq:
  assumes "length (terminal_buffer t) = 2000"
  shows "terminal_clear t = Ok (t\<lparr>terminal_buffer := replicate 2000 (vga_entry 32 (terminal_color t))\<rparr>)"
proof -
  have "for_each (\<lambda>y. for_each (\<lambda>x t. let index = y * VGA_WIDTH + x
       in bindr (arr_set (terminal_buffer t) (uint index) (vga_entry 32 (terminal_color t))) (\<lambda>b.
            Ok (t\<lparr>terminal_buffer := b\<rparr>)))
       (map of_nat [0..<80])) (map of_nat [0..<m]) t = Ok (cleared (m * 80) t)" if "m \<le> 25" for m
    using that
  proof (induction m)
    case 0
    then show ?case by (simp add: cleared_def)
  next
    case (Suc m)
    then show ?case
      using clear_row [OF assms, of m 80] by (simp add: for_each_append add.commute)
  qed
  from this [of 25] show ?thesis
    by (simp add: terminal_clear_def VGA_WIDTH_def VGA_HEIGHT_def cleared_def assms)
qed

section \<open>The screen the terminal implements\<close>

text \<open>
  The abstract screen has one linear cursor over the cells. A newline moves it to the start of
  the next line, any other character is put at the cursor. A cursor that leaves the last cell
  goes back to the first one of a blank screen.
\<close>

type_synonym screen = "nat \<times> u16 list"

definition screen :: "tty \<Rightarrow> screen" where
  "screen t = (unat (terminal_row t) * 80 + unat (terminal_column t), terminal_buffer t)"

definition screen_putc :: "byte \<Rightarrow> byte \<Rightarrow> screen \<Rightarrow> screen" where
  "screen_putc color c = (\<lambda>(cur, cells).
     let (cur, cells) = if c = 10 then ((cur div 80 + 1) * 80, cells) else (cur + 1, cells[cur := vga_entry c color])
     in if cur = 2000 then (0, replicate 2000 (vga_entry 32 color)) else (cur, cells))"

lemma next_row_ok:
  assumes "terminal_row t < 25" and "terminal_column t = 0" and "length (terminal_buffer t) = 2000"
  shows "\<exists>t'. next_row t = Ok t' \<and> term_ok t' \<and> terminal_color t' = terminal_color t \<and>
    screen t' = (if unat (terminal_row t) = 24 then (0, replicate 2000 (vga_entry 32 (terminal_color t)))
      else (unat (terminal_row t) * 80 + 80, terminal_buffer t))"
proof (cases "unat (terminal_row t) = 24")
  case True
  then have "terminal_row t = 24" by (simp add: word_unat_eq_iff)
  then show ?thesis
    using assms by (simp add: next_row_def VGA_HEIGHT_def terminal_clear_eq term_ok_def screen_def)
next
  case False
  then have less: "unat (terminal_row t) + 1 < 25" using assms(1) by (simp add: word_less_nat_alt)
  then have "unat (terminal_row t + 1) = unat (terminal_row t) + 1"
    using unat_add_small [of "terminal_row t" 1] by simp
  then show ?thesis
    using False less assms by (auto simp: next_row_def VGA_HEIGHT_def term_ok_def screen_def word_less_nat_alt word_unat_eq_iff)
qed

text \<open>The cursor keeps its row under the division that the specification uses.\<close>

lemma cursor_div: "unat (terminal_column t) < 80 \<Longrightarrow> (unat (terminal_row t) * 80 + unat (terminal_column t)) div 80 = unat (terminal_row t)"
  by simp

lemma putchar_step:
  assumes "term_ok t"
  shows "\<exists>t'. terminal_putchar c t = Ok t' \<and> term_ok t' \<and> terminal_color t' = terminal_color t \<and>
    screen t' = screen_putc (terminal_color t) c (screen t)"
proof -
  have row: "terminal_row t < 25" "unat (terminal_row t) < 25" and col: "terminal_column t < 80" "unat (terminal_column t) < 80"
    and len: "length (terminal_buffer t) = 2000"
    using assms by (auto simp: term_ok_def word_less_nat_alt)
  show ?thesis
  proof (cases "c = 10")
    case True
    then show ?thesis
      using next_row_ok [of "t\<lparr>terminal_column := 0\<rparr>"] row col len
      by (auto simp: terminal_putchar_def screen_putc_def screen_def)
  next
    case False
    let ?b = "(terminal_buffer t)[unat (terminal_row t) * 80 + unat (terminal_column t) := vga_entry c (terminal_color t)]"
    let ?t = "t\<lparr>terminal_buffer := ?b, terminal_column := terminal_column t + 1\<rparr>"
    have put: "terminal_putentryat c (terminal_color t) (terminal_column t) (terminal_row t) t = Ok (t\<lparr>terminal_buffer := ?b\<rparr>)"
      using set_cell [OF len col(1) row(1)] by (simp add: terminal_putentryat_def)
    have suc: "unat (terminal_column t + 1) = unat (terminal_column t) + 1"
      using col(2) unat_add_small [of "terminal_column t" 1] by simp
    show ?thesis
    proof (cases "unat (terminal_column t) = 79")
      case True
      then have "terminal_column t + 1 = VGA_WIDTH" using suc by (simp add: VGA_WIDTH_def word_unat_eq_iff)
      then show ?thesis
        using False True put next_row_ok [of "t\<lparr>terminal_buffer := ?b, terminal_column := 0\<rparr>"] row len
        by (auto simp: terminal_putchar_def screen_putc_def screen_def)
    next
      case ne: False
      then have "terminal_column t + 1 \<noteq> VGA_WIDTH" using suc by (simp add: VGA_WIDTH_def word_unat_eq_iff)
      then show ?thesis
        using False ne put suc row col len
        by (auto simp: terminal_putchar_def screen_putc_def screen_def term_ok_def word_less_nat_alt)
    qed
  qed
qed

section \<open>Strings on the screen\<close>

text \<open>\<open>t'\<close> is the terminal after the characters \<open>s\<close>.\<close>

definition shown :: "byte list \<Rightarrow> tty \<Rightarrow> tty \<Rightarrow> bool" where
  "shown s t t' \<longleftrightarrow> term_ok t' \<and> terminal_color t' = terminal_color t \<and>
     screen t' = fold (screen_putc (terminal_color t)) s (screen t)"

lemma shown_Nil [tty_simps]: "term_ok t \<Longrightarrow> shown [] t t"
  by (simp add: shown_def)

lemma shown_append: "shown s t t' \<Longrightarrow> shown u t' t'' \<Longrightarrow> shown (s @ u) t t''"
  by (simp add: shown_def)

lemma shown_Cons: "shown [c] t t' \<Longrightarrow> shown s t' t'' \<Longrightarrow> shown (c # s) t t''"
  using shown_append [of "[c]" t t' s t''] by simp

lemma shown_ok: "shown s t t' \<Longrightarrow> term_ok t'"
  by (simp add: shown_def)

lemma terminal_putchar_shown: "term_ok t \<Longrightarrow> \<exists>t'. terminal_putchar c t = Ok t' \<and> shown [c] t t'"
  using putchar_step by (simp add: shown_def)

lemma write_shown:
  assumes "term_ok t" and "n \<le> length s"
  shows "\<exists>t'. terminal_write s n t = Ok t' \<and> shown (take n s) t t'"
  using assms(2)
proof (induction n)
  case 0
  then show ?case using assms(1) by (simp add: terminal_write_def tty_simps)
next
  case (Suc n)
  then obtain t1 where t1: "terminal_write s n t = Ok t1" "shown (take n s) t t1" by auto
  then obtain t2 where t2: "terminal_putchar (s ! n) t1 = Ok t2" "shown [s ! n] t1 t2"
    using terminal_putchar_shown shown_ok by blast
  have "shown (take (Suc n) s) t t2"
    using shown_append [OF t1(2) t2(2)] Suc.prems by (simp add: take_Suc_conv_app_nth)
  then show ?case
    using t1(1) t2(1) Suc.prems by (simp add: terminal_write_def for_each_append)
qed

lemma putchar_shown:
  assumes "term_ok t"
  shows "\<exists>t'. putchar ic t = Ok (ic, t') \<and> shown [of_int ic] t t'"
  using write_shown [OF assms, of 1 "[of_int ic]"] by (auto simp: putchar_def)

section \<open>States the kernel can reach\<close>

text \<open>Calls of the terminal's interface in any order, after an initialisation.\<close>

inductive tty_reach :: "tty \<Rightarrow> bool" where
  reach_init: "length vga = 2000 \<Longrightarrow> terminal_initialize vga t = Ok t' \<Longrightarrow> tty_reach t'"
| reach_setcolor: "tty_reach t \<Longrightarrow> tty_reach (terminal_setcolor color t)"
| reach_clear: "tty_reach t \<Longrightarrow> terminal_clear t = Ok t' \<Longrightarrow> tty_reach t'"
| reach_putchar: "tty_reach t \<Longrightarrow> terminal_putchar c t = Ok t' \<Longrightarrow> tty_reach t'"
| reach_write: "tty_reach t \<Longrightarrow> terminal_write data n t = Ok t' \<Longrightarrow> n \<le> length data \<Longrightarrow> tty_reach t'"

lemma terminal_initialize_eq:
  assumes "length vga = 2000"
  shows "terminal_initialize vga t = Ok \<lparr>terminal_row = 0, terminal_column = 0, terminal_color = 7,
    terminal_buffer = replicate 2000 (vga_entry 32 7), \<dots> = tty.more t\<rparr>"
  by (simp add: terminal_initialize_def terminal_clear_eq assms vga_entry_color_def)

section \<open>Properties\<close>

text \<open>
  C34: whatever the kernel prints, in whatever order and colours, the cursor stays inside the
  screen and the next character, at any value, is written inside the 2000 cells of the VGA
  buffer.
\<close>

theorem terminal_never_overruns:
  assumes "tty_reach t"
  shows "terminal_row t < 25 \<and> terminal_column t < 80 \<and> length (terminal_buffer t) = 2000 \<and>
    (\<exists>t'. terminal_putchar c t = Ok t' \<and> tty_reach t')"
proof -
  have "term_ok t"
    using assms
  proof induction
    case (reach_init vga t t')
    then show ?case by (auto simp: terminal_initialize_eq term_ok_def)
  next
    case (reach_clear t t')
    then show ?case by (auto simp: terminal_clear_eq term_ok_def)
  next
    case (reach_putchar t c t')
    then show ?case by (metis putchar_step res.inject)
  next
    case (reach_write t data n t')
    then show ?case by (metis write_shown shown_ok res.inject)
  qed (simp add: terminal_setcolor_def term_ok_def)
  then show ?thesis
    using assms putchar_step [of t c] reach_putchar by (auto simp: term_ok_def)
qed

definition blank_tty :: tty where
  "blank_tty = \<lparr>terminal_row = 0, terminal_column = 0, terminal_color = 7,
     terminal_buffer = replicate 2000 (vga_entry 32 7)\<rparr>"

lemma blank_tty_init: "length vga = 2000 \<Longrightarrow> terminal_initialize vga t = Ok blank_tty"
  by (simp add: terminal_initialize_eq blank_tty_def)

lemma blank_tty_ok: "term_ok blank_tty"
  by (simp add: blank_tty_def term_ok_def)

lemma blank_tty_reach: "tty_reach blank_tty"
  by (rule reach_init [of "replicate 2000 0" blank_tty]) (simp_all add: blank_tty_init)

lemma terminal_never_overruns_witness:
  "terminal_row blank_tty < 25 \<and> terminal_column blank_tty < 80 \<and> length (terminal_buffer blank_tty) = 2000 \<and>
    (\<exists>t'. terminal_putchar 65 blank_tty = Ok t' \<and> tty_reach t')"
  by (rule terminal_never_overruns [OF blank_tty_reach])

text \<open>
  C35: \<open>terminal_write\<close> implements the screen with one linear cursor: row, column and buffer after
  it are those of the abstract screen after the same characters.
\<close>

theorem terminal_write_refines:
  assumes "term_ok t" and "n \<le> length s"
  shows "\<exists>t'. terminal_write s n t = Ok t' \<and> term_ok t' \<and>
    screen t' = fold (screen_putc (terminal_color t)) (take n s) (screen t)"
  using write_shown [OF assms] by (auto simp: shown_def)

lemma terminal_write_refines_witness:
  "\<exists>t'. terminal_write [72, 105, 10] 3 blank_tty = Ok t' \<and> term_ok t' \<and>
    screen t' = fold (screen_putc (terminal_color blank_tty)) (take 3 [72, 105, 10]) (screen blank_tty)"
  by (rule terminal_write_refines [OF blank_tty_ok]) simp

lemma screen_text:
  assumes "10 \<notin> set s" and "cur + length s < 2000" and "length cells = 2000"
  shows "fold (screen_putc color) s (cur, cells) =
    (cur + length s, take cur cells @ map (\<lambda>c. vga_entry c color) s @ drop (cur + length s) cells)"
  using assms
proof (induction s arbitrary: cur cells)
  case (Cons c s)
  then have "screen_putc color c (cur, cells) = (cur + 1, cells[cur := vga_entry c color])"
    by (auto simp: screen_putc_def)
  moreover have "take (cur + 1) (cells[cur := vga_entry c color]) = take cur cells @ [vga_entry c color]"
    using Cons.prems by (simp add: take_Suc_conv_app_nth)
  ultimately show ?case
    using Cons.IH [of "cur + 1" "cells[cur := vga_entry c color]"] Cons.prems by simp
qed simp

text \<open>
  C36: a line of text that ends before the last cell of the screen appears from the cursor on,
  character by character and each in the current colour, the cursor moves behind it, the colour stays, and every
  other cell keeps what it showed.
\<close>

theorem terminal_writestring_visible:
  assumes "term_ok t" and "terminated s" and "10 \<notin> set (cstr s)"
    and "fst (screen t) + length (cstr s) < 2000"
  shows "\<exists>t'. terminal_writestring s t = Ok t' \<and>
    map vga_char (take (length (cstr s)) (drop (fst (screen t)) (terminal_buffer t'))) = cstr s \<and>
    map vga_attr (take (length (cstr s)) (drop (fst (screen t)) (terminal_buffer t'))) =
      replicate (length (cstr s)) (terminal_color t) \<and>
    fst (screen t') = fst (screen t) + length (cstr s) \<and> terminal_color t' = terminal_color t \<and>
    (\<forall>k < 2000. k < fst (screen t) \<or> fst (screen t) + length (cstr s) \<le> k \<longrightarrow>
       terminal_buffer t' ! k = terminal_buffer t ! k)"
proof -
  let ?n = "length (cstr s)" and ?cur = "fst (screen t)"
  obtain r where r: "s = cstr s @ 0 # r" using terminated_decomp [OF assms(2)] by blast
  then have tk: "take ?n s = cstr s" by (metis append_eq_conv_conj)
  have len: "length (terminal_buffer t) = 2000" using assms(1) by (simp add: term_ok_def)
  obtain t' where t': "terminal_write s ?n t = Ok t'" "shown (take ?n s) t t'"
    using write_shown [OF assms(1), of ?n s] length_cstr_less [OF assms(2)] by auto
  have scr: "screen t = (?cur, terminal_buffer t)" by (simp add: screen_def)
  have sc: "screen t' = (?cur + ?n, take ?cur (terminal_buffer t) @ map (\<lambda>c. vga_entry c (terminal_color t)) (cstr s)
      @ drop (?cur + ?n) (terminal_buffer t))"
    using t'(2) screen_text [OF assms(3,4) len] scr by (metis shown_def tk)
  then have b: "terminal_buffer t' = take ?cur (terminal_buffer t) @ map (\<lambda>c. vga_entry c (terminal_color t)) (cstr s)
      @ drop (?cur + ?n) (terminal_buffer t)"
    by (simp add: screen_def)
  have "terminal_writestring s t = Ok t'"
    using t'(1) assms(2) by (simp add: terminal_writestring_def arr_strlen_eq)
  moreover have cells: "take ?n (drop ?cur (terminal_buffer t')) = map (\<lambda>c. vga_entry c (terminal_color t)) (cstr s)"
    using assms(4) len by (simp add: b)
  moreover have "terminal_buffer t' ! k = terminal_buffer t ! k" if "k < 2000" "k < ?cur \<or> ?cur + ?n \<le> k" for k
    using that assms(4) len by (auto simp: b nth_append)
  moreover have "fst (screen t') = ?cur + ?n" by (simp add: sc)
  moreover have "terminal_color t' = terminal_color t" using t'(2) by (simp add: shown_def)
  ultimately show ?thesis
    by (intro exI [of _ t']) (simp add: comp_def map_replicate_const)
qed

lemma terminal_writestring_visible_witness:
  "\<exists>t'. terminal_writestring [79, 75, 0] blank_tty = Ok t' \<and>
    map vga_char (take (length (cstr [79, 75, 0])) (drop (fst (screen blank_tty)) (terminal_buffer t'))) = cstr [79, 75, 0] \<and>
    map vga_attr (take (length (cstr [79, 75, 0])) (drop (fst (screen blank_tty)) (terminal_buffer t'))) =
      replicate (length (cstr [79, 75, 0])) (terminal_color blank_tty) \<and>
    fst (screen t') = fst (screen blank_tty) + length (cstr [79, 75, 0]) \<and> terminal_color t' = terminal_color blank_tty \<and>
    (\<forall>k < 2000. k < fst (screen blank_tty) \<or> fst (screen blank_tty) + length (cstr [79, 75, 0]) \<le> k \<longrightarrow>
       terminal_buffer t' ! k = terminal_buffer blank_tty ! k)"
  by (rule terminal_writestring_visible [OF blank_tty_ok]) (simp_all add: blank_tty_def screen_def)

end
