(* ===== verification/IntStr.thy ===== *)
theory IntStr
  imports CArray
begin

text \<open>
  \<open>__int_str\<close> of libc/stdio/printf.c: an integer as text in a buffer of the caller, with sign,
  base and padding, on libk's \<open>strcpy\<close>. The text is compared with the digits of the number: it
  is right exactly when every digit is in the part of the digit table that the five-byte \<open>strcpy\<close>
  copies.
\<close>

section \<open>Characters\<close>

text \<open>A C character constant and a C string literal, as bytes.\<close>

abbreviation ch :: "char \<Rightarrow> byte" where "ch c \<equiv> of_char c"

definition cbytes :: "string \<Rightarrow> byte list" where
  "cbytes s = map of_char s @ [0]"

text \<open>\<open>char\<close> is signed on the i386 target.\<close>

definition isdigit :: "byte \<Rightarrow> int" where
  "isdigit c = (if sint (ch CHR ''0'') \<le> sint c \<and> sint c \<le> sint (ch CHR ''9'') then 1 else 0)"

section \<open>The converter\<close>

definition digit_table :: "int \<Rightarrow> (byte list \<times> int) res" where
  "digit_table base =
     (let digit = replicate 32 0
      in bindr (arr_strcpy digit (cbytes ''0123456789'')) (\<lambda>digit.
           if base = 16 then bindr (arr_strcat digit (cbytes ''ABCDEF'')) (\<lambda>digit. Ok (digit, base))
           else if base = 17 then bindr (arr_strcat digit (cbytes ''abcdef'')) (\<lambda>digit. Ok (digit, 16))
           else Ok (digit, base)))"

text \<open>The sign character, the index \<open>p\<close> after it and the absolute value.\<close>

definition put_sign :: "int \<Rightarrow> byte list \<Rightarrow> bool \<Rightarrow> bool \<Rightarrow> (byte list \<times> nat \<times> int) res" where
  "put_sign i b plusSignIfNeeded spaceSignIfNeeded =
     (if i < 0 then bindr (arr_set b 0 (ch CHR ''-'')) (\<lambda>b. bindr (int32 (i * - 1)) (\<lambda>i. Ok (b, 1, i)))
      else if plusSignIfNeeded then bindr (arr_set b 0 (ch CHR ''+'')) (\<lambda>b. Ok (b, 1, i))
      else if \<not> plusSignIfNeeded \<and> spaceSignIfNeeded then bindr (arr_set b 0 (ch CHR '' '')) (\<lambda>b. Ok (b, 1, i))
      else Ok (b, 0, i))"

text \<open>\<open>p\<close> may point at most one past the end of the buffer.\<close>

function count_digits :: "nat \<Rightarrow> int \<Rightarrow> int \<Rightarrow> nat \<Rightarrow> nat res" where
  "count_digits n base shifter p =
     (if n < Suc p then Err Undefined
      else let p = Suc p; shifter = c_div shifter base
        in if shifter \<noteq> 0 then count_digits n base shifter p else Ok p)"
  by pat_completeness auto
termination by (relation "measure (\<lambda>(n, base, shifter, p). Suc n - p)") auto

fun fill_digits :: "byte list \<Rightarrow> int \<Rightarrow> int \<Rightarrow> nat \<Rightarrow> byte list \<Rightarrow> byte list res" where
  "fill_digits digit base i 0 b = Err Undefined"
| "fill_digits digit base i (Suc p) b =
     bindr (arr_get digit (c_mod i base)) (\<lambda>c. bindr (arr_set b (int p) c) (\<lambda>b.
     let i = c_div i base
     in if i \<noteq> 0 then fill_digits digit base i p b else Ok b))"

fun pad_loop :: "nat \<Rightarrow> bool \<Rightarrow> byte list \<Rightarrow> byte list res" where
  "pad_loop 0 zeroPad b = Ok b"
| "pad_loop (Suc padding) zeroPad b =
     bindr (arr_strlen b) (\<lambda>n.
     bindr (arr_set b (int n) (if zeroPad then ch CHR ''0'' else ch CHR '' '')) (\<lambda>b.
     pad_loop padding zeroPad b))"

definition justify_text :: "byte list \<Rightarrow> int \<Rightarrow> bool \<Rightarrow> bool \<Rightarrow> byte list res" where
  "justify_text b paddingNo justify zeroPad =
     bindr (arr_strlen b) (\<lambda>n. bindr (int32 (paddingNo - int n)) (\<lambda>padding.
     let padding = (if padding < 0 then 0 else padding)
     in if justify then pad_loop (nat padding) zeroPad b
        else bindr (pad_loop (nat padding) zeroPad (replicate 256 0)) (\<lambda>a.
          bindr (arr_strcat a b) (\<lambda>a. arr_strcpy b a))))"

definition int_str :: "int \<Rightarrow> byte list \<Rightarrow> int \<Rightarrow> bool \<Rightarrow> bool \<Rightarrow> int \<Rightarrow> bool \<Rightarrow> bool \<Rightarrow> byte list res" where
  "int_str i b base plusSignIfNeeded spaceSignIfNeeded paddingNo justify zeroPad =
     bindr (digit_table base) (\<lambda>(digit, base).
     bindr (put_sign i b plusSignIfNeeded spaceSignIfNeeded) (\<lambda>(b, p, i).
     bindr (count_digits (length b) base i p) (\<lambda>p.
     bindr (arr_set b (int p) 0) (\<lambda>b.
     bindr (fill_digits digit base i p b) (\<lambda>b.
     justify_text b paddingNo justify zeroPad)))))"

section \<open>Digits of a number\<close>

fun digits :: "nat \<Rightarrow> nat \<Rightarrow> nat list" where
  "digits base n = (if base < 2 \<or> n < base then [n] else digits base (n div base) @ [n mod base])"

declare digits.simps [simp del]

lemma digits_not_Nil [simp]: "digits base n \<noteq> []"
  by (subst digits.simps) simp

lemma digits_step: "2 \<le> base \<Longrightarrow> base \<le> n \<Longrightarrow> digits base n = digits base (n div base) @ [n mod base]"
  by (subst digits.simps) simp

lemma digits_small: "n < base \<Longrightarrow> digits base n = [n]"
  by (subst digits.simps) simp

lemma digits_less: "2 \<le> base \<Longrightarrow> d \<in> set (digits base n) \<Longrightarrow> d < base"
proof (induction base n rule: digits.induct)
  case (1 base n)
  then show ?case
    by (subst (asm) (2) digits.simps) (auto split: if_splits)
qed

lemma digits_length: "2 \<le> base \<Longrightarrow> n < base ^ k \<Longrightarrow> 0 < k \<Longrightarrow> length (digits base n) \<le> k"
proof (induction k arbitrary: n)
  case (Suc k)
  show ?case
  proof (cases "n < base")
    case False
    then have "0 < k" using Suc.prems(2) by (cases k) auto
    have "n div base < base ^ k"
      using Suc.prems by (intro less_mult_imp_div_less) (simp add: mult.commute)
    with Suc.IH \<open>0 < k\<close> Suc.prems(1) have "length (digits base (n div base)) \<le> k" by blast
    then show ?thesis using False Suc.prems(1) by (simp add: digits_step)
  qed (simp add: digits_small)
qed simp

text \<open>The value that a digit list stands for, most significant digit first.\<close>

definition from_digits :: "nat \<Rightarrow> nat list \<Rightarrow> nat" where
  "from_digits base = foldl (\<lambda>n d. n * base + d) 0"

lemma from_digits_digits: "from_digits base (digits base n) = n"
proof (induction base n rule: digits.induct)
  case (1 base n)
  then show ?case
    by (subst digits.simps) (auto simp: from_digits_def)
qed

section \<open>The two digit loops\<close>

lemma c_div_nat: "0 < base \<Longrightarrow> c_div (int n) (int base) = int (n div base)"
  by (simp add: zdiv_int)

lemma c_mod_nat: "0 < base \<Longrightarrow> c_mod (int n) (int base) = int (n mod base)"
  by (simp add: zmod_int)

lemma count_digits_eq:
  assumes "2 \<le> base" and "p + length (digits base n) \<le> m"
  shows "count_digits m (int base) (int n) p = Ok (p + length (digits base n))"
  using assms(2)
proof (induction n arbitrary: p rule: less_induct)
  case (less n)
  show ?case
  proof (cases "n < base")
    case True
    then show ?thesis
      using less.prems by (subst count_digits.simps) (simp add: digits_small Let_def)
  next
    case False
    then have "n div base < n" "n div base \<noteq> 0"
      using assms(1) by (auto simp: div_eq_0_iff)
    moreover have st: "digits base n = digits base (n div base) @ [n mod base]"
      using False assms(1) by (simp add: digits_step)
    ultimately show ?thesis
      using less.IH [of "n div base" "Suc p"] less.prems assms(1)
      by (subst count_digits.simps) (simp add: c_div_nat Let_def del: c_div_nonneg)
  qed
qed

lemma fill_digits_eq:
  assumes "2 \<le> base" and "base \<le> length tbl" and "length (digits base n) \<le> p" and "p \<le> length b"
  shows "fill_digits tbl (int base) (int n) p b =
    Ok (take (p - length (digits base n)) b @ map ((!) tbl) (digits base n) @ drop p b)"
  using assms(3,4)
proof (induction n arbitrary: p b rule: less_induct)
  case (less n)
  obtain q where q: "p = Suc q" using less.prems(1) by (cases p) auto
  have m: "n mod base < length tbl" 
    by (rule less_le_trans [OF mod_less_divisor assms(2)]) (use assms(1) in simp)
  show ?case
  proof (cases "n < base")
    case True
    then show ?thesis
      using less.prems m by (simp add: q digits_small Let_def upd_conv_take_nth_drop)
  next
    case False
    then have a: "n div base < n" "n div base \<noteq> 0"
      using assms(1) by (auto simp: div_eq_0_iff)
    have st: "digits base n = digits base (n div base) @ [n mod base]"
      using False assms(1) by (simp add: digits_step)
    have "drop q (b[q := tbl ! (n mod base)]) = tbl ! (n mod base) # drop (Suc q) b"
      using less.prems by (simp add: q flip: Cons_nth_drop_Suc)
    then show ?thesis
      using less.IH [OF a(1), of q "b[q := tbl ! (n mod base)]"] less.prems a m assms(1)
      by (simp add: q st c_div_nat c_mod_nat Let_def del: c_div_nonneg c_mod_nonneg)
  qed
qed

section \<open>The text in the buffer\<close>

definition radix :: "int \<Rightarrow> nat" where
  "radix base = (if base = 17 then 16 else nat base)"

text \<open>The table that the routine builds, and the digits it means.\<close>

definition table_text :: "int \<Rightarrow> byte list" where
  "table_text base = map of_char (if base = 16 then ''01234ABCDEF'' else if base = 17 then ''01234abcdef'' else ''01234'')"

definition digit_char :: "int \<Rightarrow> nat \<Rightarrow> byte" where
  "digit_char base d = of_char ((if base = 17 then ''0123456789abcdef'' else ''0123456789ABCDEF'') ! d)"

definition sign_text :: "int \<Rightarrow> bool \<Rightarrow> bool \<Rightarrow> byte list" where
  "sign_text i psign space = map of_char (if i < 0 then ''-'' else if psign then ''+'' else if space then '' '' else [])"

text \<open>The correct text, and the bytes that the routine leaves before it adds the padding.\<close>

definition number_text :: "int \<Rightarrow> int \<Rightarrow> bool \<Rightarrow> bool \<Rightarrow> byte list" where
  "number_text i base psign space =
     sign_text i psign space @ map (digit_char base) (digits (radix base) (nat \<bar>i\<bar>))"

definition table :: "int \<Rightarrow> byte list" where
  "table base = table_text base @ replicate (32 - length (table_text base)) 0"

definition raw_text :: "int \<Rightarrow> int \<Rightarrow> bool \<Rightarrow> bool \<Rightarrow> byte list" where
  "raw_text i base psign space =
     sign_text i psign space @ map ((!) (table base)) (digits (radix base) (nat \<bar>i\<bar>))"

definition a_base :: "int \<Rightarrow> bool" where
  "a_base base \<longleftrightarrow> base \<in> {8, 10, 16, 17}"

lemma cstr_zeros: "cstr (s @ replicate n 0) = cstr s"
proof (induction s)
  case Nil
  then show ?case by (cases n) auto
qed auto

lemma cstr_replicate_0 [simp]: "cstr (replicate n 0) = []"
  using cstr_zeros [of "[]" n] by simp

lemma terminated_replicate_0 [simp]: "terminated (replicate n 0) \<longleftrightarrow> 0 < n"
  by (auto simp: terminated_def)

lemma update_replicate [simp]: "(replicate n x)[k := x] = replicate n x"
proof (cases "k < n")
  case True
  then show ?thesis by (metis list_update_id nth_replicate)
qed (simp add: list_update_beyond)

lemma digit_table_eq: "digit_table base = Ok (table base, if base = 17 then 16 else base)"
  by (simp add: digit_table_def arr_strcpy_def arr_strcat_def cbytes_def arr_strlen_eq table_def
      table_text_def sizeof_ptr_def Let_def flip: replicate_Suc)

lemma length_table [simp]: "length (table base) = 32"
  by (simp add: table_def table_text_def)

lemma radix_bounds: "a_base base \<Longrightarrow> 8 \<le> radix base \<and> radix base \<le> 16"
  by (auto simp: a_base_def radix_def)

lemma radix_int: "a_base base \<Longrightarrow> (if base = 17 then 16 else base) = int (radix base)"
  by (auto simp: a_base_def radix_def)

lemma put_sign_eq:
  assumes "is_int32 i" and "i \<noteq> - (2 ^ 31)" and "0 < length b"
  shows "put_sign i b psign space =
    Ok (sign_text i psign space @ drop (length (sign_text i psign space)) b, length (sign_text i psign space), \<bar>i\<bar>)"
  using assms by (cases b) (auto simp: put_sign_def sign_text_def arr_set_def is_int32_def)

lemma digits_fit:
  assumes "is_int32 i" and "a_base base"
  shows "length (digits (radix base) (nat \<bar>i\<bar>)) \<le> 11"
proof (rule digits_length)
  have "nat \<bar>i\<bar> < 8 ^ 11" using assms(1) by (auto simp: is_int32_def)
  also have "(8 :: nat) ^ 11 \<le> radix base ^ 11" using radix_bounds [OF assms(2)] by (intro power_mono) auto
  finally show "nat \<bar>i\<bar> < radix base ^ 11" .
qed (use radix_bounds [OF assms(2)] in auto)

lemma length_sign_text: "length (sign_text i psign space) \<le> 1"
  by (simp add: sign_text_def)

lemma length_raw_text: "is_int32 i \<Longrightarrow> a_base base \<Longrightarrow> length (raw_text i base psign space) \<le> 12"
  using digits_fit [of i base] length_sign_text [of i psign space] by (simp add: raw_text_def)

lemma length_number_text: "length (number_text i base psign space) = length (raw_text i base psign space)"
  by (simp add: number_text_def raw_text_def)

lemma int_str_raw:
  assumes "is_int32 i" and "i \<noteq> - (2 ^ 31)" and "a_base base"
  shows "int_str i (replicate 256 0) base psign space pad justify zp =
    justify_text (raw_text i base psign space @ replicate (256 - length (raw_text i base psign space)) 0) pad justify zp"
proof -
  let ?s = "sign_text i psign space" and ?ds = "digits (radix base) (nat \<bar>i\<bar>)"
  let ?b = "?s @ drop (length ?s) (replicate 256 0)"
  have len: "length ?s + length ?ds \<le> 12" "length ?s \<le> 1" "length ?ds \<le> 11"
    using digits_fit [OF assms(1,3)] length_sign_text [of i psign space] by auto
  have abs: "\<bar>i\<bar> = int (nat \<bar>i\<bar>)" by simp
  have lb: "length ?b = 256" using len by simp
  have rb: "2 \<le> radix base" "radix base \<le> 32" using radix_bounds [OF assms(3)] by auto
  have cnt: "count_digits (length ?b) (if base = 17 then 16 else base) \<bar>i\<bar> (length ?s) = Ok (length ?s + length ?ds)"
    unfolding radix_int [OF assms(3)] using count_digits_eq [OF rb(1), of "length ?s" "nat \<bar>i\<bar>" "length ?b"] len lb
    by simp
  have trm: "arr_set ?b (int (length ?s + length ?ds)) 0 = Ok ?b"
    using len lb by (simp add: arr_set_def nat_add_distrib list_update_append)
  have fill: "fill_digits (table base) (if base = 17 then 16 else base) \<bar>i\<bar> (length ?s + length ?ds) ?b
      = Ok (raw_text i base psign space @ replicate (256 - length (raw_text i base psign space)) 0)"
    unfolding radix_int [OF assms(3)]
    using fill_digits_eq [OF rb(1), of "table base" "nat \<bar>i\<bar>" "length ?s + length ?ds" ?b] rb(2) len
    by (simp add: raw_text_def)
  show ?thesis
    by (simp only: int_str_def digit_table_eq bindr.simps prod.case put_sign_eq [OF assms(1,2)] length_replicate
        zero_less_numeral cnt trm fill)
qed

section \<open>Padding\<close>

lemma pad_loop_eq:
  assumes "0 \<notin> set s" and "k \<le> m"
  shows "pad_loop k zp (s @ replicate m 0) =
    Ok (s @ replicate k (if zp then ch CHR ''0'' else ch CHR '' '') @ replicate (m - k) 0)"
  using assms
proof (induction k arbitrary: s m)
  case (Suc k)
  then obtain m' where m: "m = Suc m'" by (cases m) auto
  let ?c = "if zp then ch CHR ''0'' else ch CHR '' ''"
  have "pad_loop k zp ((s @ [?c]) @ replicate m' 0) = Ok ((s @ [?c]) @ replicate k ?c @ replicate (m' - k) 0)"
    using Suc.prems by (intro Suc.IH) (auto simp: m)
  then show ?case
    using Suc.prems(1) by (auto simp: m arr_strlen_eq arr_set_def list_update_append)
qed simp

lemma take_cstr: "terminated s \<Longrightarrow> take (Suc (length (cstr s))) s = cstr s @ [0]"
  by (induction s) auto

text \<open>Right-justified: the padded text is complete in \<open>a\<close>, and only five bytes come back.\<close>

lemma arr_strcat_zeros:
  assumes "0 \<notin> set s" and "terminated src" and "length (cstr src) < m"
  shows "arr_strcat (s @ replicate m 0) src = Ok (s @ cstr src @ replicate (m - length (cstr src)) 0)"
proof -
  note tk = take_cstr [OF assms(2)]
  obtain m' where m: "m = Suc m'" using assms(3) by (cases m) auto
  have zeros: "0 # replicate (m' - length (cstr src)) (0 :: byte) = replicate (Suc m' - length (cstr src)) 0"
    using assms(3) m by (simp add: Suc_diff_le)
  have len: "arr_strlen (s @ replicate m 0) = Ok (length s)" "arr_strlen src = Ok (length (cstr src))"
    using assms(1,2) by (simp_all add: arr_strlen_eq m)
  show ?thesis
    using assms(3) unfolding arr_strcat_def len bindr.simps tk by (simp add: m zeros)
qed

lemma take5: "5 \<le> length xs + n \<Longrightarrow> take 5 (xs @ replicate n 0) = take 5 (xs @ replicate 5 0)"
  by (simp add: min_def) arith

lemma justify_right:
  assumes "length raw \<le> 12" and "pad \<le> 255" and "- (2 ^ 31) + 12 \<le> pad"
  shows "justify_text (raw @ replicate (256 - length raw) 0) pad False zp =
    Ok (let a = replicate (nat (pad - int (length (cstr raw)))) (if zp then ch CHR ''0'' else ch CHR '' '') @ cstr raw
        in take 5 (a @ replicate 5 0) @ drop 5 (raw @ replicate (256 - length raw) 0))"
proof -
  let ?b = "raw @ replicate (256 - length raw) 0" and ?k = "nat (pad - int (length (cstr raw)))"
  let ?c = "if zp then ch CHR ''0'' else ch CHR '' ''"
  have tb: "terminated ?b" using assms(1) by (simp add: terminated_def)
  have cb: "cstr ?b = cstr raw" by (rule cstr_zeros)
  have lc: "length (cstr raw) \<le> 12" using assms(1) length_takeWhile_le [of _ raw] by (metis cstr_def order_trans)
  have k: "?k + length (cstr raw) < 256" using assms(1,2) lc by linarith
  have pl: "pad_loop ?k zp (replicate 256 0) = Ok (replicate ?k ?c @ replicate (256 - ?k) 0)"
    using pad_loop_eq [of "[]" ?k 256 zp] k by simp
  let ?a = "replicate ?k ?c @ cstr raw @ replicate (256 - ?k - length (cstr raw)) 0"
  have cat: "arr_strcat (replicate ?k ?c @ replicate (256 - ?k) 0) ?b = Ok ?a"
    using arr_strcat_zeros [of "replicate ?k ?c" ?b "256 - ?k"] tb k by (simp add: cb)
  have "take 5 ?a = take 5 ((replicate ?k ?c @ cstr raw) @ replicate 5 0)"
    using take5 [of "replicate ?k ?c @ cstr raw" "256 - ?k - length (cstr raw)"] k by (simp only: append_assoc) simp
  moreover have "5 \<le> length ?a" "5 \<le> length ?b" using k assms(1) by auto
  ultimately have cpy: "arr_strcpy ?b ?a = Ok (take 5 ((replicate ?k ?c @ cstr raw) @ replicate 5 0) @ drop 5 ?b)"
    by (simp add: arr_strcpy_def sizeof_ptr_def)
  have i32: "is_int32 (pad - int (length (cstr raw)))"
    using assms(2,3) lc by (auto simp: is_int32_def)
  have nat: "nat (if pad - int (length (cstr raw)) < 0 then 0 else pad - int (length (cstr raw))) = ?k" by simp
  show ?thesis
    unfolding justify_text_def arr_strlen_eq cb if_P [OF tb] bindr.simps int32_ok [OF i32] Let_def nat pl cat
    by (simp only: if_False bindr.simps cat cpy)
qed

section \<open>What is printed\<close>

text \<open>The table and the digits it stands for agree on the copied part only.\<close>

lemma table_digits:
  "\<forall>base \<in> set [8, 10, 16, 17]. \<forall>d \<in> set [0..<radix base].
     (table base ! d = digit_char base d \<longleftrightarrow> d < 5) \<and> (d < 5 \<longrightarrow> table base ! d \<noteq> 0) \<and> digit_char base d \<noteq> 0"
  by code_simp

lemma table_digit:
  assumes "a_base base" and "d < radix base"
  shows "table base ! d = digit_char base d \<longleftrightarrow> d < 5" and "d < 5 \<Longrightarrow> table base ! d \<noteq> 0"
    and "digit_char base d \<noteq> 0"
proof -
  have "base \<in> set [8, 10, 16, 17]" using assms(1) by (simp add: a_base_def)
  moreover have "d \<in> set [0..<radix base]" using assms(2) by simp
  ultimately show "table base ! d = digit_char base d \<longleftrightarrow> d < 5" "d < 5 \<Longrightarrow> table base ! d \<noteq> 0"
    "digit_char base d \<noteq> 0"
    using table_digits by blast+
qed

lemma digits_radix: "a_base base \<Longrightarrow> d \<in> set (digits (radix base) n) \<Longrightarrow> d < radix base"
  using digits_less [of "radix base" d n] radix_bounds [of base] by simp

lemma zero_notin_sign [simp]: "0 \<notin> set (sign_text i psign space)"
  by (auto simp: sign_text_def)

lemma zero_notin_number: "a_base base \<Longrightarrow> 0 \<notin> set (number_text i base psign space)"
  using table_digit(3) digits_radix by (fastforce simp: number_text_def)

lemma raw_number:
  assumes "a_base base"
  shows "raw_text i base psign space = number_text i base psign space \<longleftrightarrow>
    (\<forall>d \<in> set (digits (radix base) (nat \<bar>i\<bar>)). d < 5)"
  using table_digit(1) [OF assms digits_radix [OF assms]] by (simp add: raw_text_def number_text_def)

lemma cstr_id: "0 \<notin> set s \<Longrightarrow> cstr s = s"
  by (induction s) auto

lemma cstr_full: "length (cstr s) = length s \<Longrightarrow> cstr s = s"
  by (metis cstr_def takeWhile_eq_take take_all order_refl)

lemma cstr_raw_number:
  assumes "a_base base"
  shows "cstr (raw_text i base psign space) = number_text i base psign space \<longleftrightarrow>
    (\<forall>d \<in> set (digits (radix base) (nat \<bar>i\<bar>)). d < 5)"
proof
  assume "cstr (raw_text i base psign space) = number_text i base psign space"
  then have "raw_text i base psign space = number_text i base psign space"
    using cstr_full length_number_text by metis
  then show "\<forall>d \<in> set (digits (radix base) (nat \<bar>i\<bar>)). d < 5"
    using raw_number [OF assms] by blast
next
  assume "\<forall>d \<in> set (digits (radix base) (nat \<bar>i\<bar>)). d < 5"
  then have "raw_text i base psign space = number_text i base psign space"
    using raw_number [OF assms] by blast
  then show "cstr (raw_text i base psign space) = number_text i base psign space"
    using zero_notin_number [OF assms] by (simp add: cstr_id)
qed

lemma cstr_five:
  assumes "0 \<notin> set a"
  shows "cstr (take 5 (a @ replicate 5 0) @ r) = (if length a < 5 then a else take 5 a @ cstr r)"
proof (cases "length a < 5")
  case True
  then have "take 5 (a @ replicate 5 0) @ r = a @ 0 # replicate (4 - length a) 0 @ r"
    by (simp flip: append_Cons replicate_Suc)
  then show ?thesis using True assms by simp
next
  case False
  then have "cstr ((take 5 a) @ r) = take 5 a @ cstr r"
    using assms by (auto simp: cstr_def takeWhile_append dest: in_set_takeD)
  then show ?thesis using False by simp
qed

lemma cstr_split: "k \<le> length (cstr s) \<Longrightarrow> cstr s = take k (cstr s) @ cstr (drop k s)"
proof (induction s arbitrary: k)
  case (Cons c s)
  then show ?case by (cases k) (auto split: if_splits)
qed simp

text \<open>The five bytes that come back when there is nothing to pad are those that were there.\<close>

lemma unpadded_back:
  assumes "length raw \<le> 12"
  shows "cstr (take 5 (cstr raw @ replicate 5 0) @ drop 5 (raw @ replicate (256 - length raw) 0)) = cstr raw"
proof (cases "length (cstr raw) < 5")
  case False
  then have five: "5 \<le> length (cstr raw)" by simp
  then have "5 \<le> length raw" using length_takeWhile_le [of "\<lambda>c. c \<noteq> 0" raw] by (simp add: cstr_def)
  then have "drop 5 (raw @ replicate (256 - length raw) 0) = drop 5 raw @ replicate (256 - length raw) 0"
    by simp
  then show ?thesis
    using five cstr_split [OF five] by (simp only: cstr_five [OF zero_notin_cstr] cstr_zeros) simp
qed (simp only: cstr_five [OF zero_notin_cstr] if_True)

lemma int_str_text:
  assumes "is_int32 i" and "i \<noteq> - (2 ^ 31)" and "a_base base" and "- (2 ^ 31) + 12 \<le> pad" and "pad \<le> 0"
  shows "\<exists>b. int_str i (replicate 256 0) base psign space pad justify zp = Ok b \<and> length b = 256 \<and> terminated b \<and>
    cstr b = cstr (raw_text i base psign space)"
proof -
  let ?raw = "raw_text i base psign space"
  let ?b = "?raw @ replicate (256 - length ?raw) 0"
  note len = length_raw_text [OF assms(1,3), of psign space]
  have tb: "terminated ?b" using len by (simp add: terminated_def)
  show ?thesis
  proof (cases justify)
    case True
    have lc: "length (cstr ?raw) \<le> 12" using len length_takeWhile_le [of _ ?raw] by (metis cstr_def order_trans)
    then have "is_int32 (pad - int (length (cstr ?raw)))" using assms(4,5) by (auto simp: is_int32_def)
    then have "justify_text ?b pad True zp = Ok ?b"
      using tb assms(5) by (simp add: justify_text_def arr_strlen_eq cstr_zeros Let_def)
    then show ?thesis
      using int_str_raw [OF assms(1,2,3)] True tb len by (simp add: cstr_zeros)
  next
    case False
    let ?r = "take 5 (cstr ?raw @ replicate 5 0) @ drop 5 ?b"
    have "justify_text ?b pad False zp = Ok ?r"
      using justify_right [OF len, of pad zp] assms(4,5) by (simp add: Let_def)
    moreover have "terminated (drop 5 ?b)" using len by (simp add: terminated_def)
    then have "terminated ?r" by (simp add: terminated_def)
    moreover have "length ?r = 256" using len by simp
    ultimately show ?thesis
      using int_str_raw [OF assms(1,2,3)] False unpadded_back [OF len] by metis
  qed
qed

section \<open>Properties\<close>

text \<open>
  C33: without padding, and for every \<open>int\<close> but the least one, \<open>__int_str\<close> leaves the sign and the digits of the
  number in the buffer if every digit is below 5, and a wrong or truncated text otherwise: only the first five bytes of
  the digit table are ever copied. So 4096, with its 9 and its 6, comes out wrong.
\<close>

theorem int_str_correct_iff:
  assumes "is_int32 i" and "i \<noteq> - (2 ^ 31)" and "a_base base"
  shows "\<exists>b. int_str i (replicate 256 0) base psign space 0 justify zp = Ok b \<and>
    (cstr b = number_text i base psign space \<longleftrightarrow> (\<forall>d \<in> set (digits (radix base) (nat \<bar>i\<bar>)). d < 5))"
  using int_str_text [OF assms, of 0 psign space justify zp] cstr_raw_number [OF assms(3)] by fastforce

lemma int_str_correct_iff_witness:
  "\<exists>b. int_str 4096 (replicate 256 0) 10 False False 0 False False = Ok b \<and>
    (cstr b = number_text 4096 10 False False \<longleftrightarrow> (\<forall>d \<in> set (digits (radix 10) (nat \<bar>4096\<bar>)). d < 5))"
  by (rule int_str_correct_iff) (simp_all add: is_int32_def a_base_def)

text \<open>
  A right-justified number in a field of \<open>w\<close> characters is printed with its padding only up to
  five characters: the result has the intended text exactly when the field is not longer than
  five characters or than the number itself.
\<close>

theorem int_str_field:
  assumes "is_int32 i" and "i \<noteq> - (2 ^ 31)" and "a_base base" and "w \<le> 255"
    and "\<forall>d \<in> set (digits (radix base) (nat \<bar>i\<bar>)). d < 5"
  shows "\<exists>b. int_str i (replicate 256 0) base psign space (int w) False zp = Ok b \<and>
    (cstr b = replicate (w - length (number_text i base psign space)) (if zp then ch CHR ''0'' else ch CHR '' '')
        @ number_text i base psign space
     \<longleftrightarrow> w \<le> 5 \<or> w \<le> length (number_text i base psign space))"
proof -
  let ?num = "number_text i base psign space" and ?c = "if zp then ch CHR ''0'' else ch CHR '' ''"
  let ?a = "replicate (w - length ?num) ?c @ ?num" and ?zeros = "replicate (256 - length ?num) (0 :: byte)"
  have raw: "raw_text i base psign space = ?num" using raw_number [OF assms(3)] assms(5) by blast
  then have len: "length ?num \<le> 12" using length_raw_text [OF assms(1,3), of psign space] by simp
  have nz: "0 \<notin> set ?num" by (rule zero_notin_number [OF assms(3)])
  then have nza: "0 \<notin> set ?a" by auto
  have nat: "nat (int w - int (length ?num)) = w - length ?num" by linarith
  have "int_str i (replicate 256 0) base psign space (int w) False zp
      = Ok (take 5 (?a @ replicate 5 0) @ drop 5 (?num @ ?zeros))"
    using int_str_raw [OF assms(1,2,3), of psign space "int w" False zp] justify_right [OF len, of "int w" zp] assms(4)
    by (simp only: raw cstr_id [OF nz] nat Let_def) simp
  moreover have "cstr (take 5 (?a @ replicate 5 0) @ drop 5 (?num @ ?zeros)) = ?a \<longleftrightarrow> w \<le> 5 \<or> w \<le> length ?num"
  proof -
    have d: "cstr (drop 5 (?num @ ?zeros)) = drop 5 ?num"
    proof -
      have "0 \<notin> set (drop 5 ?num)" using nz by (auto dest: in_set_dropD)
      then show ?thesis by (simp add: cstr_zeros cstr_id)
    qed
    have "cstr (take 5 (?a @ replicate 5 0) @ drop 5 (?num @ ?zeros)) = (if length ?a < 5 then ?a else take 5 ?a @ drop 5 ?num)"
      by (simp only: cstr_five [OF nza] d)
    moreover have "take 5 ?a @ drop 5 ?num = ?a \<longleftrightarrow> w \<le> 5 \<or> w \<le> length ?num" if "5 \<le> length ?a"
    proof
      assume "take 5 ?a @ drop 5 ?num = ?a"
      then have "length (take 5 ?a @ drop 5 ?num) = length ?a" by simp
      then show "w \<le> 5 \<or> w \<le> length ?num" using that by auto
    next
      assume "w \<le> 5 \<or> w \<le> length ?num"
      then show "take 5 ?a @ drop 5 ?num = ?a" using that by (cases "w \<le> length ?num") auto
    qed
    ultimately show ?thesis by (cases "length ?a < 5") auto
  qed
  ultimately show ?thesis by blast
qed

lemma int_str_field_witness:
  "\<exists>b. int_str 12 (replicate 256 0) 10 False False (int 6) False False = Ok b \<and>
    (cstr b = replicate (6 - length (number_text 12 10 False False)) (if False then ch CHR ''0'' else ch CHR '' '')
        @ number_text 12 10 False False
     \<longleftrightarrow> 6 \<le> (5 :: nat) \<or> 6 \<le> length (number_text 12 10 False False))"
  by (rule int_str_field)
    (simp_all add: is_int32_def a_base_def radix_def digits_step digits_small)

text \<open>
  The least \<open>int\<close> cannot be converted: its negation overflows.
\<close>

theorem int_str_least: "int_str (- (2 ^ 31)) (replicate 256 0) base psign space pad justify zp = Err Undefined"
  by (simp add: int_str_def digit_table_eq put_sign_def arr_set_def int32_def is_int32_def)

end
