(* ===== verification/Printf.thy ===== *)
theory Printf
  imports Tty IntStr
begin

text \<open>
  \<open>printf\<close> of libc/stdio/printf.c with \<open>puts\<close>, \<open>abort\<close> and \<open>assert\<close>, on the terminal of the kernel.
  A format is a list of bytes with its NUL, and the position in it is what is left of it: the
  head is \<open>format[i]\<close>, the tail is what \<open>++i\<close> leaves, and reading past the end is undefined.
  The output of formats made of literal text and of the conversions s, d and c is that of a
  reference rendering.
\<close>

section \<open>The variable arguments\<close>

text \<open>
  The slots of the argument area on i386: integers of 32 bits (int, long, size_t and the
  others), 64-bit integers, doubles of an abstract type, and pointers to a string, given by its
  address and the object there. \<open>va_arg\<close> of another kind, or with no slot left, is undefined.
\<close>

datatype 'd va = Word32 u32 | Word64 "64 word" | Double 'd | Str u32 "byte list"

text \<open>
  The floating point unit, a parameter: the comparison and the arithmetic that the code does on
  doubles, and the truncation towards zero.
\<close>

record 'd fpu =
  f_ge10 :: "'d \<Rightarrow> bool"
  f_div10 :: "'d \<Rightarrow> 'd"
  f_mul10 :: "'d \<Rightarrow> 'd"
  f_trunc :: "'d \<Rightarrow> int"
  f_sub_int :: "'d \<Rightarrow> int \<Rightarrow> 'd"
  f_add_half :: "'d \<Rightarrow> 'd"

text \<open>
  The state of a call: the terminal, the counter \<open>chars\<close>, the remaining arguments, the buffer
  \<open>intStrBuffer\<close>, and the stores that the n conversion made (address, width in bits, value).
\<close>

record 'd pst =
  p_tty :: tty
  p_chars :: int
  p_args :: "'d va list"
  p_buf :: "byte list"
  p_stores :: "(u32 \<times> nat \<times> int) list"

fun va_word32 :: "'d va list \<Rightarrow> (u32 \<times> 'd va list) res" where
  "va_word32 (Word32 w # vs) = Ok (w, vs)"
| "va_word32 (Str a s # vs) = Ok (a, vs)"
| "va_word32 _ = Err Undefined"

fun va_word64 :: "'d va list \<Rightarrow> (64 word \<times> 'd va list) res" where
  "va_word64 (Word64 w # vs) = Ok (w, vs)"
| "va_word64 _ = Err Undefined"

fun va_double :: "'d va list \<Rightarrow> ('d \<times> 'd va list) res" where
  "va_double (Double d # vs) = Ok (d, vs)"
| "va_double _ = Err Undefined"

fun va_str :: "'d va list \<Rightarrow> (byte list \<times> 'd va list) res" where
  "va_str (Str a s # vs) = Ok (s, vs)"
| "va_str _ = Err Undefined"

section \<open>Output\<close>

definition displayCharacter :: "byte \<Rightarrow> 'd pst \<Rightarrow> 'd pst res" where
  "displayCharacter c st = bindr (putchar (sint c) (p_tty st)) (\<lambda>(_, t).
     bindr (int32 (p_chars st + 1)) (\<lambda>n. Ok (st\<lparr>p_tty := t, p_chars := n\<rparr>)))"

fun displayString :: "byte list \<Rightarrow> 'd pst \<Rightarrow> 'd pst res" where
  "displayString [] st = Err Undefined"
| "displayString (c # cs) st =
     (if c \<noteq> 0 then bindr (displayCharacter c st) (displayString cs) else Ok st)"

section \<open>The conversion specification\<close>

record fmt_spec =
  leftJustify :: bool
  zeroPad :: bool
  spaceNoSign :: bool
  altForm :: bool
  plusSign :: bool
  lengthSpec :: int
  precSpec :: int
  len_mod :: byte
  specifier :: byte

definition no_spec :: fmt_spec where
  "no_spec = \<lparr>leftJustify = False, zeroPad = False, spaceNoSign = False, altForm = False, plusSign = False,
     lengthSpec = 0, precSpec = 0, len_mod = 0, specifier = 0\<rparr>"

fun parse_flags :: "byte list \<Rightarrow> fmt_spec \<Rightarrow> (fmt_spec \<times> byte list) res" where
  "parse_flags [] sp = Err Undefined"
| "parse_flags (c # cs) sp =
     (if c = ch CHR ''-'' then parse_flags cs (sp\<lparr>leftJustify := True\<rparr>)
      else if c = ch CHR ''+'' then parse_flags cs (sp\<lparr>plusSign := True\<rparr>)
      else if c = ch CHR ''#'' then parse_flags cs (sp\<lparr>altForm := True\<rparr>)
      else if c = ch CHR '' '' then parse_flags cs (sp\<lparr>spaceNoSign := True\<rparr>)
      else if c = ch CHR ''0'' then parse_flags cs (sp\<lparr>zeroPad := True\<rparr>)
      else Ok (sp, c # cs))"

fun parse_number :: "byte list \<Rightarrow> int \<Rightarrow> (int \<times> byte list) res" where
  "parse_number [] n = Err Undefined"
| "parse_number (c # cs) n =
     (if isdigit c \<noteq> 0
      then bindr (int32 (n * 10)) (\<lambda>n. bindr (int32 (n + (sint c - 48))) (\<lambda>n. parse_number cs n))
      else Ok (n, c # cs))"

text \<open>A star after the digits takes the number from the arguments.\<close>

definition parse_star :: "byte list \<Rightarrow> int \<Rightarrow> 'd va list \<Rightarrow> (int \<times> byte list \<times> 'd va list) res" where
  "parse_star fmt n vs = (case fmt of [] \<Rightarrow> Err Undefined
     | c # cs \<Rightarrow> if c = ch CHR ''*'' then bindr (va_word32 vs) (\<lambda>(w, vs). Ok (sint w, cs, vs))
       else Ok (n, fmt, vs))"

definition parse_field :: "byte list \<Rightarrow> 'd va list \<Rightarrow> (int \<times> byte list \<times> 'd va list) res" where
  "parse_field fmt vs = bindr (parse_number fmt 0) (\<lambda>(n, fmt). parse_star fmt n vs)"

definition parse_prec :: "byte list \<Rightarrow> 'd va list \<Rightarrow> (int \<times> byte list \<times> 'd va list) res" where
  "parse_prec fmt vs = (case fmt of [] \<Rightarrow> Err Undefined
     | c # cs \<Rightarrow> if c = ch CHR ''.'' then parse_field cs vs else Ok (6, fmt, vs))"

definition parse_length :: "byte list \<Rightarrow> (byte \<times> byte list) res" where
  "parse_length fmt = (case fmt of [] \<Rightarrow> Err Undefined
     | c # cs \<Rightarrow>
       if c \<in> set (map of_char ''hljztL'')
       then (case cs of [] \<Rightarrow> Err Undefined
         | d # ds \<Rightarrow>
           if d = ch CHR ''h'' then Ok (ch CHR ''H'', cs)
           else if d = ch CHR ''l'' then Ok (ch CHR ''q'', ds)
           else Ok (c, cs))
       else Ok (0, fmt))"

text \<open>The whole specification after the percent sign, and the format after its last character.\<close>

definition parse_spec :: "byte list \<Rightarrow> 'd va list \<Rightarrow> (fmt_spec \<times> byte list \<times> 'd va list) res" where
  "parse_spec fmt vs =
     bindr (parse_flags fmt no_spec) (\<lambda>(sp, fmt).
     bindr (parse_field fmt vs) (\<lambda>(n, fmt, vs).
     bindr (parse_prec fmt vs) (\<lambda>(p, fmt, vs).
     bindr (parse_length fmt) (\<lambda>(l, fmt).
     (case fmt of [] \<Rightarrow> Err Undefined
      | c # cs \<Rightarrow> Ok (sp\<lparr>lengthSpec := n, precSpec := p, len_mod := l, specifier := c\<rparr>, cs, vs))))))"

section \<open>The conversions\<close>

text \<open>\<open>__int_str\<close> into \<open>intStrBuffer\<close> and the buffer on the terminal.\<close>

definition print_int :: "int \<Rightarrow> int \<Rightarrow> fmt_spec \<Rightarrow> 'd pst \<Rightarrow> 'd pst res" where
  "print_int i base sp st =
     bindr (int_str i (p_buf st) base (plusSign sp) (spaceNoSign sp) (lengthSpec sp) (leftJustify sp) (zeroPad sp)) (\<lambda>b.
     displayString b (st\<lparr>p_buf := b\<rparr>))"

definition conv_unsigned :: "int \<Rightarrow> fmt_spec \<Rightarrow> 'd pst \<Rightarrow> 'd pst res" where
  "conv_unsigned base sp st =
     (let l = len_mod sp;
          word32 = (\<lambda>f. bindr (va_word32 (p_args st)) (\<lambda>(w, vs). print_int (f w) base sp (st\<lparr>p_args := vs\<rparr>)))
      in if l = 0 then word32 sint
         else if l = ch CHR ''H'' then word32 (\<lambda>w. uint (ucast w :: byte))
         else if l = ch CHR ''h'' then word32 (\<lambda>w. uint (ucast w :: u16))
         else if l = ch CHR ''l'' then word32 sint
         else if l = ch CHR ''q''
         then bindr (va_word64 (p_args st)) (\<lambda>(w, vs). print_int (sint (ucast w :: u32)) base sp (st\<lparr>p_args := vs\<rparr>))
         else if l = ch CHR ''j'' then word32 sint
         else if l = ch CHR ''z'' then word32 sint
         else if l = ch CHR ''t'' then word32 sint
         else Ok st)"

definition conv_signed :: "int \<Rightarrow> fmt_spec \<Rightarrow> 'd pst \<Rightarrow> 'd pst res" where
  "conv_signed base sp st =
     (let l = len_mod sp;
          word32 = (\<lambda>f. bindr (va_word32 (p_args st)) (\<lambda>(w, vs). print_int (f w) base sp (st\<lparr>p_args := vs\<rparr>)))
      in if l = 0 then word32 sint
         else if l = ch CHR ''H'' then word32 (\<lambda>w. sint (ucast w :: byte))
         else if l = ch CHR ''h'' then word32 (\<lambda>w. sint (ucast w :: u16))
         else if l = ch CHR ''l'' then word32 sint
         else if l = ch CHR ''q''
         then bindr (va_word64 (p_args st)) (\<lambda>(w, vs). print_int (sint (ucast w :: u32)) base sp (st\<lparr>p_args := vs\<rparr>))
         else if l = ch CHR ''j'' then word32 sint
         else if l = ch CHR ''z'' then word32 sint
         else if l = ch CHR ''t'' then word32 sint
         else Ok st)"

text \<open>The base that the conversion letter selects, and whether \<open>0x\<close> can come first.\<close>

definition hex_base :: "byte \<Rightarrow> int \<Rightarrow> int" where
  "hex_base c base =
     (let base = if c = ch CHR ''X'' then 16 else base in if base = 10 then 17 else base)"

definition conv_c :: "'d pst \<Rightarrow> 'd pst res" where
  "conv_c st = bindr (va_word32 (p_args st)) (\<lambda>(w, vs). displayCharacter (ucast w) (st\<lparr>p_args := vs\<rparr>))"

definition conv_s :: "'d pst \<Rightarrow> 'd pst res" where
  "conv_s st = bindr (va_str (p_args st)) (\<lambda>(s, vs). displayString s (st\<lparr>p_args := vs\<rparr>))"

definition conv_n :: "fmt_spec \<Rightarrow> 'd pst \<Rightarrow> 'd pst res" where
  "conv_n sp st =
     (let l = len_mod sp;
          store = (\<lambda>bits. bindr (va_word32 (p_args st)) (\<lambda>(a, vs).
            Ok (st\<lparr>p_args := vs, p_stores := p_stores st @ [(a, bits, p_chars st)]\<rparr>)))
      in if l = ch CHR ''H'' then store 8
         else if l = ch CHR ''h'' then store 16
         else if l = 0 then store 32
         else if l = ch CHR ''l'' then store 32
         else if l = ch CHR ''q'' then store 64
         else if l = ch CHR ''j'' then store 32
         else if l = ch CHR ''z'' then store 32
         else if l = ch CHR ''t'' then store 32
         else Ok st)"

text \<open>The loop that scales the number of an e conversion; its counter overflows before it can run forever.\<close>

function scale_exp :: "'d fpu \<Rightarrow> 'd \<Rightarrow> int \<Rightarrow> ('d \<times> int) res" where
  "scale_exp fpu d expo =
     (if f_ge10 fpu d then bindr (int32 (expo + 1)) (\<lambda>e. scale_exp fpu (f_div10 fpu d) e) else Ok (d, expo))"
  by pat_completeness auto
termination
  by (relation "measure (\<lambda>(fpu, d, expo). nat (2 ^ 31 - expo))")
    (auto simp: int32_def is_int32_def split: if_splits)

definition conv_float :: "'d fpu \<Rightarrow> bool \<Rightarrow> int \<Rightarrow> fmt_spec \<Rightarrow> 'd pst \<Rightarrow> (int \<times> 'd pst) res" where
  "conv_float fpu emode base sp st =
     bindr (va_double (p_args st)) (\<lambda>(d, vs).
     bindr (if emode then scale_exp fpu d 0 else Ok (d, 0)) (\<lambda>(d, expo).
     bindr (int32 (lengthSpec sp - precSpec sp)) (\<lambda>form.
     bindr (int32 (form - expo)) (\<lambda>form.
     bindr (int32 (form - (if precSpec sp \<noteq> 0 \<or> altForm sp then 1 else 0))) (\<lambda>form.
     bindr (if emode then int32 (form - 4) else Ok form) (\<lambda>form.
     let form = (if form < 0 then 0 else form) in
     bindr (int32 (f_trunc fpu d)) (\<lambda>i.
     bindr (print_int i base (sp\<lparr>lengthSpec := form\<rparr>) (st\<lparr>p_args := vs\<rparr>)) (\<lambda>st.
     let d = (f_mul10 fpu ^^ nat (precSpec sp)) (f_sub_int fpu d i) in
     bindr (int32 (f_trunc fpu (f_add_half fpu d))) (\<lambda>decPlaces.
     bindr (if precSpec sp \<noteq> 0
            then bindr (displayCharacter (ch CHR ''.'') st) (\<lambda>st.
              bindr (int_str decPlaces (p_buf st) 10 False False 0 False False) (\<lambda>b.
              bindr (arr_set b (precSpec sp) 0) (\<lambda>b.
              displayString b (st\<lparr>p_buf := b\<rparr>))))
            else if altForm sp then displayCharacter (ch CHR ''.'') st
            else Ok st) (\<lambda>st. Ok (expo, st)))))))))))"

text \<open>
  One conversion: the base, the text before a number, the switch on the letter and, for the
  letters e and E, the exponent.
\<close>

definition conversion :: "'d fpu \<Rightarrow> fmt_spec \<Rightarrow> 'd pst \<Rightarrow> 'd pst res" where
  "conversion fpu sp st =
     (let st = st\<lparr>p_buf := replicate 256 0\<rparr>; c = specifier sp in
      bindr (if c = ch CHR ''o'' \<and> altForm sp then displayString (cbytes ''0'') st else Ok st) (\<lambda>st.
      let (base, c) = (if c = ch CHR ''o'' then (8, ch CHR ''u'') else (10, c));
          (base, sp, c) = (if c = ch CHR ''p'' then (16, sp\<lparr>len_mod := ch CHR ''z''\<rparr>, ch CHR ''u'') else (base, sp, c)) in
      bindr
        (if c = ch CHR ''X'' \<or> c = ch CHR ''x''
         then bindr (if altForm sp then displayString (cbytes ''0x'') st else Ok st) (\<lambda>st.
           bindr (conv_unsigned (hex_base c base) sp st) (\<lambda>st. Ok (0, st)))
         else if c = ch CHR ''u'' then bindr (conv_unsigned base sp st) (\<lambda>st. Ok (0, st))
         else if c = ch CHR ''d'' \<or> c = ch CHR ''i'' then bindr (conv_signed base sp st) (\<lambda>st. Ok (0, st))
         else if c = ch CHR ''c'' then bindr (conv_c st) (\<lambda>st. Ok (0, st))
         else if c = ch CHR ''s'' then bindr (conv_s st) (\<lambda>st. Ok (0, st))
         else if c = ch CHR ''n'' then bindr (conv_n sp st) (\<lambda>st. Ok (0, st))
         else if c = ch CHR ''e'' \<or> c = ch CHR ''E'' then conv_float fpu True base sp st
         else if c \<in> set (map of_char ''fFgG'') then conv_float fpu False base sp st
         else Ok (0, st)) (\<lambda>(expo, st).
      bindr (if c = ch CHR ''e'' then displayString (cbytes ''e+'') st
             else if c = ch CHR ''E'' then displayString (cbytes ''E+'') st else Ok st) (\<lambda>st.
      if c = ch CHR ''e'' \<or> c = ch CHR ''E''
      then bindr (int_str expo (p_buf st) 10 False False 2 False True) (\<lambda>b. displayString b (st\<lparr>p_buf := b\<rparr>))
      else Ok st))))"

lemma bindr_unit [simp]: "bindr m Ok = m"
  by (cases m) simp_all

section \<open>The loop over the format\<close>

lemma parse_flags_length: "parse_flags fmt sp = Ok (sp', fmt') \<Longrightarrow> length fmt' \<le> length fmt"
  by (induction fmt sp rule: parse_flags.induct) (auto split: if_splits)

lemma parse_number_length: "parse_number fmt n = Ok (n', fmt') \<Longrightarrow> length fmt' \<le> length fmt"
  by (induction fmt n arbitrary: n' rule: parse_number.induct) (fastforce split: if_splits)+

lemma parse_star_length: "parse_star fmt n vs = Ok (n', fmt', vs') \<Longrightarrow> length fmt' \<le> length fmt"
  by (auto simp: parse_star_def split: list.splits if_splits)

lemma parse_field_length: "parse_field fmt vs = Ok (n', fmt', vs') \<Longrightarrow> length fmt' \<le> length fmt"
  using parse_number_length parse_star_length by (fastforce simp: parse_field_def)

lemma parse_prec_length: "parse_prec fmt vs = Ok (n', fmt', vs') \<Longrightarrow> length fmt' \<le> length fmt"
  using parse_field_length by (fastforce simp: parse_prec_def split: list.splits if_splits)

lemma parse_length_length: "parse_length fmt = Ok (l, fmt') \<Longrightarrow> length fmt' \<le> length fmt"
  by (auto simp: parse_length_def split: list.splits if_splits)

lemma parse_spec_length:
  assumes "parse_spec fmt vs = Ok (sp, fmt', vs')"
  shows "length fmt' < length fmt"
proof -
  obtain sp1 f1 n1 f2 v2 n3 f3 v3 l c where
    "parse_flags fmt no_spec = Ok (sp1, f1)" "parse_field f1 vs = Ok (n1, f2, v2)"
    "parse_prec f2 v2 = Ok (n3, f3, v3)" "parse_length f3 = Ok (l, c # fmt')"
    using assms by (auto simp: parse_spec_def neq_Nil_conv split: list.splits prod.splits)
  then show ?thesis
    using parse_flags_length parse_field_length parse_prec_length parse_length_length by fastforce
qed

function vprintf_from :: "'d fpu \<Rightarrow> byte list \<Rightarrow> 'd pst \<Rightarrow> 'd pst res" where
  "vprintf_from fpu fmt st = (case fmt of [] \<Rightarrow> Err Undefined
     | c # cs \<Rightarrow>
       if c = 0 then Ok st
       else if c = ch CHR ''%''
       then bindr (parse_spec cs (p_args st)) (\<lambda>(sp, rest, vs).
         bindr (conversion fpu sp (st\<lparr>p_args := vs\<rparr>)) (\<lambda>st. vprintf_from fpu rest st))
       else bindr (displayCharacter c st) (\<lambda>st. vprintf_from fpu cs st))"
  by pat_completeness auto
termination
  by (relation "measure (\<lambda>(fpu, fmt, st). length fmt)") (auto dest!: parse_spec_length)

declare vprintf_from.simps [simp del]

definition vprintf :: "'d fpu \<Rightarrow> byte list \<Rightarrow> 'd va list \<Rightarrow> tty \<Rightarrow> (int \<times> 'd pst) res" where
  "vprintf fpu fmt vs t =
     bindr (vprintf_from fpu fmt \<lparr>p_tty = t, p_chars = 0, p_args = vs, p_buf = replicate 256 0, p_stores = []\<rparr>) (\<lambda>st.
     Ok (p_chars st, st))"

definition printf :: "'d fpu \<Rightarrow> byte list \<Rightarrow> 'd va list \<Rightarrow> tty \<Rightarrow> (int \<times> 'd pst) res" where
  "printf fpu fmt vs t = vprintf fpu fmt vs t"

section \<open>The users of printf in libc\<close>

definition puts :: "'d fpu \<Rightarrow> u32 \<Rightarrow> byte list \<Rightarrow> tty \<Rightarrow> (int \<times> 'd pst) res" where
  "puts fpu addr s t = printf fpu (cbytes (''%s'' @ [CHR 0x0A])) [Str addr s] t"

text \<open>\<open>abort\<close> prints its message and loops forever; \<open>assert\<close> calls it when its argument is 0.\<close>

definition abort :: "'d fpu \<Rightarrow> tty \<Rightarrow> 'a res" where
  "abort fpu t = bindr (printf fpu (cbytes (''kernel: panic: abort()'' @ [CHR 0x0A])) [] t) (\<lambda>_. Err Aborted)"

definition assert_fn :: "'d fpu \<Rightarrow> int \<Rightarrow> tty \<Rightarrow> tty res" where
  "assert_fn fpu abrt t =
     (if abrt = 0
      then bindr (printf fpu (cbytes (''Assert fail!'' @ [CHR 0x0A])) [] t) (\<lambda>(_, st). abort fpu (p_tty st))
      else Ok t)"

section \<open>Output of the pieces of a format\<close>

text \<open>From \<open>st\<close> to \<open>st'\<close> the characters \<open>s\<close> are printed and counted, and the arguments \<open>vs\<close> are left.\<close>

definition emits :: "byte list \<Rightarrow> 'd va list \<Rightarrow> 'd pst \<Rightarrow> 'd pst \<Rightarrow> bool" where
  "emits s vs st st' \<longleftrightarrow> shown s (p_tty st) (p_tty st') \<and> p_chars st' = p_chars st + int (length s) \<and>
     p_args st' = vs \<and> p_stores st' = p_stores st"

text \<open>There is room in the counter for \<open>s\<close>.\<close>

definition ready :: "byte list \<Rightarrow> 'd pst \<Rightarrow> bool" where
  "ready s st \<longleftrightarrow> term_ok (p_tty st) \<and> 0 \<le> p_chars st \<and> p_chars st + int (length s) < 2 ^ 31"

lemma ready_update [simp]:
  "ready s (st\<lparr>p_args := vs\<rparr>) = ready s st" "ready s (st\<lparr>p_buf := b\<rparr>) = ready s st"
  by (simp_all add: ready_def)

lemma emits_update [simp]:
  "emits s vs (st\<lparr>p_args := ws\<rparr>) st' = emits s vs st st'" "emits s vs (st\<lparr>p_buf := b\<rparr>) st' = emits s vs st st'"
  by (simp_all add: emits_def)

lemma ready_emits: "ready (s @ u) st \<Longrightarrow> emits s vs st st' \<Longrightarrow> ready u st'"
  by (auto simp: ready_def emits_def dest: shown_ok)

lemma ready_append: "ready (s @ u) st \<Longrightarrow> ready s st"
  by (auto simp: ready_def)

lemma emits_append: "emits s vs st st1 \<Longrightarrow> emits u ws st1 st2 \<Longrightarrow> emits (s @ u) ws st st2"
  by (auto simp: emits_def intro: shown_append)

lemma displayCharacter_ok:
  assumes "ready [c] st"
  shows "\<exists>st'. displayCharacter c st = Ok st' \<and> emits [c] (p_args st) st st'"
proof -
  obtain t' where t': "putchar (sint c) (p_tty st) = Ok (sint c, t')" "shown [c] (p_tty st) t'"
    using putchar_shown [of "p_tty st" "sint c"] assms by (auto simp: ready_def)
  have "is_int32 (p_chars st + 1)" using assms by (auto simp: ready_def is_int32_def)
  then show ?thesis using t' by (simp add: displayCharacter_def emits_def)
qed

lemma displayString_ok:
  assumes "ready (cstr s) st" and "terminated s"
  shows "\<exists>st'. displayString s st = Ok st' \<and> emits (cstr s) (p_args st) st st'"
  using assms
proof (induction s arbitrary: st)
  case (Cons c s)
  show ?case
  proof (cases "c = 0")
    case True
    then show ?thesis using Cons.prems by (simp add: emits_def ready_def shown_Nil)
  next
    case False
    have "ready [c] st" using Cons.prems(1) False by (auto simp: ready_def)
    then obtain st1 where st1: "displayCharacter c st = Ok st1" "emits [c] (p_args st) st st1"
      using displayCharacter_ok by blast
    have "ready (cstr s) st1"
      using Cons.prems(1) False ready_emits [OF _ st1(2), of "cstr s"] by simp
    then obtain st2 where st2: "displayString s st1 = Ok st2" "emits (cstr s) (p_args st1) st1 st2"
      using Cons.IH [of st1] Cons.prems(2) False by auto
    have "emits (c # cstr s) (p_args st) st st2"
      using emits_append [OF st1(2) st2(2)] st1(2) by (simp add: emits_def)
    then show ?thesis using False st1(1) st2(1) by simp
  qed
qed simp

lemma print_int_ok:
  assumes "ready (cstr (raw_text i base False False)) st" and "is_int32 i" and "i \<noteq> - (2 ^ 31)" and "a_base base"
    and "p_buf st = replicate 256 0"
    and "lengthSpec sp = 0" and "\<not> plusSign sp" and "\<not> spaceNoSign sp"
  shows "\<exists>st'. print_int i base sp st = Ok st' \<and> emits (cstr (raw_text i base False False)) (p_args st) st st'"
proof -
  obtain b where b: "int_str i (replicate 256 0) base False False 0 (leftJustify sp) (zeroPad sp) = Ok b"
    "terminated b" "cstr b = cstr (raw_text i base False False)"
    using int_str_text [OF assms(2,3,4), of 0 False False "leftJustify sp" "zeroPad sp"] by auto
  have "ready (cstr b) (st\<lparr>p_buf := b\<rparr>)" using assms(1) b(3) by simp
  then obtain st' where "displayString b (st\<lparr>p_buf := b\<rparr>) = Ok st'" "emits (cstr b) (p_args (st\<lparr>p_buf := b\<rparr>)) (st\<lparr>p_buf := b\<rparr>) st'"
    using displayString_ok [OF _ b(2)] by blast
  then show ?thesis
    using b assms(5-8) by (simp add: print_int_def)
qed

text \<open>A format as a sequence of pieces with their arguments, and the text it stands for.\<close>

datatype piece = Lit "byte list" | Conv_s u32 "byte list" | Conv_d u32 | Conv_u u32 | Conv_c u32

primrec format_of :: "piece \<Rightarrow> byte list" where
  "format_of (Lit s) = s"
| "format_of (Conv_s a s) = map of_char ''%s''"
| "format_of (Conv_d w) = map of_char ''%d''"
| "format_of (Conv_u w) = map of_char ''%u''"
| "format_of (Conv_c w) = map of_char ''%c''"

primrec args_of :: "piece \<Rightarrow> 'd va list" where
  "args_of (Lit s) = []"
| "args_of (Conv_s a s) = [Str a s]"
| "args_of (Conv_d w) = [Word32 w]"
| "args_of (Conv_u w) = [Word32 w]"
| "args_of (Conv_c w) = [Word32 w]"

primrec text_of :: "piece \<Rightarrow> byte list" where
  "text_of (Lit s) = s"
| "text_of (Conv_s a s) = cstr s"
| "text_of (Conv_d w) = cstr (raw_text (sint w) 10 False False)"
| "text_of (Conv_u w) = cstr (raw_text (sint w) 10 False False)"
| "text_of (Conv_c w) = [ucast w]"

primrec piece_ok :: "piece \<Rightarrow> bool" where
  "piece_ok (Lit s) \<longleftrightarrow> 0 \<notin> set s \<and> ch CHR ''%'' \<notin> set s"
| "piece_ok (Conv_s a s) \<longleftrightarrow> terminated s"
| "piece_ok (Conv_d w) \<longleftrightarrow> sint w \<noteq> - (2 ^ 31)"
| "piece_ok (Conv_u w) \<longleftrightarrow> sint w \<noteq> - (2 ^ 31)"
| "piece_ok (Conv_c w) \<longleftrightarrow> True"

definition simple_spec :: "byte \<Rightarrow> fmt_spec" where
  "simple_spec c = no_spec\<lparr>precSpec := 6, specifier := c\<rparr>"

lemma parse_simple:
  assumes "c \<in> set (map of_char ''sduc'')"
  shows "parse_spec (c # rest) vs = Ok (simple_spec c, rest, vs)"
  using assms by (auto simp: parse_spec_def parse_field_def parse_star_def parse_prec_def parse_length_def
      isdigit_def simple_spec_def no_spec_def)

lemma literal_ok:
  assumes "ready s st" and "0 \<notin> set s" and "ch CHR ''%'' \<notin> set s"
  shows "\<exists>st'. vprintf_from fpu (s @ rest) st = vprintf_from fpu rest st' \<and> emits s (p_args st) st st'"
  using assms
proof (induction s arbitrary: st)
  case Nil
  then show ?case by (auto simp: emits_def ready_def shown_Nil)
next
  case (Cons c s)
  have "ready [c] st" using ready_append [of "[c]" s] Cons.prems(1) by simp
  then obtain st1 where st1: "displayCharacter c st = Ok st1" "emits [c] (p_args st) st st1"
    using displayCharacter_ok by blast
  have "ready s st1" using ready_emits [OF _ st1(2), of s] Cons.prems(1) by simp
  then obtain st2 where st2: "vprintf_from fpu (s @ rest) st1 = vprintf_from fpu rest st2" "emits s (p_args st1) st1 st2"
    using Cons.IH Cons.prems(2,3) by force
  have "emits (c # s) (p_args st) st st2"
    using emits_append [OF st1(2) st2(2)] st1(2) by (simp add: emits_def)
  then show ?case
    using Cons.prems(2,3) st1(1) st2(1) by (subst vprintf_from.simps) auto
qed

lemma conversion_simple:
  "conversion fpu (simple_spec (ch CHR ''s'')) st = conv_s (st\<lparr>p_buf := replicate 256 0\<rparr>)"
  "conversion fpu (simple_spec (ch CHR ''d'')) st =
     bindr (va_word32 (p_args st)) (\<lambda>(w, vs).
       print_int (sint w) 10 (simple_spec (ch CHR ''d'')) (st\<lparr>p_buf := replicate 256 0, p_args := vs\<rparr>))"
  "conversion fpu (simple_spec (ch CHR ''u'')) st =
     bindr (va_word32 (p_args st)) (\<lambda>(w, vs).
       print_int (sint w) 10 (simple_spec (ch CHR ''u'')) (st\<lparr>p_buf := replicate 256 0, p_args := vs\<rparr>))"
  "conversion fpu (simple_spec (ch CHR ''c'')) st = conv_c (st\<lparr>p_buf := replicate 256 0\<rparr>)"
  by (simp_all add: conversion_def conv_signed_def conv_unsigned_def simple_spec_def no_spec_def Let_def bindr_assoc case_prod_unfold)

lemma piece_step:
  assumes "ready (text_of p) st" and "piece_ok p" and "p_args st = args_of p @ vs"
  shows "\<exists>st'. vprintf_from fpu (format_of p @ rest) st = vprintf_from fpu rest st' \<and> emits (text_of p) vs st st'"
proof (cases p)
  case (Lit s)
  then show ?thesis using literal_ok [of s st fpu rest] assms by simp
next
  case (Conv_s a s)
  then obtain st' where "displayString s (st\<lparr>p_buf := replicate 256 0, p_args := vs\<rparr>) = Ok st'" "emits (cstr s) vs st st'"
    using displayString_ok [of s "st\<lparr>p_buf := replicate 256 0, p_args := vs\<rparr>"] assms by auto
  then show ?thesis
    using assms Conv_s by (subst vprintf_from.simps) (auto simp: parse_simple conversion_simple [simplified] conv_s_def)
next
  case (Conv_d w)
  then obtain st' where "print_int (sint w) 10 (simple_spec (ch CHR ''d'')) (st\<lparr>p_buf := replicate 256 0, p_args := vs\<rparr>) = Ok st'"
    "emits (cstr (raw_text (sint w) 10 False False)) vs st st'"
    using print_int_ok [of "sint w" 10 "st\<lparr>p_buf := replicate 256 0, p_args := vs\<rparr>" "simple_spec (ch CHR ''d'')"] assms
    by (auto simp: a_base_def simple_spec_def no_spec_def)
  then show ?thesis
    using assms Conv_d by (subst vprintf_from.simps)
      (auto simp: parse_simple conversion_simple [simplified])
next
  case (Conv_u w)
  then obtain st' where "print_int (sint w) 10 (simple_spec (ch CHR ''u'')) (st\<lparr>p_buf := replicate 256 0, p_args := vs\<rparr>) = Ok st'"
    "emits (cstr (raw_text (sint w) 10 False False)) vs st st'"
    using print_int_ok [of "sint w" 10 "st\<lparr>p_buf := replicate 256 0, p_args := vs\<rparr>" "simple_spec (ch CHR ''u'')"] assms
    by (auto simp: a_base_def simple_spec_def no_spec_def)
  then show ?thesis
    using assms Conv_u by (subst vprintf_from.simps)
      (auto simp: parse_simple conversion_simple [simplified])
next
  case (Conv_c w)
  then obtain st' where "displayCharacter (ucast w) (st\<lparr>p_buf := replicate 256 0, p_args := vs\<rparr>) = Ok st'" "emits [ucast w] vs st st'"
    using displayCharacter_ok [of "ucast w" "st\<lparr>p_buf := replicate 256 0, p_args := vs\<rparr>"] assms by auto
  then show ?thesis
    using assms Conv_c by (subst vprintf_from.simps) (auto simp: parse_simple conversion_simple [simplified] conv_c_def)
qed

lemma pieces_ok:
  assumes "ready (concat (map text_of ps)) st" and "\<forall>p \<in> set ps. piece_ok p" and "p_args st = concat (map args_of ps) @ vs"
  shows "\<exists>st'. vprintf_from fpu (concat (map format_of ps) @ [0]) st = Ok st' \<and> emits (concat (map text_of ps)) vs st st'"
  using assms
proof (induction ps arbitrary: st)
  case Nil
  then show ?case by (subst vprintf_from.simps) (simp add: emits_def ready_def shown_Nil)
next
  case (Cons p ps)
  have "ready (text_of p) st" using Cons.prems(1) ready_append by auto
  then obtain st1 where st1: "vprintf_from fpu (format_of p @ concat (map format_of ps) @ [0]) st
      = vprintf_from fpu (concat (map format_of ps) @ [0]) st1" "emits (text_of p) (concat (map args_of ps) @ vs) st st1"
    using piece_step [of p st "concat (map args_of ps) @ vs" fpu "concat (map format_of ps) @ [0]"] Cons.prems by auto
  have "ready (concat (map text_of ps)) st1" "p_args st1 = concat (map args_of ps) @ vs"
    using ready_emits [OF _ st1(2)] Cons.prems(1) st1(2) by (auto simp: emits_def)
  then obtain st2 where "vprintf_from fpu (concat (map format_of ps) @ [0]) st1 = Ok st2" "emits (concat (map text_of ps)) vs st1 st2"
    using Cons.IH Cons.prems(2) by force
  then show ?case
    using st1 emits_append [OF st1(2)] by auto
qed

section \<open>Properties\<close>

lemma printf_pieces:
  assumes "term_ok t" and "\<forall>p \<in> set ps. piece_ok p" and "length (concat (map text_of ps)) < 2 ^ 31"
  shows "\<exists>st. printf fpu (concat (map format_of ps) @ [0]) (concat (map args_of ps)) t =
      Ok (int (length (concat (map text_of ps))), st) \<and>
    shown (concat (map text_of ps)) t (p_tty st) \<and> p_stores st = []"
proof -
  let ?st = "\<lparr>p_tty = t, p_chars = 0, p_args = concat (map args_of ps), p_buf = replicate 256 0, p_stores = []\<rparr>"
  have "ready (concat (map text_of ps)) ?st" using assms(1,3) by (simp add: ready_def)
  then show ?thesis
    using pieces_ok [of ps ?st "[]" fpu] assms(2) by (auto simp: printf_def vprintf_def emits_def)
qed

text \<open>
  C32: a format of literal text and the conversions s, d, u and c without options prints the
  concatenation of the texts of its pieces, returns their length, and makes no store. The text of
  a d or u conversion is the one that \<open>__int_str\<close> leaves, with the digits up to the first one that
  its table lacks; u takes its argument for a signed number, too.
\<close>

theorem printf_renders:
  assumes "term_ok t" and "\<forall>p \<in> set ps. piece_ok p" and "length (concat (map text_of ps)) < 2 ^ 31"
  shows "\<exists>st. printf fpu (concat (map format_of ps) @ [0]) (concat (map args_of ps)) t =
      Ok (int (length (concat (map text_of ps))), st) \<and>
    shown (concat (map text_of ps)) t (p_tty st) \<and> p_stores st = []"
  using printf_pieces [OF assms] .

text \<open>A parameter for the witnesses, which print no double.\<close>

definition no_fpu :: "unit fpu" where
  "no_fpu = \<lparr>f_ge10 = \<lambda>_. False, f_div10 = id, f_mul10 = id, f_trunc = \<lambda>_. 0, f_sub_int = \<lambda>d _. d, f_add_half = id\<rparr>"

lemma printf_renders_witness:
  "\<exists>st. printf no_fpu (concat (map format_of [Lit [65], Conv_d 4096, Conv_s 9 [66, 0]]) @ [0])
      (concat (map args_of [Lit [65], Conv_d 4096, Conv_s 9 [66, 0]])) blank_tty =
      Ok (int (length (concat (map text_of [Lit [65], Conv_d 4096, Conv_s 9 [66, 0]]))), st) \<and>
    shown (concat (map text_of [Lit [65], Conv_d 4096, Conv_s 9 [66, 0]])) blank_tty (p_tty st) \<and> p_stores st = []"
proof (rule printf_renders [OF blank_tty_ok])
  show "length (concat (map text_of [Lit [65], Conv_d 4096, Conv_s 9 [66, 0]])) < 2 ^ 31"
    using length_raw_text [of 4096 10 False False] length_takeWhile_le [of "\<lambda>c. c \<noteq> 0" "raw_text 4096 10 False False"]
    by (simp add: is_int32_def a_base_def cstr_def)
qed simp_all

text \<open>
  A percent sign cannot be printed: \<open>%%\<close> is a conversion that prints nothing, and a format
  that ends in a percent sign makes \<open>vprintf\<close> read past its terminator.
\<close>

theorem printf_percent:
  "printf fpu (cbytes ''%%'') vs t = Ok (0, \<lparr>p_tty = t, p_chars = 0, p_args = vs, p_buf = replicate 256 0, p_stores = []\<rparr>)
   \<and> printf fpu (cbytes ''%'') vs t = Err Undefined"
  by (simp_all add: printf_def vprintf_def cbytes_def vprintf_from.simps parse_spec_def parse_field_def parse_star_def
      parse_prec_def parse_length_def isdigit_def no_spec_def conversion_def Let_def)

text \<open>
  The length \<open>hh\<close> is not skipped as a whole: its second letter is taken for the conversion,
  so \<open>%hhd\<close> prints the letter d and leaves its argument unread.
\<close>

theorem printf_hh:
  fixes fpu :: "'d fpu"
  assumes "term_ok t"
  shows "\<exists>st. printf fpu (cbytes ''%hhd'') [Word32 w] t = Ok (1, st) \<and> shown [ch CHR ''d''] t (p_tty st) \<and>
    p_args st = [Word32 w]"
proof -
  let ?st = "\<lparr>p_tty = t, p_chars = 0, p_args = [Word32 w], p_buf = replicate 256 0, p_stores = []\<rparr> :: 'd pst"
  have "ready [100] ?st" using assms by (simp add: ready_def)
  then obtain st where "displayCharacter 100 ?st = Ok st" "emits [100] [Word32 w] ?st st"
    using displayCharacter_ok [of 100 ?st] by auto
  then show ?thesis
    by (auto simp: printf_def vprintf_def cbytes_def vprintf_from.simps parse_spec_def parse_field_def parse_star_def
        parse_prec_def parse_length_def isdigit_def no_spec_def conversion_def Let_def emits_def)
qed

lemma printf_hh_witness:
  "\<exists>st. printf no_fpu (cbytes ''%hhd'') [Word32 5] blank_tty = Ok (1, st) \<and>
    shown [ch CHR ''d''] blank_tty (p_tty st) \<and> p_args st = [Word32 5]"
  by (rule printf_hh [OF blank_tty_ok])

text \<open>
  \<open>puts\<close> prints its string and a newline.
\<close>

theorem puts_line:
  assumes "term_ok t" and "terminated s" and "length (cstr s) < 2 ^ 31 - 1"
  shows "\<exists>st. puts fpu a s t = Ok (int (length (cstr s)) + 1, st) \<and> shown (cstr s @ [10]) t (p_tty st)"
proof -
  have "\<exists>st. printf fpu (concat (map format_of [Conv_s a s, Lit [10]]) @ [0]) (concat (map args_of [Conv_s a s, Lit [10]])) t
     = Ok (int (length (concat (map text_of [Conv_s a s, Lit [10]]))), st) \<and>
     shown (concat (map text_of [Conv_s a s, Lit [10]])) t (p_tty st)"
    using printf_pieces [OF assms(1), of "[Conv_s a s, Lit [10]]" fpu] assms(2,3) by auto
  then show ?thesis by (simp add: puts_def cbytes_def add.commute)
qed

lemma puts_line_witness:
  "\<exists>st. puts no_fpu 9 [72, 105, 0] blank_tty = Ok (int (length (cstr [72, 105, 0])) + 1, st) \<and>
    shown (cstr [72, 105, 0] @ [10]) blank_tty (p_tty st)"
  by (rule puts_line [OF blank_tty_ok]) simp_all

end
