(* ===== verification/Bitmap.thy ===== *)
theory Bitmap
  imports CArray
begin

unbundle bit_operations_syntax

text \<open>
  The allocation bitmaps of the file system (fs/ufs.c and kernel/kernel/filesystem.c), and
  the interface every bitmap of the system offers: the page frame allocator provides it too.
\<close>

section \<open>The bitmap operations of the file system\<close>

type_synonym bitmap_t = "u32 list"

text \<open>
  \<open>1 << k\<close> on a 32-bit int. A count outside 0 to 31 is undefined behaviour; a shift into the
  sign bit is the bit pattern \<open>0x80000000\<close> (GCC defines it so).
\<close>

definition shl1 :: "int \<Rightarrow> u32 res" where
  "shl1 k = (if 0 \<le> k \<and> k < 32 then Ok (push_bit (nat k) 1) else Err Undefined)"

definition set_bitmap :: "bitmap_t \<Rightarrow> int \<Rightarrow> bitmap_t res" where
  "set_bitmap b i = bindr (arr_get b (c_div i 32)) (\<lambda>w. bindr (shl1 (31 - i)) (\<lambda>m.
     arr_set b (c_div i 32) (w OR m)))"

definition reset_bitmap :: "bitmap_t \<Rightarrow> int \<Rightarrow> bitmap_t res" where
  "reset_bitmap b i = bindr (arr_get b (c_div i 32)) (\<lambda>w. bindr (shl1 (31 - i)) (\<lambda>m.
     arr_set b (c_div i 32) (w AND NOT m)))"

definition get_bitmap :: "bitmap_t \<Rightarrow> int \<Rightarrow> int res" where
  "get_bitmap b i = bindr (arr_get b (c_div i 32)) (\<lambda>w. bindr (shl1 (31 - i)) (\<lambda>m.
     Ok (if w AND m \<noteq> 0 then 1 else 0)))"

definition get_bitmap_sz :: "int \<Rightarrow> int res" where
  "get_bitmap_sz n = bindr (int32 (n + 31)) (\<lambda>k. Ok (c_div k 32))"

text \<open>The search loop: the first clear bit from \<open>i\<close> on, among \<open>n\<close> bits, else -1.\<close>

primrec find_clear :: "('b \<Rightarrow> int \<Rightarrow> int res) \<Rightarrow> 'b \<Rightarrow> nat \<Rightarrow> nat \<Rightarrow> int res" where
  "find_clear get b i 0 = Ok (- 1)"
| "find_clear get b i (Suc n) = bindr (get b (int i)) (\<lambda>v.
     if v = 0 then Ok (int i) else find_clear get b (Suc i) n)"

text \<open>The search loop of \<open>ufs_creat\<close> for two clear bits; it does not stop at the second.\<close>

primrec find_clear2 ::
    "('b \<Rightarrow> int \<Rightarrow> int res) \<Rightarrow> 'b \<Rightarrow> nat \<Rightarrow> nat \<Rightarrow> int \<Rightarrow> int \<Rightarrow> (int \<times> int) res" where
  "find_clear2 get b i 0 e1 e2 = Ok (e1, e2)"
| "find_clear2 get b i (Suc n) e1 e2 = bindr (get b (int i)) (\<lambda>v.
     if v = 0
     then (if e1 = - 1 then find_clear2 get b (Suc i) n (int i) e2
           else if e2 = - 1 then find_clear2 get b (Suc i) n e1 (int i)
           else find_clear2 get b (Suc i) n e1 e2)
     else find_clear2 get b (Suc i) n e1 e2)"

definition first_of :: "nat list \<Rightarrow> int" where
  "first_of l = (case l of [] \<Rightarrow> - 1 | k # _ \<Rightarrow> int k)"

lemma first_of_simps [simp]: "first_of [] = - 1" "first_of (k # l) = int k"
  by (simp_all add: first_of_def)

lemma first_of_filter:
  "first_of (filter P [0..<n]) = - 1 \<and> (\<forall>j < n. \<not> P j) \<or>
   (\<exists>k. first_of (filter P [0..<n]) = int k \<and> k < n \<and> P k \<and> (\<forall>j < k. \<not> P j))"
proof (induction n)
  case (Suc n)
  then show ?case
    by (cases "filter P [0..<n]") (auto simp: less_Suc_eq filter_empty_conv)
qed simp

section \<open>The interface of a bitmap\<close>

locale bit_store =
  fixes get :: "'b \<Rightarrow> int \<Rightarrow> int res"
    and set1 :: "'b \<Rightarrow> int \<Rightarrow> 'b res"
    and set0 :: "'b \<Rightarrow> int \<Rightarrow> 'b res"
    and cap :: "'b \<Rightarrow> nat"
    and bitv :: "'b \<Rightarrow> nat \<Rightarrow> bool"
  assumes get_law: "i < cap b \<Longrightarrow> get b (int i) = Ok (of_bool (bitv b i))"
    and set1_law: "i < cap b \<Longrightarrow> \<exists>b'. set1 b (int i) = Ok b' \<and> cap b' = cap b \<and>
          (\<forall>j < cap b. bitv b' j \<longleftrightarrow> j = i \<or> bitv b j)"
    and set0_law: "i < cap b \<Longrightarrow> \<exists>b'. set0 b (int i) = Ok b' \<and> cap b' = cap b \<and>
          (\<forall>j < cap b. bitv b' j \<longleftrightarrow> j \<noteq> i \<and> bitv b j)"
begin

text \<open>Both searches read off the list of clear positions.\<close>

lemma find_clear_eq:
  "i + n \<le> cap b \<Longrightarrow>
   find_clear get b i n = Ok (first_of (filter (\<lambda>j. \<not> bitv b j) [i..<i + n]))"
proof (induction n arbitrary: i)
  case (Suc n)
  then show ?case
    using Suc.IH [of "Suc i"] by (simp add: get_law upt_conv_Cons del: upt_Suc)
qed simp

lemma find_clear2_second:
  "i + n \<le> cap b \<Longrightarrow> e1 \<noteq> - 1 \<Longrightarrow> find_clear2 get b i n e1 e2 =
   Ok (e1, if e2 = - 1 then first_of (filter (\<lambda>j. \<not> bitv b j) [i..<i + n]) else e2)"
proof (induction n arbitrary: i e2)
  case (Suc n)
  then show ?case
    using Suc.IH [of "Suc i"] by (simp add: get_law upt_conv_Cons del: upt_Suc)
qed simp

lemma find_clear2_eq:
  "i + n \<le> cap b \<Longrightarrow> find_clear2 get b i n (- 1) (- 1) =
   (let l = filter (\<lambda>j. \<not> bitv b j) [i..<i + n] in Ok (first_of l, first_of (tl l)))"
proof (induction n arbitrary: i)
  case (Suc n)
  then show ?case
    using Suc.IH [of "Suc i"] find_clear2_second [of "Suc i" n b "int i" "- 1"]
    by (simp add: get_law upt_conv_Cons Let_def del: upt_Suc)
qed simp

lemma find_clear_Ok:
  assumes "n \<le> cap b" and "find_clear get b 0 n = Ok r"
  shows "r = - 1 \<and> (\<forall>j < n. bitv b j) \<or>
    (\<exists>k. r = int k \<and> k < n \<and> \<not> bitv b k \<and> (\<forall>j < k. bitv b j))"
  using find_clear_eq [of 0 n b] first_of_filter [of "\<lambda>j. \<not> bitv b j" n] assms by simp

lemma find_clear_full:
  "n \<le> cap b \<Longrightarrow> \<forall>j < n. bitv b j \<Longrightarrow> find_clear get b 0 n = Ok (- 1)"
  using find_clear_eq [of 0 n b] by (simp add: filter_empty_conv)

lemma set1_members:
  assumes "i < cap b" and "set1 b (int i) = Ok b'"
  shows "cap b' = cap b" and "{j. j < cap b' \<and> bitv b' j} = insert i {j. j < cap b \<and> bitv b j}"
  using set1_law [OF assms(1)] assms by auto

lemma set0_members:
  assumes "i < cap b" and "set0 b (int i) = Ok b'"
  shows "cap b' = cap b" and "{j. j < cap b' \<and> bitv b' j} = {j. j < cap b \<and> bitv b j} - {i}"
  using set0_law [OF assms(1)] assms by auto

text \<open>Taking a clear bit and giving it back restores the set of allocated bits.\<close>

lemma set1_set0_members:
  assumes "i < cap b" and "\<not> bitv b i" and "set1 b (int i) = Ok b'" and "set0 b' (int i) = Ok b''"
  shows "{j. j < cap b'' \<and> bitv b'' j} = {j. j < cap b \<and> bitv b j}"
  using set1_members [OF assms(1,3)] set0_members [of i b' b''] assms by auto

end

section \<open>The file system's bitmaps provide it\<close>

text \<open>
  In this bitmap bit 0 is the most significant bit of the first word. The shift count is
  \<open>31 - i\<close>, not \<open>31 - i % 32\<close>: only the first 32 bits can be addressed.
\<close>

definition bm_cap :: "bitmap_t \<Rightarrow> nat" where
  "bm_cap b = (if b = [] then 0 else 32)"

definition bm_bit :: "bitmap_t \<Rightarrow> nat \<Rightarrow> bool" where
  "bm_bit b i = bit (b ! 0) (31 - i)"

lemma shl1_ok: "i < 32 \<Longrightarrow> shl1 (31 - int i) = Ok (2 ^ (31 - i))"
  by (simp add: shl1_def nat_diff_distrib)

lemma arr_get_0: "b \<noteq> [] \<Longrightarrow> arr_get b 0 = Ok (b ! 0)"
  by (simp add: arr_get_def)

lemma and_exp_iff: "(w :: u32) AND 2 ^ k = 0 \<longleftrightarrow> \<not> bit w k"
  by (simp add: bit_iff_and_push_bit_not_eq_0)

lemma get_bitmap_eq: "i < bm_cap b \<Longrightarrow> get_bitmap b (int i) = Ok (of_bool (bm_bit b i))"
  by (auto simp: get_bitmap_def bm_cap_def bm_bit_def shl1_ok arr_get_0 and_exp_iff split: if_splits)

definition bm_set :: "bitmap_t \<Rightarrow> nat \<Rightarrow> bitmap_t" where
  "bm_set b i = b[0 := b ! 0 OR 2 ^ (31 - i)]"

definition bm_reset :: "bitmap_t \<Rightarrow> nat \<Rightarrow> bitmap_t" where
  "bm_reset b i = b[0 := b ! 0 AND NOT (2 ^ (31 - i))]"

lemma set_bitmap_eq: "i < bm_cap b \<Longrightarrow> set_bitmap b (int i) = Ok (bm_set b i)"
  by (auto simp: set_bitmap_def bm_cap_def bm_set_def shl1_ok arr_get_0 arr_set_def split: if_splits)

lemma reset_bitmap_eq: "i < bm_cap b \<Longrightarrow> reset_bitmap b (int i) = Ok (bm_reset b i)"
  by (auto simp: reset_bitmap_def bm_cap_def bm_reset_def shl1_ok arr_get_0 arr_set_def split: if_splits)

lemma bm_cap_set [simp]: "bm_cap (bm_set b i) = bm_cap b" "bm_cap (bm_reset b i) = bm_cap b"
  by (simp_all add: bm_cap_def bm_set_def bm_reset_def)

lemma length_bm_set [simp]: "length (bm_set b i) = length b" "length (bm_reset b i) = length b"
  by (simp_all add: bm_set_def bm_reset_def)

lemma bm_bit_set: "i < bm_cap b \<Longrightarrow> j < bm_cap b \<Longrightarrow> bm_bit (bm_set b i) j \<longleftrightarrow> j = i \<or> bm_bit b j"
  by (auto simp: bm_bit_def bm_set_def bm_cap_def bit_simps split: if_splits)

lemma bm_bit_reset: "i < bm_cap b \<Longrightarrow> j < bm_cap b \<Longrightarrow> bm_bit (bm_reset b i) j \<longleftrightarrow> j \<noteq> i \<and> bm_bit b j"
  by (auto simp: bm_bit_def bm_reset_def bm_cap_def bit_simps split: if_splits)

lemma bm_cap_le: "bm_cap b \<le> 32"
  by (simp add: bm_cap_def)

lemma bm_cap_length: "length b = 1 \<Longrightarrow> bm_cap b = 32"
  by (auto simp: bm_cap_def)

interpretation bm: bit_store get_bitmap set_bitmap reset_bitmap bm_cap bm_bit
  by unfold_locales
    (auto simp: get_bitmap_eq set_bitmap_eq reset_bitmap_eq bm_bit_set bm_bit_reset)

text \<open>Every access at or beyond bit 32 is undefined, on every bitmap.\<close>

lemma shl1_beyond: "32 \<le> i \<Longrightarrow> shl1 (31 - i) = Err Undefined"
  by (simp add: shl1_def)

lemma get_bitmap_beyond: "32 \<le> i \<Longrightarrow> get_bitmap b i = Err Undefined"
  by (simp add: get_bitmap_def shl1_beyond arr_get_def)

lemma set_bitmap_beyond: "32 \<le> i \<Longrightarrow> set_bitmap b i = Err Undefined"
  by (simp add: set_bitmap_def shl1_beyond arr_get_def)

lemma reset_bitmap_beyond: "32 \<le> i \<Longrightarrow> reset_bitmap b i = Err Undefined"
  by (simp add: reset_bitmap_def shl1_beyond arr_get_def)

lemma length_set_bitmap: "set_bitmap b i = Ok b' \<Longrightarrow> length b' = length b"
  by (auto simp: set_bitmap_def arr_set_Ok_iff)

lemma length_reset_bitmap: "reset_bitmap b i = Ok b' \<Longrightarrow> length b' = length b"
  by (auto simp: reset_bitmap_def arr_set_Ok_iff)


section \<open>Properties\<close>

text \<open>
  C21: in a one-word bitmap the search loop of the allocators returns the first clear bit among
  the first \<open>n\<close>, or -1 when all of them are set.
\<close>

theorem find_clear_first:
  assumes "length b = 1" and "n \<le> 32"
  shows "find_clear get_bitmap b 0 n = Ok (if \<forall>j < n. bm_bit b j then - 1 else int (LEAST j. \<not> bm_bit b j))"
proof -
  have cap: "n \<le> bm_cap b" using assms by (simp add: bm_cap_length)
  show ?thesis
  proof (cases "\<forall>j < n. bm_bit b j")
    case True
    then show ?thesis using bm.find_clear_full [OF cap] by simp
  next
    case False
    obtain r where r: "find_clear get_bitmap b 0 n = Ok r"
      using bm.find_clear_eq [of 0 n b] cap by simp
    then obtain k where k: "r = int k" "\<not> bm_bit b k" "\<forall>j < k. bm_bit b j"
      using bm.find_clear_Ok [OF cap r] False by blast
    have "(LEAST j. \<not> bm_bit b j) = k"
      using k(2,3) by (intro Least_equality) (auto simp: not_less [symmetric])
    then show ?thesis using r k(1) False by simp
  qed
qed

lemma find_clear_first_witness:
  "find_clear get_bitmap [0xC0000000] 0 32 = Ok (if \<forall>j < 32. bm_bit [0xC0000000] j then - 1
     else int (LEAST j. \<not> bm_bit [0xC0000000] j)) \<and> find_clear get_bitmap [0xC0000000] 0 32 = Ok 2"
proof (rule conjI)
  show "find_clear get_bitmap [0xC0000000] 0 32 = Ok (if \<forall>j < 32. bm_bit [0xC0000000] j then - 1
     else int (LEAST j. \<not> bm_bit [0xC0000000] j))"
    by (rule find_clear_first) simp_all
qed code_simp

text \<open>
  C22: every access to a bit at or beyond 32 is undefined behaviour, in every bitmap, because the
  shift count is \<open>31 - i\<close> and not \<open>31 - i % 32\<close>.
\<close>

theorem bitmap_beyond_32:
  assumes "32 \<le> i"
  shows "get_bitmap b i = Err Undefined \<and> set_bitmap b i = Err Undefined \<and> reset_bitmap b i = Err Undefined"
  using assms by (simp add: get_bitmap_beyond set_bitmap_beyond reset_bitmap_beyond)

lemma bitmap_beyond_32_witness:
  "get_bitmap [0, 0] 32 = Err Undefined \<and> set_bitmap [0, 0] 32 = Err Undefined \<and>
   reset_bitmap [0, 0] 32 = Err Undefined"
  by (rule bitmap_beyond_32) simp

end
