(* ===== verification/Pic.thy ===== *)
theory Pic
  imports Bitmap
begin

text \<open>
  Port input and output (kernel/include/kernel/utilities.h) and the driver of the two 8259
  interrupt controllers (kernel/arch/i386/pic.c). The devices behind the ports are a parameter:
  a function that answers a read from the history of port operations before it.
\<close>

section \<open>Ports (utilities.h)\<close>

datatype io_event = Out u16 byte | In u16 byte

text \<open>The history of the ports, oldest event first, and a machine's devices.\<close>

type_synonym io = "io_event list"
type_synonym devices = "io \<Rightarrow> u16 \<Rightarrow> byte"

definition outb :: "u16 \<Rightarrow> byte \<Rightarrow> io \<Rightarrow> io" where
  "outb port val h = h @ [Out port val]"

definition inb :: "devices \<Rightarrow> u16 \<Rightarrow> io \<Rightarrow> byte \<times> io" where
  "inb dev port h = (let ret = dev h port in (ret, h @ [In port ret]))"

definition io_wait :: "io \<Rightarrow> io" where
  "io_wait h = outb 0x80 0 h"

text \<open>The flags that \<open>pushf\<close> puts on the stack are the argument; bit 9 is the interrupt flag.\<close>

definition are_interrupts_enabled :: "u32 \<Rightarrow> int" where
  "are_interrupts_enabled flags = (if flags AND push_bit 9 1 \<noteq> 0 then 1 else 0)"

lemma are_interrupts_enabled_iff: "are_interrupts_enabled flags = of_bool (bit flags 9)"
  unfolding are_interrupts_enabled_def push_bit_of_1 by (simp only: and_exp_iff) simp

section \<open>The driver (pic.c)\<close>

definition PIC1_COMMAND :: u16 where "PIC1_COMMAND = 0x20"
definition PIC1_DATA :: u16 where "PIC1_DATA = 0x21"
definition PIC2_COMMAND :: u16 where "PIC2_COMMAND = 0xA0"
definition PIC2_DATA :: u16 where "PIC2_DATA = 0xA1"
definition ICW1_ICW4 :: byte where "ICW1_ICW4 = 0x01"
definition ICW1_INIT :: byte where "ICW1_INIT = 0x10"
definition ICW4_8086 :: byte where "ICW4_8086 = 0x01"
definition PIC_EOI :: byte where "PIC_EOI = 0x20"
definition PIC_READ_IRR :: int where "PIC_READ_IRR = 0x0a"
definition PIC_READ_ISR :: int where "PIC_READ_ISR = 0x0b"

lemmas pic_consts = PIC1_COMMAND_def PIC1_DATA_def PIC2_COMMAND_def PIC2_DATA_def ICW1_ICW4_def
  ICW1_INIT_def ICW4_8086_def PIC_EOI_def PIC_READ_IRR_def PIC_READ_ISR_def

definition PIC_remap :: "devices \<Rightarrow> int \<Rightarrow> int \<Rightarrow> io \<Rightarrow> io" where
  "PIC_remap dev offset1 offset2 h =
     (let (a1, h) = inb dev PIC1_DATA h;
          (a2, h) = inb dev PIC2_DATA h;
          h = io_wait (outb PIC1_COMMAND (ICW1_INIT OR ICW1_ICW4) h);
          h = io_wait (outb PIC2_COMMAND (ICW1_INIT OR ICW1_ICW4) h);
          h = io_wait (outb PIC1_DATA (of_int offset1) h);
          h = io_wait (outb PIC2_DATA (of_int offset2) h);
          h = io_wait (outb PIC1_DATA 4 h);
          h = io_wait (outb PIC2_DATA 2 h);
          h = io_wait (outb PIC1_DATA ICW4_8086 h);
          h = io_wait (outb PIC2_DATA ICW4_8086 h);
          h = outb PIC1_DATA a1 h
      in outb PIC2_DATA a2 h)"

definition PIC_disable :: "io \<Rightarrow> io" where
  "PIC_disable h = outb PIC2_DATA 0xff (outb PIC1_DATA 0xff h)"

definition PIC_sendEOI :: "byte \<Rightarrow> io \<Rightarrow> io" where
  "PIC_sendEOI irq h =
     (let h = (if 8 \<le> irq then outb PIC2_COMMAND PIC_EOI h else h)
      in outb PIC1_COMMAND PIC_EOI h)"

text \<open>The port of a line and its number there. \<open>1 << IRQline\<close> is undefined from 32 on.\<close>

definition irq_port :: "byte \<Rightarrow> u16 \<times> byte" where
  "irq_port IRQline = (if IRQline < 8 then (PIC1_DATA, IRQline) else (PIC2_DATA, IRQline - 8))"

definition IRQ_set_mask :: "devices \<Rightarrow> byte \<Rightarrow> io \<Rightarrow> io res" where
  "IRQ_set_mask dev IRQline h =
     (let (port, IRQline) = irq_port IRQline; (v, h) = inb dev port h
      in bindr (shl1 (uint IRQline)) (\<lambda>m. Ok (outb port (ucast ((ucast v :: u32) OR m)) h)))"

definition IRQ_clear_mask :: "devices \<Rightarrow> byte \<Rightarrow> io \<Rightarrow> io res" where
  "IRQ_clear_mask dev IRQline h =
     (let (port, IRQline) = irq_port IRQline; (v, h) = inb dev port h
      in bindr (shl1 (uint IRQline)) (\<lambda>m. Ok (outb port (ucast ((ucast v :: u32) AND NOT m)) h)))"

definition pic_get_irq_reg :: "devices \<Rightarrow> int \<Rightarrow> io \<Rightarrow> u16 \<times> io" where
  "pic_get_irq_reg dev ocw3 h =
     (let h = outb PIC1_COMMAND (of_int ocw3) h;
          h = outb PIC2_COMMAND (of_int ocw3) h;
          (hi, h) = inb dev PIC2_COMMAND h;
          (lo, h) = inb dev PIC1_COMMAND h
      in (push_bit 8 (ucast hi) OR ucast lo, h))"

definition PIC_get_irr :: "devices \<Rightarrow> io \<Rightarrow> u16 \<times> io" where
  "PIC_get_irr dev h = pic_get_irq_reg dev PIC_READ_IRR h"

definition PIC_get_isr :: "devices \<Rightarrow> io \<Rightarrow> u16 \<times> io" where
  "PIC_get_isr dev h = pic_get_irq_reg dev PIC_READ_ISR h"

section \<open>What one controller sees\<close>

text \<open>The bytes written to a port or a pair of ports, in order.\<close>

fun sent :: "u16 set \<Rightarrow> io \<Rightarrow> (u16 \<times> byte) list" where
  "sent ps [] = []"
| "sent ps (Out p v # h) = (if p \<in> ps then (p, v) # sent ps h else sent ps h)"
| "sent ps (In p v # h) = sent ps h"

lemma sent_append: "sent ps (h @ h') = sent ps h @ sent ps h'"
  by (induction ps h rule: sent.induct) auto

lemmas io_defs = outb_def inb_def io_wait_def

text \<open>
  A controller as its data sheet describes it: a command byte with bit 4 (ICW1) starts an
  initialisation, which takes the next three bytes at the data port and clears the mask; any
  other byte at the data port is the new mask. The state is the number of initialisation bytes
  still expected and the mask.
\<close>

type_synonym pic_state = "nat \<times> byte"

definition pic_step :: "u16 \<Rightarrow> u16 \<Rightarrow> io_event \<Rightarrow> pic_state \<Rightarrow> pic_state" where
  "pic_step cmd data e = (\<lambda>(n, mask). case e of
     In p v \<Rightarrow> (n, mask)
   | Out p v \<Rightarrow>
       if p = cmd \<and> bit v 4 then (3, 0)
       else if p = data then (if 0 < n then (n - 1, mask) else (0, v))
       else (n, mask))"

definition pic_state :: "u16 \<Rightarrow> u16 \<Rightarrow> byte \<Rightarrow> io \<Rightarrow> pic_state" where
  "pic_state cmd data m0 h = fold (pic_step cmd data) h (0, m0)"

lemma pic_state_snoc [simp]: "pic_state cmd data m0 (h @ [e]) = pic_step cmd data e (pic_state cmd data m0 h)"
  by (simp add: pic_state_def)

text \<open>The masks of the two controllers, from those \<open>m1\<close> and \<open>m2\<close> that the machine started with.\<close>

definition master :: "byte \<Rightarrow> io \<Rightarrow> pic_state" where "master m1 = pic_state PIC1_COMMAND PIC1_DATA m1"
definition slave :: "byte \<Rightarrow> io \<Rightarrow> pic_state" where "slave m2 = pic_state PIC2_COMMAND PIC2_DATA m2"

lemma master_snoc [simp]: "master m1 (h @ [e]) = pic_step PIC1_COMMAND PIC1_DATA e (master m1 h)"
  by (simp add: master_def)

lemma slave_snoc [simp]: "slave m2 (h @ [e]) = pic_step PIC2_COMMAND PIC2_DATA e (slave m2 h)"
  by (simp add: slave_def)

text \<open>
  The documented behaviour of the mask registers, a hypothesis on the devices: the data port of
  an initialised controller reads as its mask.
\<close>

definition masks_readable :: "byte \<Rightarrow> byte \<Rightarrow> devices \<Rightarrow> bool" where
  "masks_readable m1 m2 dev \<longleftrightarrow> (\<forall>h v. (master m1 h = (0, v) \<longrightarrow> dev h PIC1_DATA = v) \<and>
     (slave m2 h = (0, v) \<longrightarrow> dev h PIC2_DATA = v))"

text \<open>Both controllers are initialised; line \<open>k\<close> of the pair, 0 to 15, is masked.\<close>

definition pics_ready :: "byte \<Rightarrow> byte \<Rightarrow> io \<Rightarrow> bool" where
  "pics_ready m1 m2 h \<longleftrightarrow> fst (master m1 h) = 0 \<and> fst (slave m2 h) = 0"

definition line_masked :: "byte \<Rightarrow> byte \<Rightarrow> nat \<Rightarrow> io \<Rightarrow> bool" where
  "line_masked m1 m2 k h = (if k < 8 then bit (snd (master m1 h)) k else bit (snd (slave m2 h)) (k - 8))"

section \<open>Properties\<close>

text \<open>
  \<open>PIC_remap\<close> sends each controller the four initialisation words in the order of the data
  sheet, with the given vector offsets and the cascade on line 2, then the mask that it read
  before, and touches nothing else but the delay port.
\<close>

theorem PIC_remap_sequence:
  "\<exists>h'. PIC_remap dev offset1 offset2 h = h @ h' \<and>
     sent {PIC1_COMMAND, PIC1_DATA} h' = [(PIC1_COMMAND, 0x11), (PIC1_DATA, of_int offset1), (PIC1_DATA, 4),
       (PIC1_DATA, 1), (PIC1_DATA, dev h PIC1_DATA)] \<and>
     sent {PIC2_COMMAND, PIC2_DATA} h' = [(PIC2_COMMAND, 0x11), (PIC2_DATA, of_int offset2), (PIC2_DATA, 2),
       (PIC2_DATA, 1), (PIC2_DATA, dev (h @ [In PIC1_DATA (dev h PIC1_DATA)]) PIC2_DATA)] \<and>
     set (sent (- {PIC1_COMMAND, PIC1_DATA, PIC2_COMMAND, PIC2_DATA}) h') = {(0x80, 0)}"
  by (simp add: PIC_remap_def io_defs pic_consts Let_def)

lemma PIC_remap_masks:
  assumes "masks_readable m1 m2 dev" and "pics_ready m1 m2 h"
  shows "master m1 (PIC_remap dev offset1 offset2 h) = master m1 h \<and>
    slave m2 (PIC_remap dev offset1 offset2 h) = slave m2 h"
proof -
  have "dev h PIC1_DATA = snd (master m1 h)"
    using assms unfolding masks_readable_def pics_ready_def by (metis prod.collapse)
  moreover have "slave m2 (h @ [In PIC1_DATA x]) = slave m2 h" for x
    by (simp add: pic_step_def split: prod.split)
  then have "dev (h @ [In PIC1_DATA x]) PIC2_DATA = snd (slave m2 h)" for x
    using assms unfolding masks_readable_def pics_ready_def by (metis prod.collapse)
  moreover obtain a b where "master m1 h = (0, a)" "slave m2 h = (0, b)"
    using assms(2) unfolding pics_ready_def by (metis prod.collapse)
  ultimately show ?thesis
    by (simp add: PIC_remap_def io_defs Let_def pic_step_def pic_consts
        flip: append_assoc del: append_assoc)
qed

text \<open>
  C37: on controllers whose mask registers can be read back, \<open>PIC_remap\<close> leaves both of them
  initialised with the masks they had.
\<close>

theorem PIC_remap_keeps_masks:
  assumes "masks_readable m1 m2 dev" and "pics_ready m1 m2 h"
  shows "pics_ready m1 m2 (PIC_remap dev offset1 offset2 h) \<and>
    (\<forall>k. line_masked m1 m2 k (PIC_remap dev offset1 offset2 h) = line_masked m1 m2 k h)"
  using PIC_remap_masks [OF assms] assms(2) by (simp add: pics_ready_def line_masked_def)

text \<open>Devices with two such mask registers, for the witnesses.\<close>

definition pics :: devices where
  "pics h port = (if port = PIC1_DATA then snd (master 0 h) else if port = PIC2_DATA then snd (slave 0 h) else 0)"

lemma pics_readable: "masks_readable 0 0 pics"
  by (auto simp: masks_readable_def pics_def pic_consts)

lemma pics_start: "pics_ready 0 0 []"
  by (simp add: pics_ready_def master_def slave_def pic_state_def)

lemma PIC_remap_keeps_masks_witness:
  "pics_ready 0 0 (PIC_remap pics 0x20 0x28 []) \<and>
    (\<forall>k. line_masked 0 0 k (PIC_remap pics 0x20 0x28 []) = line_masked 0 0 k [])"
  by (rule PIC_remap_keeps_masks [OF pics_readable pics_start])

lemma uint_small: "k < 256 \<Longrightarrow> uint (of_nat k :: byte) = int k"
  by (simp add: uint_nat unat_of_nat)

lemma irq_port_of_nat:
  assumes "k < 16"
  shows "irq_port (of_nat k) = (if k < 8 then (PIC1_DATA, of_nat k) else (PIC2_DATA, of_nat (k - 8)))"
proof -
  have "(of_nat k :: byte) < 8 \<longleftrightarrow> k < 8"
    using assms by (simp add: word_less_nat_alt unat_of_nat)
  moreover have "8 \<le> k \<Longrightarrow> (of_nat k :: byte) - 8 = of_nat (k - 8)"
    by (simp add: of_nat_diff)
  ultimately show ?thesis by (simp add: irq_port_def)
qed

lemma shl1_small: "k < 8 \<Longrightarrow> shl1 (uint (of_nat k :: byte)) = Ok (push_bit k 1)"
  by (simp add: uint_small shl1_def)

lemma shl1_slave: "8 \<le> k \<Longrightarrow> k < 16 \<Longrightarrow> shl1 (uint (of_nat k - 8 :: byte)) = Ok (push_bit (k - 8) 1)"
  using shl1_small [of "k - 8"] by (simp add: of_nat_diff)

text \<open>The two mask operations as one new mask byte at the data port of the line.\<close>

lemma mask_bit:
  fixes v :: byte
  assumes "k < 8"
  shows "bit (ucast ((ucast v :: u32) OR 2 ^ k) :: byte) j \<longleftrightarrow> j = k \<or> bit v j"
    and "bit (ucast ((ucast v :: u32) AND NOT (2 ^ k)) :: byte) j \<longleftrightarrow> j \<noteq> k \<and> bit v j"
  using assms bit_imp_le_length [of v j] by (auto simp: bit_simps)

lemma ready_reads:
  assumes "masks_readable m1 m2 dev" and "pics_ready m1 m2 h"
  shows "dev h PIC1_DATA = snd (master m1 h)" and "dev h PIC2_DATA = snd (slave m2 h)"
  using assms unfolding masks_readable_def pics_ready_def by (metis prod.collapse)+

text \<open>A byte at a data port of an initialised controller is its new mask.\<close>

lemma write_mask:
  assumes "pics_ready m1 m2 h"
  shows "master m1 (h @ [In p x, Out PIC1_DATA v]) = (0, v)" and "slave m2 (h @ [In p x, Out PIC1_DATA v]) = slave m2 h"
    and "slave m2 (h @ [In p x, Out PIC2_DATA v]) = (0, v)" and "master m1 (h @ [In p x, Out PIC2_DATA v]) = master m1 h"
proof -
  obtain a b where "master m1 h = (0, a)" "slave m2 h = (0, b)"
    using assms unfolding pics_ready_def by (metis prod.collapse)
  moreover have "h @ [In p x, Out q v] = (h @ [In p x]) @ [Out q v]" for q by simp
  ultimately show "master m1 (h @ [In p x, Out PIC1_DATA v]) = (0, v)" "slave m2 (h @ [In p x, Out PIC1_DATA v]) = slave m2 h"
    "slave m2 (h @ [In p x, Out PIC2_DATA v]) = (0, v)" "master m1 (h @ [In p x, Out PIC2_DATA v]) = master m1 h"
    by (simp_all only: master_snoc slave_snoc) (simp_all add: pic_step_def pic_consts)
qed

text \<open>
  \<open>IRQ_set_mask\<close> masks its line and leaves the other fifteen as they are.
\<close>

theorem IRQ_set_mask_line:
  assumes "masks_readable m1 m2 dev" and "pics_ready m1 m2 h" and "k < 16"
  shows "\<exists>h'. IRQ_set_mask dev (of_nat k) h = Ok h' \<and> pics_ready m1 m2 h' \<and>
    (\<forall>l < 16. line_masked m1 m2 l h' \<longleftrightarrow> l = k \<or> line_masked m1 m2 l h)"
proof (cases "k < 8")
  case True
  then have "IRQ_set_mask dev (of_nat k) h = Ok (h @ [In PIC1_DATA (snd (master m1 h)), Out PIC1_DATA (ucast ((ucast (snd (master m1 h)) :: u32) OR push_bit k 1))])"
    using assms(3) ready_reads [OF assms(1,2)] by (simp add: IRQ_set_mask_def irq_port_of_nat shl1_small shl1_slave io_defs Let_def)
  then show ?thesis
    using True assms(2) by (auto simp: pics_ready_def line_masked_def write_mask [OF assms(2)] mask_bit)
next
  case False
  then have "IRQ_set_mask dev (of_nat k) h = Ok (h @ [In PIC2_DATA (snd (slave m2 h)), Out PIC2_DATA (ucast ((ucast (snd (slave m2 h)) :: u32) OR push_bit (k - 8) 1))])"
    using assms(3) ready_reads [OF assms(1,2)] by (simp add: IRQ_set_mask_def irq_port_of_nat shl1_small shl1_slave io_defs Let_def)
  moreover have "l - 8 = k - 8 \<longleftrightarrow> l = k" if "\<not> l < 8" for l using that False by auto
  ultimately show ?thesis
    using False assms(2,3) by (auto simp: pics_ready_def line_masked_def write_mask [OF assms(2)] mask_bit)
qed

lemma IRQ_set_mask_line_witness:
  "\<exists>h'. IRQ_set_mask pics (of_nat 9) [] = Ok h' \<and> pics_ready 0 0 h' \<and>
    (\<forall>l < 16. line_masked 0 0 l h' \<longleftrightarrow> l = 9 \<or> line_masked 0 0 l [])"
  by (rule IRQ_set_mask_line [OF pics_readable pics_start]) simp

text \<open>
  \<open>IRQ_clear_mask\<close> unmasks its line and leaves the other fifteen as they are.
\<close>

theorem IRQ_clear_mask_line:
  assumes "masks_readable m1 m2 dev" and "pics_ready m1 m2 h" and "k < 16"
  shows "\<exists>h'. IRQ_clear_mask dev (of_nat k) h = Ok h' \<and> pics_ready m1 m2 h' \<and>
    (\<forall>l < 16. line_masked m1 m2 l h' \<longleftrightarrow> l \<noteq> k \<and> line_masked m1 m2 l h)"
proof (cases "k < 8")
  case True
  then have "IRQ_clear_mask dev (of_nat k) h = Ok (h @ [In PIC1_DATA (snd (master m1 h)), Out PIC1_DATA (ucast ((ucast (snd (master m1 h)) :: u32) AND NOT (push_bit k 1)))])"
    using assms(3) ready_reads [OF assms(1,2)] by (simp add: IRQ_clear_mask_def irq_port_of_nat shl1_small shl1_slave io_defs Let_def)
  then show ?thesis
    using True assms(2) by (auto simp: pics_ready_def line_masked_def write_mask [OF assms(2)] mask_bit)
next
  case False
  then have "IRQ_clear_mask dev (of_nat k) h = Ok (h @ [In PIC2_DATA (snd (slave m2 h)), Out PIC2_DATA (ucast ((ucast (snd (slave m2 h)) :: u32) AND NOT (push_bit (k - 8) 1)))])"
    using assms(3) ready_reads [OF assms(1,2)] by (simp add: IRQ_clear_mask_def irq_port_of_nat shl1_small shl1_slave io_defs Let_def)
  moreover have "l - 8 = k - 8 \<longleftrightarrow> l = k" if "\<not> l < 8" for l using that False by auto
  ultimately show ?thesis
    using False assms(2,3) by (auto simp: pics_ready_def line_masked_def write_mask [OF assms(2)] mask_bit)
qed

lemma IRQ_clear_mask_line_witness:
  "\<exists>h'. IRQ_clear_mask pics (of_nat 0) (PIC_disable []) = Ok h' \<and> pics_ready 0 0 h' \<and>
    (\<forall>l < 16. line_masked 0 0 l h' \<longleftrightarrow> l \<noteq> 0 \<and> line_masked 0 0 l (PIC_disable []))"
proof (rule IRQ_clear_mask_line [OF pics_readable])
  show "pics_ready 0 0 (PIC_disable [])"
    by (simp add: PIC_disable_def io_defs pics_ready_def master_def slave_def pic_state_def pic_step_def pic_consts)
qed simp

text \<open>An end of interrupt acknowledges the slave only for its lines, and always the master.\<close>

lemma PIC_sendEOI_eq:
  "PIC_sendEOI irq h = h @ (if 8 \<le> irq then [Out PIC2_COMMAND 0x20] else []) @ [Out PIC1_COMMAND 0x20]"
  by (simp add: PIC_sendEOI_def io_defs pic_consts Let_def)

end
