(* ===== verification/Descr.thy ===== *)
theory Descr
  imports CArray
begin

text \<open>
  The descriptor tables: the segment descriptors of kernel/arch/i386/gdt.c and the interrupt
  gates and handler table of kernel/arch/i386/isr.c. The processor's reading of a descriptor
  gives the fields back that the code splits over it.
\<close>

section \<open>Segment descriptors (gdt.h, gdt.c)\<close>

record gdt_entry =
  limit_low :: u16
  base_low :: u16
  base_middle :: byte
  g_access :: byte
  granularity :: byte
  base_high :: byte

record table_ptr =
  tp_limit :: u16
  tp_base :: u32

text \<open>The tables and the pointers that the processor has loaded.\<close>

record gdt_state =
  gdt_entries :: "gdt_entry list"
  gdt_ptr :: table_ptr
  gdtr :: "table_ptr option"

definition zero_gdt_entry :: gdt_entry where
  "zero_gdt_entry = \<lparr>limit_low = 0, base_low = 0, base_middle = 0, g_access = 0, granularity = 0, base_high = 0\<rparr>"

definition gdt_set_gate :: "int \<Rightarrow> u32 \<Rightarrow> u32 \<Rightarrow> byte \<Rightarrow> byte \<Rightarrow> gdt_entry list \<Rightarrow> gdt_entry list res" where
  "gdt_set_gate num base limit acc gran es =
     bindr (arr_get es num) (\<lambda>e.
     let e = e\<lparr>base_low := ucast (base AND 0xFFFF)\<rparr>;
         e = e\<lparr>base_middle := ucast (drop_bit 16 base AND 0xFF)\<rparr>;
         e = e\<lparr>base_high := ucast (drop_bit 24 base AND 0xFF)\<rparr>;
         e = e\<lparr>limit_low := ucast (limit AND 0xFFFF)\<rparr>;
         e = e\<lparr>granularity := ucast (drop_bit 16 limit AND 0x0F)\<rparr>;
         e = e\<lparr>granularity := granularity e OR (gran AND 0xF0)\<rparr>;
         e = e\<lparr>g_access := acc\<rparr>
     in arr_set es num e)"

text \<open>\<open>gdt_addr\<close> is the address of the table. \<open>_gdt_flush\<close> loads the pointer into the processor.\<close>

definition init_gdt :: "u32 \<Rightarrow> gdt_state \<Rightarrow> gdt_state res" where
  "init_gdt gdt_addr g =
     (let ptr = \<lparr>tp_limit = of_nat (8 * length (gdt_entries g) - 1), tp_base = gdt_addr\<rparr> in
      bindr (gdt_set_gate 0 0 0 0 0 (gdt_entries g)) (\<lambda>es.
      bindr (gdt_set_gate 1 0 0xFFFF 0x9A 0xCF es) (\<lambda>es.
      bindr (gdt_set_gate 2 0 0xFFFF 0x92 0xCF es) (\<lambda>es.
      bindr (gdt_set_gate 3 0 0xFFFFFFFF 0xFA 0xCF es) (\<lambda>es.
      bindr (gdt_set_gate 4 0 0xFFFFFFFF 0xF2 0xCF es) (\<lambda>es.
      Ok \<lparr>gdt_entries = es, gdt_ptr = ptr, gdtr = Some ptr\<rparr>))))))"

section \<open>What the processor reads\<close>

definition seg_base :: "gdt_entry \<Rightarrow> u32" where
  "seg_base e = ucast (base_low e) OR push_bit 16 (ucast (base_middle e)) OR push_bit 24 (ucast (base_high e))"

definition seg_limit :: "gdt_entry \<Rightarrow> u32" where
  "seg_limit e = ucast (limit_low e) OR push_bit 16 (ucast (granularity e AND 0x0F))"

text \<open>The last offset inside the segment: bit 7 of the granularity byte counts the limit in pages.\<close>

definition seg_last :: "gdt_entry \<Rightarrow> nat" where
  "seg_last e = (if bit (granularity e) 7 then unat (seg_limit e) * 4096 + 4095 else unat (seg_limit e))"

definition seg_present :: "gdt_entry \<Rightarrow> bool" where
  "seg_present e \<longleftrightarrow> bit (g_access e) 7"

definition seg_dpl :: "gdt_entry \<Rightarrow> nat" where
  "seg_dpl e = unat (drop_bit 5 (g_access e) AND 3)"

section \<open>Interrupt gates (isr.h, isr.c)\<close>

record idt_entry =
  isr_low :: u16
  kernel_cs :: u16
  reserved :: byte
  attributes :: byte
  isr_high :: u16

record idt_state =
  idt :: "idt_entry list"
  idt_ptr :: table_ptr
  idtr :: "table_ptr option"
  if_flag :: bool

definition zero_idt_entry :: idt_entry where
  "zero_idt_entry = \<lparr>isr_low = 0, kernel_cs = 0, reserved = 0, attributes = 0, isr_high = 0\<rparr>"

definition idt_set_descriptor :: "byte \<Rightarrow> u32 \<Rightarrow> byte \<Rightarrow> idt_entry list \<Rightarrow> idt_entry list res" where
  "idt_set_descriptor vector isr flags es =
     bindr (arr_get es (uint vector)) (\<lambda>d.
     let d = d\<lparr>isr_low := ucast (isr AND 0xFFFF)\<rparr>;
         d = d\<lparr>kernel_cs := 0x08\<rparr>;
         d = d\<lparr>attributes := flags\<rparr>;
         d = d\<lparr>isr_high := ucast (drop_bit 16 isr)\<rparr>;
         d = d\<lparr>reserved := 0\<rparr>
     in arr_set es (uint vector) d)"

text \<open>
  \<open>isr_stub_table\<close> is the table of entry points that interrupt.S builds. The last two steps load
  the pointer and set the interrupt flag.
\<close>

definition init_idt :: "u32 \<Rightarrow> u32 list \<Rightarrow> idt_state \<Rightarrow> idt_state res" where
  "init_idt idt_addr isr_stub_table s =
     (let ptr = \<lparr>tp_limit = 8 * 256 - 1, tp_base = idt_addr\<rparr> in
      bindr (for_each (\<lambda>v es. bindr (arr_get isr_stub_table (int v)) (\<lambda>stub.
           idt_set_descriptor (of_nat v) stub 0x8E es)) [0..<256] (idt s)) (\<lambda>es.
      Ok \<lparr>idt = es, idt_ptr = ptr, idtr = Some ptr, if_flag = True\<rparr>))"

definition gate_offset :: "idt_entry \<Rightarrow> u32" where
  "gate_offset d = ucast (isr_low d) OR push_bit 16 (ucast (isr_high d))"

section \<open>The handler table (isr.c)\<close>

text \<open>The functions that the kernel registers.\<close>

datatype isr_t = Page_fault | Timer_callback

type_synonym handlers = "isr_t option list"

definition pre_init_idt :: "handlers \<Rightarrow> handlers res" where
  "pre_init_idt hs = for_each (\<lambda>i hs. arr_set hs (int i) None) [0..<256] hs"

definition register_int_handler :: "u32 \<Rightarrow> isr_t \<Rightarrow> handlers \<Rightarrow> handlers res" where
  "register_int_handler num h hs = arr_set hs (uint num) (Some h)"

section \<open>Properties\<close>

lemma low_bits:
  "(w :: u32) AND 0xFFFF = take_bit 16 w" "(w :: u32) AND 0xFF = take_bit 8 w" "(w :: u32) AND 0x0F = take_bit 4 w"
  "(b :: byte) AND 0x0F = take_bit 4 b" "(b :: byte) AND 0xF0 = b AND NOT (mask 4)"
proof -
  have "(0xF0 :: byte) = NOT (mask 4)" by (simp add: mask_eq_exp_minus_1)
  then show "(b :: byte) AND 0xF0 = b AND NOT (mask 4)" by (simp only:)
qed (simp_all add: take_bit_eq_mask mask_eq_exp_minus_1)

lemma split_base:
  "ucast (ucast (b AND 0xFFFF :: u32) :: u16) OR push_bit 16 (ucast (ucast (drop_bit 16 b AND 0xFF) :: byte))
     OR push_bit 24 (ucast (ucast (drop_bit 24 b AND 0xFF) :: byte)) = (b :: u32)"
  unfolding low_bits
proof (rule bit_eqI)
  fix n assume "possible_bit TYPE(u32) n"
  then have less: "n < 32" by simp
  consider "n < 16" | "16 \<le> n" "n < 24" | "24 \<le> n" by linarith
  then show "bit (ucast (ucast (take_bit 16 b) :: u16) OR push_bit 16 (ucast (ucast (take_bit 8 (drop_bit 16 b)) :: byte))
     OR push_bit 24 (ucast (ucast (take_bit 8 (drop_bit 24 b)) :: byte)) :: u32) n = bit b n"
    using less by cases (auto simp: bit_simps)
qed

lemma split_limit:
  "ucast (ucast (l AND 0xFFFF :: u32) :: u16) OR push_bit 16 (ucast (((ucast (drop_bit 16 l AND 0x0F) :: byte) OR (g AND 0xF0)) AND 0x0F))
     = (take_bit 20 l :: u32)"
  unfolding low_bits
proof (rule bit_eqI)
  fix n assume "possible_bit TYPE(u32) n"
  then have less: "n < 32" by simp
  consider "n < 16" | "16 \<le> n" "n < 20" | "20 \<le> n" by linarith
  then show "bit (ucast (ucast (take_bit 16 l) :: u16) OR push_bit 16 (ucast (take_bit 4 ((ucast (take_bit 4 (drop_bit 16 l)) :: byte) OR (g AND NOT (mask 4))))) :: u32) n = bit (take_bit 20 l) n"
    using less by cases (auto simp: bit_simps)
qed

lemma keep_high:
  "((ucast (drop_bit 16 (l :: u32) AND 0x0F) :: byte) OR (g AND 0xF0)) AND 0xF0 = g AND 0xF0"
  unfolding low_bits by (rule bit_eqI) (auto simp: bit_simps)

text \<open>
  C38: a segment descriptor that \<open>_gdt_set_gate\<close> writes reads back as the given base and access,
  the upper half of the given granularity byte and the low 20 bits of the limit, and the other
  descriptors are unchanged.
\<close>

theorem gdt_gate_roundtrip:
  assumes "n < length es"
  shows "\<exists>e. gdt_set_gate (int n) base limit acc gran es = Ok (es[n := e]) \<and>
    seg_base e = base \<and> seg_limit e = take_bit 20 limit \<and> g_access e = acc \<and>
    granularity e AND 0xF0 = gran AND 0xF0"
proof -
  let ?e = "(es ! n)\<lparr>base_low := ucast (base AND 0xFFFF), base_middle := ucast (drop_bit 16 base AND 0xFF),
    base_high := ucast (drop_bit 24 base AND 0xFF), limit_low := ucast (limit AND 0xFFFF),
    granularity := ucast (drop_bit 16 limit AND 0x0F) OR (gran AND 0xF0), g_access := acc\<rparr>"
  have "gdt_set_gate (int n) base limit acc gran es = Ok (es[n := ?e])"
    using assms by (simp add: gdt_set_gate_def Let_def)
  moreover have "seg_base ?e = base" "seg_limit ?e = take_bit 20 limit" "granularity ?e AND 0xF0 = gran AND 0xF0"
    by (simp_all add: seg_base_def seg_limit_def split_base split_limit keep_high)
  ultimately show ?thesis by (intro exI [of _ ?e]) simp
qed

lemma gdt_gate_roundtrip_witness:
  "\<exists>e. gdt_set_gate (int 1) 0x12345678 0xFFFF 0x9A 0xCF (replicate 5 zero_gdt_entry) = Ok ((replicate 5 zero_gdt_entry)[1 := e]) \<and>
    seg_base e = 0x12345678 \<and> seg_limit e = take_bit 20 0xFFFF \<and> g_access e = 0x9A \<and>
    granularity e AND 0xF0 = 0xCF AND 0xF0"
  by (rule gdt_gate_roundtrip) simp

lemma init_gdt_table:
  assumes "length (gdt_entries g) = 5"
  shows "\<exists>g'. init_gdt a g = Ok g' \<and> gdtr g' = Some \<lparr>tp_limit = 39, tp_base = a\<rparr> \<and>
    map seg_present (gdt_entries g') = [False, True, True, True, True] \<and>
    map seg_base (gdt_entries g') = [0, 0, 0, 0, 0] \<and>
    map seg_last (gdt_entries g') = [0, 2 ^ 28 - 1, 2 ^ 28 - 1, 2 ^ 32 - 1, 2 ^ 32 - 1] \<and>
    map seg_dpl (gdt_entries g') = [0, 0, 0, 3, 3]"
proof -
  obtain e0 e1 e2 e3 e4 where "gdt_entries g = [e0, e1, e2, e3, e4]"
    using assms by (auto simp: numeral_eq_Suc length_Suc_conv)
  then show ?thesis
    by (simp add: init_gdt_def gdt_set_gate_def arr_get_def arr_set_def seg_present_def seg_base_def
        seg_last_def seg_limit_def seg_dpl_def Let_def)
qed

text \<open>
  \<open>init_gdt\<close> loads a table of a null descriptor and four flat segments at base 0: code and
  data for ring 0, which end after 256 MB (their limit is 0xFFFF pages), and code and data for
  ring 3, which span the whole 4 GB.
\<close>

theorem init_gdt_segments:
  assumes "length (gdt_entries g) = 5"
  shows "\<exists>g'. init_gdt a g = Ok g' \<and> gdtr g' = Some \<lparr>tp_limit = 39, tp_base = a\<rparr> \<and>
    map seg_present (gdt_entries g') = [False, True, True, True, True] \<and>
    map seg_base (gdt_entries g') = [0, 0, 0, 0, 0] \<and>
    map seg_last (gdt_entries g') = [0, 2 ^ 28 - 1, 2 ^ 28 - 1, 2 ^ 32 - 1, 2 ^ 32 - 1] \<and>
    map seg_dpl (gdt_entries g') = [0, 0, 0, 3, 3]"
  using assms by (rule init_gdt_table)

lemma init_gdt_segments_witness:
  "\<exists>g'. init_gdt 0x100000 \<lparr>gdt_entries = replicate 5 zero_gdt_entry, gdt_ptr = \<lparr>tp_limit = 0, tp_base = 0\<rparr>, gdtr = None\<rparr> = Ok g' \<and>
    gdtr g' = Some \<lparr>tp_limit = 39, tp_base = 0x100000\<rparr> \<and>
    map seg_present (gdt_entries g') = [False, True, True, True, True] \<and>
    map seg_base (gdt_entries g') = [0, 0, 0, 0, 0] \<and>
    map seg_last (gdt_entries g') = [0, 2 ^ 28 - 1, 2 ^ 28 - 1, 2 ^ 32 - 1, 2 ^ 32 - 1] \<and>
    map seg_dpl (gdt_entries g') = [0, 0, 0, 3, 3]"
  by (rule init_gdt_segments) simp

definition int_gate :: "u32 \<Rightarrow> idt_entry" where
  "int_gate isr = \<lparr>isr_low = ucast isr, kernel_cs = 0x08, reserved = 0, attributes = 0x8E, isr_high = ucast (drop_bit 16 isr)\<rparr>"

lemma int_gate_fields [simp]: "kernel_cs (int_gate isr) = 0x08" "attributes (int_gate isr) = 0x8E"
  by (simp_all add: int_gate_def)

lemma gate_offset_int_gate [simp]: "gate_offset (int_gate isr) = isr"
proof (rule bit_eqI)
  fix n assume "possible_bit TYPE(u32) n"
  then have less: "n < 32" by simp
  consider "n < 16" | "16 \<le> n" by linarith
  then show "bit (gate_offset (int_gate isr)) n = bit isr n"
    using less by cases (auto simp: gate_offset_def int_gate_def bit_simps)
qed

lemma idt_set_descriptor_eq:
  assumes "v < 256" and "length es = 256"
  shows "idt_set_descriptor (of_nat v) isr 0x8E es = Ok (es[v := int_gate isr])"
proof -
  have "uint (of_nat v :: byte) = int v" using assms(1) by (simp add: uint_nat unat_of_nat)
  moreover have "(ucast (isr AND 0xFFFF :: u32) :: u16) = ucast isr"
    unfolding low_bits by (rule bit_eqI) (auto simp: bit_simps)
  moreover have "(es ! v)\<lparr>isr_low := ucast isr, kernel_cs := 8, attributes := 0x8E, isr_high := ucast (drop_bit 16 isr), reserved := 0\<rparr>
      = int_gate isr"
    by (simp add: int_gate_def)
  ultimately show ?thesis
    using assms by (simp add: idt_set_descriptor_def Let_def)
qed

lemma init_idt_eq:
  assumes "length (idt s) = 256" and "length stubs = 256"
  shows "init_idt a stubs s = Ok \<lparr>idt = map int_gate stubs, idt_ptr = \<lparr>tp_limit = 2047, tp_base = a\<rparr>,
    idtr = Some \<lparr>tp_limit = 2047, tp_base = a\<rparr>, if_flag = True\<rparr>"
proof -
  have "for_each (\<lambda>v es. bindr (arr_get stubs (int v)) (\<lambda>stub. idt_set_descriptor (of_nat v) stub 0x8E es)) [0..<n] (idt s)
      = Ok (map int_gate (take n stubs) @ drop n (idt s))" if "n \<le> 256" for n
    using that
  proof (induction n)
    case (Suc n)
    have "(map int_gate (take n stubs) @ drop n (idt s))[n := int_gate (stubs ! n)]
        = map int_gate (take (Suc n) stubs) @ drop (Suc n) (idt s)"
      using Suc.prems assms
      by (simp add: list_update_append take_Suc_conv_app_nth flip: Cons_nth_drop_Suc)
    then show ?case
      using Suc assms by (simp add: for_each_append idt_set_descriptor_eq)
  qed simp
  from this [of 256] show ?thesis
    using assms by (simp add: init_idt_def Let_def)
qed

text \<open>
  C39: after \<open>init_idt\<close> every one of the 256 vectors has a present 32-bit interrupt gate of ring 0
  to the stub of its number, through the kernel code segment, and the loaded limit covers the
  whole table.
\<close>

theorem init_idt_gates:
  assumes "length (idt s) = 256" and "length stubs = 256"
  shows "\<exists>s'. init_idt a stubs s = Ok s' \<and> idt s' = map int_gate stubs \<and> if_flag s' \<and>
    (\<forall>d \<in> set (idt s'). kernel_cs d = 0x08 \<and> attributes d = 0x8E) \<and> map gate_offset (idt s') = stubs \<and>
    idtr s' = Some \<lparr>tp_limit = of_nat (8 * length (idt s') - 1), tp_base = a\<rparr>"
  using assms by (auto simp: init_idt_eq comp_def)

lemma init_idt_gates_witness:
  "\<exists>s'. init_idt 0x2000 (map of_nat [0..<256]) \<lparr>idt = replicate 256 zero_idt_entry, idt_ptr = \<lparr>tp_limit = 0, tp_base = 0\<rparr>,
      idtr = None, if_flag = False\<rparr> = Ok s' \<and> idt s' = map int_gate (map of_nat [0..<256]) \<and> if_flag s' \<and>
    (\<forall>d \<in> set (idt s'). kernel_cs d = 0x08 \<and> attributes d = 0x8E) \<and>
    map gate_offset (idt s') = map of_nat [0..<256] \<and>
    idtr s' = Some \<lparr>tp_limit = of_nat (8 * length (idt s') - 1), tp_base = 0x2000\<rparr>"
  by (rule init_idt_gates) simp_all

section \<open>The handler table\<close>

lemma pre_init_idt_eq:
  assumes "length hs = 256"
  shows "pre_init_idt hs = Ok (replicate 256 None)"
proof -
  have "for_each (\<lambda>i hs. arr_set hs (int i) None) [0..<n] hs = Ok (replicate n None @ drop n hs)" if "n \<le> 256" for n
    using that
  proof (induction n)
    case (Suc n)
    have "(replicate n None @ drop n hs)[n := None] = replicate (Suc n) None @ drop (Suc n) hs"
      using Suc.prems assms
      by (simp add: list_update_append replicate_append_same flip: Cons_nth_drop_Suc)
    then show ?case
      using Suc assms by (simp add: for_each_append)
  qed simp
  from this [of 256] show ?thesis using assms by (simp add: pre_init_idt_def)
qed

lemma register_int_handler_eq:
  assumes "unat num < length hs"
  shows "register_int_handler num h hs = Ok (hs[unat num := Some h])"
  using assms by (simp only: register_int_handler_def uint_nat arr_set_ok bindr.simps)

end
