(* ===== verification/Vmm.thy ===== *)
theory Vmm
  imports Bitmap Descr
begin

text \<open>
  Physical memory and paging: kernel/arch/i386/pmm.c and vmm.c. The frame bitmap is shown to be a
  bitmap in the sense of the interface of Bitmap and its search to be the plain one; after
  \<open>init_paging\<close> the tables translate every address of the kernel to itself.
\<close>

section \<open>Pages, tables and the state (vmm.h)\<close>

text \<open>The bit fields of a page table entry.\<close>

record page_t =
  present :: "1 word"
  rw :: "1 word"
  user :: "1 word"
  accessed :: "1 word"
  dirty :: "1 word"
  unused :: "7 word"
  frame :: "20 word"

text \<open>A page directory; the entry 0 of \<open>tables\<close> is the null pointer.\<close>

record page_dir =
  tables :: "u32 list"
  phys_tables :: "u32 list"
  phys_addr :: u32

text \<open>
  The state: the object that \<open>frames\<close> points to, \<open>nframes\<close>, \<open>free_addr\<close>, the page tables in memory
  by address, the kernel directory with its address, and the two control registers that the
  assembly sets. A pointer to a page is the address of its table and the index in it.
\<close>

record vmm =
  frames :: "u32 list"
  nframes :: u32
  free_addr :: u32
  tables_at :: "u32 \<Rightarrow> page_t list option"
  kernel_dir :: page_dir
  kernel_dir_at :: u32
  cr3 :: u32
  paging_on :: bool

type_synonym page_ptr = "u32 \<times> nat"

definition zero_page :: page_t where
  "zero_page = \<lparr>present = 0, rw = 0, user = 0, accessed = 0, dirty = 0, unused = 0, frame = 0\<rparr>"

definition load_page :: "vmm \<Rightarrow> page_ptr \<Rightarrow> page_t res" where
  "load_page st = (\<lambda>(t, i). case tables_at st t of None \<Rightarrow> Err Undefined | Some ps \<Rightarrow> arr_get ps (int i))"

definition store_page :: "page_ptr \<Rightarrow> page_t \<Rightarrow> vmm \<Rightarrow> vmm res" where
  "store_page = (\<lambda>(t, i) pg st. case tables_at st t of None \<Rightarrow> Err Undefined
     | Some ps \<Rightarrow> bindr (arr_set ps (int i) pg) (\<lambda>ps. Ok (st\<lparr>tables_at := (tables_at st)(t \<mapsto> ps)\<rparr>)))"

section \<open>The placement allocator (pmm.c)\<close>

text \<open>The physical address that the caller may ask for is the returned one.\<close>

definition kmalloc :: "u32 \<Rightarrow> bool \<Rightarrow> vmm \<Rightarrow> u32 \<times> vmm" where
  "kmalloc sz align st =
     (let st = (if align \<and> free_addr st AND 0xFFF \<noteq> 0
            then st\<lparr>free_addr := (free_addr st AND 0xFFFFF000) + 0x1000\<rparr> else st);
          ret = free_addr st
      in (ret, st\<lparr>free_addr := free_addr st + sz\<rparr>))"

section \<open>The frame bitmap (vmm.c)\<close>

definition set_frame :: "u32 \<Rightarrow> u32 list \<Rightarrow> u32 list res" where
  "set_frame frame_addr fs =
     (let frame = frame_addr div 0x1000; idx = frame div 32; off = frame mod 32
      in bindr (arr_get fs (uint idx)) (\<lambda>w. bindr (shl1 (uint off)) (\<lambda>m. arr_set fs (uint idx) (w OR m))))"

definition clear_frame :: "u32 \<Rightarrow> u32 list \<Rightarrow> u32 list res" where
  "clear_frame frame_addr fs =
     (let frame = frame_addr div 0x1000; idx = frame div 32; off = frame mod 32
      in bindr (arr_get fs (uint idx)) (\<lambda>w. bindr (shl1 (uint off)) (\<lambda>m. arr_set fs (uint idx) (w AND NOT m))))"

definition test_frame :: "u32 \<Rightarrow> u32 list \<Rightarrow> u32 res" where
  "test_frame frame_addr fs =
     (let frame = frame_addr div 0x1000; idx = frame div 32; off = frame mod 32
      in bindr (arr_get fs (uint idx)) (\<lambda>w. bindr (shl1 (uint off)) (\<lambda>m. Ok (w AND m))))"

text \<open>The two loops of \<open>first_frame\<close>: the bits of a word that is not full, and the words.\<close>

primrec word_scan :: "u32 \<Rightarrow> nat \<Rightarrow> nat \<Rightarrow> nat option" where
  "word_scan w j 0 = None"
| "word_scan w j (Suc n) = (if w AND push_bit j 1 = 0 then Some j else word_scan w (Suc j) n)"

primrec frame_scan :: "u32 list \<Rightarrow> nat \<Rightarrow> nat \<Rightarrow> u32 res" where
  "frame_scan fs i 0 = Ok 0xFFFFFFFF"
| "frame_scan fs i (Suc n) = bindr (arr_get fs (int i)) (\<lambda>w.
     if w \<noteq> 0xFFFFFFFF
     then (case word_scan w 0 32 of Some j \<Rightarrow> Ok (of_nat i * 4 * 8 + of_nat j) | None \<Rightarrow> frame_scan fs (Suc i) n)
     else frame_scan fs (Suc i) n)"

definition first_frame :: "u32 \<Rightarrow> u32 list \<Rightarrow> u32 res" where
  "first_frame n fs = frame_scan fs 0 (unat (n div 32))"

section \<open>The page frame allocator (vmm.c)\<close>

definition pfa_alloc :: "page_ptr \<Rightarrow> u32 \<Rightarrow> u32 \<Rightarrow> vmm \<Rightarrow> vmm res" where
  "pfa_alloc p is_kernel is_writeable st =
     bindr (load_page st p) (\<lambda>pg.
     if present pg = 1 then Ok st
     else bindr (first_frame (nframes st) (frames st)) (\<lambda>idx.
       if idx = 0xFFFFFFFF then Err Aborted
       else bindr (set_frame (idx * 0x1000) (frames st)) (\<lambda>fs.
         store_page p (pg\<lparr>present := 1, rw := ucast is_writeable, user := (if is_kernel \<noteq> 0 then 0 else 1),
             frame := ucast idx\<rparr>) (st\<lparr>frames := fs\<rparr>))))"

text \<open>The argument of \<open>clear_frame\<close> is the frame number of the page, not its address.\<close>

definition pfa_free :: "page_ptr \<Rightarrow> vmm \<Rightarrow> vmm res" where
  "pfa_free p st =
     bindr (load_page st p) (\<lambda>pg.
     if present pg \<noteq> 0
     then bindr (clear_frame (ucast (frame pg)) (frames st)) (\<lambda>fs.
       store_page p (pg\<lparr>present := 0\<rparr>) (st\<lparr>frames := fs\<rparr>))
     else Ok st)"

section \<open>Paging (vmm.c)\<close>

text \<open>\<open>get_page\<close> on the kernel directory, the only one that its callers pass.\<close>

definition get_page :: "u32 \<Rightarrow> bool \<Rightarrow> vmm \<Rightarrow> (page_ptr option \<times> vmm) res" where
  "get_page addr mk st =
     (let addr = addr div 0x1000; table_idx = addr div 1024 in
      bindr (arr_get (tables (kernel_dir st)) (uint table_idx)) (\<lambda>t.
      if t \<noteq> 0 then Ok (Some (t, unat (addr mod 1024)), st)
      else if mk
      then (let (t, st) = kmalloc 4096 True st;
                st = st\<lparr>tables_at := (tables_at st)(t \<mapsto> replicate 1024 zero_page)\<rparr>
            in bindr (arr_set (tables (kernel_dir st)) (uint table_idx) t) (\<lambda>ts.
               bindr (arr_set (phys_tables (kernel_dir st)) (uint table_idx) (t OR 0x7)) (\<lambda>pts.
               Ok (Some (t, unat (addr mod 1024)),
                 st\<lparr>kernel_dir := kernel_dir st\<lparr>tables := ts, phys_tables := pts\<rparr>\<rparr>))))
      else Ok (None, st)))"

definition switch_page_dir :: "vmm \<Rightarrow> vmm" where
  "switch_page_dir st = st\<lparr>cr3 := kernel_dir_at st + 4096\<rparr>"

text \<open>
  The loop over the pages below \<open>free_addr\<close>, which its body moves. It may run forever when the
  address wraps around: then its value is None.
\<close>

partial_function (option) map_kernel :: "u32 \<Rightarrow> vmm \<Rightarrow> vmm res option" where
  "map_kernel i st =
     (if i < free_addr st
      then (case get_page i True st of Err e \<Rightarrow> Some (Err e)
        | Ok (pg, st) \<Rightarrow> (case pg of None \<Rightarrow> Some (Err Undefined)
          | Some p \<Rightarrow> (case pfa_alloc p 0 0 st of Err e \<Rightarrow> Some (Err e)
            | Ok st \<Rightarrow> map_kernel (i + 0x1000) st)))
      else Some (Ok st))"

definition MEM_SIZE :: u32 where "MEM_SIZE = 0x1000000"
definition PAGE_SIZE :: u32 where "PAGE_SIZE = 0x1000"

text \<open>
  \<open>init_paging\<close>: \<open>INDEX_FROM_BIT(nframes)\<close> is 128, the size in bytes of the allocated and cleared
  bitmap. The handler table is that of isr.c.
\<close>

definition init_frames :: "vmm \<Rightarrow> vmm" where
  "init_frames st =
     (let st = st\<lparr>nframes := MEM_SIZE div PAGE_SIZE\<rparr>;
          st = snd (kmalloc (nframes st div 32) False st);
          st = st\<lparr>frames := replicate (unat (nframes st div 32) div 4) 0\<rparr>;
          (dir, st) = kmalloc 8196 True st
      in st\<lparr>kernel_dir := \<lparr>tables = replicate 1024 0, phys_tables = replicate 1024 0, phys_addr = 0\<rparr>,
            kernel_dir_at := dir\<rparr>)"

definition init_paging :: "handlers \<Rightarrow> vmm \<Rightarrow> (handlers \<times> vmm) res option" where
  "init_paging hs st =
     map_option (\<lambda>r. bindr r (\<lambda>st.
       bindr (register_int_handler 14 Page_fault hs) (\<lambda>hs.
       Ok (hs, (switch_page_dir st)\<lparr>paging_on := True\<rparr>)))) (map_kernel 0 (init_frames st))"

text \<open>\<open>malloc\<close> of pmm.c: fresh pages from the kernel directory.\<close>

partial_function (option) malloc_pages :: "u32 \<Rightarrow> u32 \<Rightarrow> vmm \<Rightarrow> vmm res option" where
  "malloc_pages j limit st =
     (if j < limit
      then (case get_page j True st of Err e \<Rightarrow> Some (Err e)
        | Ok (pg, st) \<Rightarrow> (case pg of None \<Rightarrow> Some (Err Aborted)
          | Some p \<Rightarrow> (case load_page st p of Err e \<Rightarrow> Some (Err e)
            | Ok page \<Rightarrow>
              (case (if present page = 0 then pfa_alloc p 0 0 st else Ok st) of Err e \<Rightarrow> Some (Err e)
               | Ok st \<Rightarrow> malloc_pages (j + PAGE_SIZE) limit st))))
      else Some (Ok st))"

definition malloc :: "u32 \<Rightarrow> vmm \<Rightarrow> (u32 \<times> vmm) res option" where
  "malloc sz st = (let (ret, st) = kmalloc sz True st in
     map_option (\<lambda>r. bindr r (\<lambda>st. Ok (ret, st))) (malloc_pages ret (sz + ret) st))"

section \<open>What the processor reads\<close>

text \<open>The 32-bit entry that the bit fields make, in GCC's layout on i386.\<close>

definition page_word :: "page_t \<Rightarrow> u32" where
  "page_word p = ucast (present p) OR push_bit 1 (ucast (rw p)) OR push_bit 2 (ucast (user p))
     OR push_bit 3 (ucast (accessed p)) OR push_bit 4 (ucast (dirty p)) OR push_bit 5 (ucast (unused p))
     OR push_bit 12 (ucast (frame p))"

text \<open>
  The translation of the processor with paging on: directory entry, page table entry, offset.
  None is a page fault.
\<close>

definition translate :: "vmm \<Rightarrow> u32 \<Rightarrow> u32 option" where
  "translate st a =
     (let pde = phys_tables (kernel_dir st) ! unat (drop_bit 22 a)
      in if \<not> bit pde 0 then None
         else (case tables_at st (pde AND NOT 0xFFF) of None \<Rightarrow> None
           | Some ps \<Rightarrow>
             (let pte = page_word (ps ! unat (take_bit 10 (drop_bit 12 a)))
              in if \<not> bit pte 0 then None else Some ((pte AND NOT 0xFFF) OR (a AND 0xFFF)))))"

section \<open>The frame bitmap is a bitmap\<close>

definition frame_bit :: "u32 list \<Rightarrow> nat \<Rightarrow> bool" where
  "frame_bit fs k = bit (fs ! (k div 32)) (k mod 32)"

definition frame_cap :: "u32 list \<Rightarrow> nat" where
  "frame_cap fs = min (32 * length fs) (2 ^ 20)"

lemma unat_frame_addr: "k < 2 ^ 20 \<Longrightarrow> unat ((of_nat k :: u32) * 0x1000) = k * 4096"
  by (simp add: unat_word_ariths unat_of_nat)

lemma frame_index:
  assumes "k < 2 ^ 20"
  shows "uint ((of_nat k * 0x1000 :: u32) div 0x1000 div 32) = int (k div 32)"
    and "uint ((of_nat k * 0x1000 :: u32) div 0x1000 mod 32) = int (k mod 32)"
  using unat_frame_addr [OF assms]
  by (simp_all only: uint_nat unat_div unat_mod) simp_all

lemma shl1_mod: "shl1 (int (k mod 32)) = Ok (2 ^ (k mod 32))"
  by (simp add: shl1_def nat_mod_distrib)

lemmas frame_simps = frame_index shl1_mod Let_def

definition frame_with :: "u32 list \<Rightarrow> nat \<Rightarrow> u32 list" where
  "frame_with fs k = fs[k div 32 := fs ! (k div 32) OR 2 ^ (k mod 32)]"

definition frame_without :: "u32 list \<Rightarrow> nat \<Rightarrow> u32 list" where
  "frame_without fs k = fs[k div 32 := fs ! (k div 32) AND NOT (2 ^ (k mod 32))]"

lemma length_frame_with [simp]: "length (frame_with fs k) = length fs" "length (frame_without fs k) = length fs"
  by (simp_all add: frame_with_def frame_without_def)

lemma frame_capD: "k < frame_cap fs \<Longrightarrow> k < 2 ^ 20 \<and> k div 32 < length fs"
  by (auto simp: frame_cap_def less_mult_imp_div_less mult.commute)

lemma set_frame_eq: "k < frame_cap fs \<Longrightarrow> set_frame (of_nat k * 0x1000) fs = Ok (frame_with fs k)"
  using frame_capD [of k fs] by (simp add: set_frame_def frame_simps frame_with_def del: of_nat_div of_nat_mod)

lemma clear_frame_eq: "k < frame_cap fs \<Longrightarrow> clear_frame (of_nat k * 0x1000) fs = Ok (frame_without fs k)"
  using frame_capD [of k fs] by (simp add: clear_frame_def frame_simps frame_without_def del: of_nat_div of_nat_mod)

lemma test_frame_eq:
  "k < frame_cap fs \<Longrightarrow> test_frame (of_nat k * 0x1000) fs = Ok (fs ! (k div 32) AND 2 ^ (k mod 32))"
  using frame_capD [of k fs] by (simp add: test_frame_def frame_simps del: of_nat_div of_nat_mod)

lemma div_mod_32: "j div 32 = k div 32 \<Longrightarrow> j mod 32 = k mod 32 \<Longrightarrow> j = (k :: nat)"
  by (metis div_mult_mod_eq)

lemma frame_bit_with:
  assumes "k < frame_cap fs"
  shows "frame_bit (frame_with fs k) j \<longleftrightarrow> j = k \<or> frame_bit fs j"
    and "frame_bit (frame_without fs k) j \<longleftrightarrow> j \<noteq> k \<and> frame_bit fs j"
proof -
  have k: "k div 32 < length fs" using frame_capD [OF assms] by blast
  have "frame_bit (frame_with fs k) j = (j = k \<or> frame_bit fs j) \<and>
    frame_bit (frame_without fs k) j = (j \<noteq> k \<and> frame_bit fs j)"
  proof (cases "j div 32 = k div 32")
    case True
    then have "j mod 32 = k mod 32 \<longleftrightarrow> j = k" using div_mod_32 by blast
    then show ?thesis
      using True k by (auto simp: frame_bit_def frame_with_def frame_without_def bit_simps)
  next
    case False
    then have "j \<noteq> k" by blast
    then show ?thesis using False by (simp add: frame_bit_def frame_with_def frame_without_def)
  qed
  then show "frame_bit (frame_with fs k) j \<longleftrightarrow> j = k \<or> frame_bit fs j"
    "frame_bit (frame_without fs k) j \<longleftrightarrow> j \<noteq> k \<and> frame_bit fs j"
    by blast+
qed

lemma frame_cap_with [simp]: "frame_cap (frame_with fs k) = frame_cap fs" "frame_cap (frame_without fs k) = frame_cap fs"
  by (simp_all add: frame_cap_def)

text \<open>The test as a 0-1 value, over a frame number.\<close>

definition get_frame_bit :: "u32 list \<Rightarrow> int \<Rightarrow> int res" where
  "get_frame_bit fs i = bindr (test_frame (of_int i * 0x1000) fs) (\<lambda>w. Ok (if w \<noteq> 0 then 1 else 0))"

lemma get_frame_bit_eq: "k < frame_cap fs \<Longrightarrow> get_frame_bit fs (int k) = Ok (of_bool (frame_bit fs k))"
  by (simp add: get_frame_bit_def test_frame_eq and_exp_iff frame_bit_def)

interpretation fr: bit_store get_frame_bit "\<lambda>fs i. set_frame (of_int i * 0x1000) fs"
    "\<lambda>fs i. clear_frame (of_int i * 0x1000) fs" frame_cap frame_bit
  by unfold_locales
    (auto simp: get_frame_bit_eq set_frame_eq clear_frame_eq frame_bit_with)

section \<open>The search for a free frame\<close>

lemma word_scan_eq: "word_scan w j n = (case filter (\<lambda>k. \<not> bit w k) [j..<j + n] of [] \<Rightarrow> None | k # _ \<Rightarrow> Some k)"
proof (induction n arbitrary: j)
  case (Suc n)
  then show ?case
    using Suc.IH [of "Suc j"] by (simp add: upt_conv_Cons and_exp_iff del: upt_Suc)
qed simp

lemma full_word: "w = (0xFFFFFFFF :: u32) \<longleftrightarrow> (\<forall>k < 32. bit w k)"
proof -
  have "(0xFFFFFFFF :: u32) = mask 32" by (simp add: mask_eq_exp_minus_1)
  then show ?thesis by (auto simp: bit_eq_iff bit_simps)
qed

lemma filter_frames:
  "filter (\<lambda>k. \<not> frame_bit fs k) [i * 32..<i * 32 + 32] = map (\<lambda>j. i * 32 + j) (filter (\<lambda>j. \<not> bit (fs ! i) j) [0..<32])"
proof -
  have "[i * 32..<i * 32 + 32] = map (\<lambda>j. i * 32 + j) [0..<32]"
    using map_add_upt [of "i * 32" 32] by (simp add: add.commute)
  moreover have "filter (\<lambda>k. \<not> frame_bit fs k) (map (\<lambda>j. i * 32 + j) [0..<32])
      = map (\<lambda>j. i * 32 + j) (filter (\<lambda>j. \<not> bit (fs ! i) j) [0..<32])"
    unfolding filter_map comp_def by (intro arg_cong [where f = "map _"] filter_cong) (auto simp: frame_bit_def)
  ultimately show ?thesis by simp
qed

text \<open>The free frames below the end of the bitmap, in order.\<close>

definition free_frames :: "u32 list \<Rightarrow> nat list" where
  "free_frames fs = filter (\<lambda>k. \<not> frame_bit fs k) [0..<32 * length fs]"

lemma upt_split: "a \<le> b \<Longrightarrow> b \<le> c \<Longrightarrow> [a..<c] = [a..<b] @ [b..<c]"
  by (metis le_add_diff_inverse upt_add_eq_append)

lemma frame_scan_eq:
  assumes "i \<le> length fs" and "length fs \<le> 2 ^ 15"
  shows "frame_scan fs i n =
    (case filter (\<lambda>k. \<not> frame_bit fs k) [i * 32..<32 * min (i + n) (length fs)] of
       k # _ \<Rightarrow> Ok (of_nat k)
     | [] \<Rightarrow> if i + n \<le> length fs then Ok 0xFFFFFFFF else Err Undefined)"
  using assms
proof (induction n arbitrary: i)
  case (Suc n)
  show ?case
  proof (cases "i < length fs")
    case False
    then have "i = length fs" using Suc.prems by simp
    then show ?thesis by (simp add: arr_get_def mult.commute)
  next
    case True
    define top where "top = min (i + Suc n) (length fs)"
    have IH: "frame_scan fs (Suc i) n = (case filter (\<lambda>k. \<not> frame_bit fs k) [Suc i * 32..<32 * top] of
         k # _ \<Rightarrow> Ok (of_nat k) | [] \<Rightarrow> if i + Suc n \<le> length fs then Ok 0xFFFFFFFF else Err Undefined)"
      using Suc.IH [of "Suc i"] Suc.prems(2) True by (simp only: top_def add_Suc add_Suc_right Suc_leI simp_thms)
    have "Suc i * 32 \<le> 32 * top" using True by (simp add: top_def min_def)
    moreover have "i * 32 + 32 = Suc i * 32" by simp
    ultimately have "[i * 32..<32 * top] = [i * 32..<i * 32 + 32] @ [Suc i * 32..<32 * top]"
      by (metis upt_split le_add1)
    then have split: "filter (\<lambda>k. \<not> frame_bit fs k) [i * 32..<32 * top]
        = map (\<lambda>j. i * 32 + j) (filter (\<lambda>j. \<not> bit (fs ! i) j) [0..<32]) @ filter (\<lambda>k. \<not> frame_bit fs k) [Suc i * 32..<32 * top]"
      by (simp only: filter_append filter_frames)
    have get: "arr_get fs (int i) = Ok (fs ! i)" using True by simp
    show ?thesis
    proof (cases "fs ! i = 0xFFFFFFFF")
      case full: True
      then have "filter (\<lambda>j. \<not> bit (fs ! i) j) [0..<32] = []"
        using full_word [of "fs ! i"] by (simp add: filter_empty_conv)
      then show ?thesis
        by (simp only: frame_scan.simps get bindr.simps full if_False not_True_eq_False simp_thms top_def [symmetric] split IH list.map append.simps)
    next
      case False
      then have "filter (\<lambda>j. \<not> bit (fs ! i) j) [0..<32] \<noteq> []"
        using full_word [of "fs ! i"] by (auto simp: filter_empty_conv)
      then obtain j js where j: "filter (\<lambda>j. \<not> bit (fs ! i) j) [0..<32] = j # js" by (cases "filter (\<lambda>j. \<not> bit (fs ! i) j) [0..<32]") auto
      then have "word_scan (fs ! i) 0 32 = Some j" by (simp add: word_scan_eq)
      then show ?thesis
        using False unfolding frame_scan.simps get bindr.simps top_def [symmetric] split j
        by (simp add: mult.commute)
    qed
  qed
qed simp

lemma first_frame_eq:
  assumes "unat (n div 32) = w" and "length fs \<le> 2 ^ 15"
  shows "first_frame n fs = (case filter (\<lambda>k. \<not> frame_bit fs k) [0..<32 * min w (length fs)] of
    k # _ \<Rightarrow> Ok (of_nat k) | [] \<Rightarrow> if w \<le> length fs then Ok 0xFFFFFFFF else Err Undefined)"
  using frame_scan_eq [of 0 fs w] assms by (simp add: first_frame_def)

text \<open>
  C31: when the bitmap is as long as the number of frames says (the one that \<open>init_paging\<close> makes is shorter), the search that skips full words
  returns what the plain search bit by bit returns: the first free frame, or all ones.
\<close>

theorem first_frame_plain:
  assumes "length fs = unat (n div 32)" and "length fs \<le> 2 ^ 15"
  shows "first_frame n fs = bindr (find_clear get_frame_bit fs 0 (32 * length fs)) (\<lambda>i. Ok (of_int i))"
proof -
  have "0 + 32 * length fs \<le> frame_cap fs" using assms(2) by (simp add: frame_cap_def)
  then have "find_clear get_frame_bit fs 0 (32 * length fs) = Ok (first_of (filter (\<lambda>k. \<not> frame_bit fs k) [0..<32 * length fs]))"
    using fr.find_clear_eq [of 0 "32 * length fs" fs] by simp
  then show ?thesis
    using first_frame_eq [OF assms(1) [symmetric] assms(2)] assms(1)
    by (simp add: first_of_def split: list.split)
qed

lemma first_frame_plain_witness:
  "first_frame 64 [0xFFFFFFFF, 0x0000000F] = bindr (find_clear get_frame_bit [0xFFFFFFFF, 0x0000000F] 0 (32 * length [0xFFFFFFFF, 0x0000000F :: u32])) (\<lambda>i. Ok (of_int i))"
  by (rule first_frame_plain) simp_all

section \<open>Allocation and release of frames\<close>

lemma bit_field [simp]: "(w :: 1 word) \<noteq> 0 \<longleftrightarrow> w = 1"
proof -
  have "w = (if bit w 0 then 1 else 0)"
    by (rule bit_eqI) (auto simp: bit_simps)
  then show ?thesis by (metis zero_neq_one)
qed

lemma unat_frame: "unat (ucast (f :: 20 word) :: u32) = unat f"
proof -
  have "unat f < 2 ^ 20" using unsigned_less [of f] by simp
  then show ?thesis by (simp add: unsigned_ucast_eq take_bit_nat_eq_self_iff)
qed

text \<open>The state at a page of a table.\<close>

lemma load_page_eq: "tables_at st t = Some ps \<Longrightarrow> i < length ps \<Longrightarrow> load_page st (t, i) = Ok (ps ! i)"
  by (simp add: load_page_def)

lemma store_page_eq:
  "tables_at st t = Some ps \<Longrightarrow> i < length ps \<Longrightarrow>
   store_page (t, i) pg st = Ok (st\<lparr>tables_at := (tables_at st)(t \<mapsto> ps[i := pg])\<rparr>)"
  by (simp add: store_page_def)

lemma pfa_alloc_eq:
  assumes "tables_at st t = Some ps" and "i < length ps" and "present (ps ! i) = 0"
    and "first_frame (nframes st) (frames st) = Ok (of_nat k)" and "k < frame_cap (frames st)"
  shows "pfa_alloc (t, i) 0 0 st = Ok (st\<lparr>frames := frame_with (frames st) k,
    tables_at := (tables_at st)(t \<mapsto> ps[i := (ps ! i)\<lparr>present := 1, rw := 0, user := 1, frame := of_nat k\<rparr>])\<rparr>)"
proof -
  have "k < 2 ^ 20" using frame_capD [OF assms(5)] by blast
  then have ne: "(of_nat k :: u32) \<noteq> 0xFFFFFFFF"
    by (simp add: word_unat_eq_iff unat_of_nat)
  have "(ucast (of_nat k :: u32) :: 20 word) = of_nat k"
    by (rule bit_eqI) (simp add: bit_simps)
  then show ?thesis
    using assms ne by (simp add: pfa_alloc_def load_page_eq store_page_eq set_frame_eq)
qed

text \<open>Clearing the bit of a small address that is a frame number clears the bit of frame 0.\<close>

lemma clear_page_frame:
  assumes "unat (n :: 20 word) < 4096" and "fs \<noteq> []"
  shows "clear_frame (ucast n) fs = Ok (frame_without fs 0)"
proof -
  have "(ucast n :: u32) div 0x1000 = 0"
    using assms(1) by (simp add: word_unat_eq_iff unat_div unat_frame)
  then have "clear_frame (ucast n) fs = clear_frame (of_nat 0 * 0x1000) fs"
    by (simp add: clear_frame_def)
  also have "0 < frame_cap fs" using assms(2) by (simp add: frame_cap_def)
  then have "clear_frame (of_nat 0 * 0x1000) fs = Ok (frame_without fs 0)"
    by (rule clear_frame_eq)
  finally show ?thesis .
qed

text \<open>
  C30: releasing a page does not release its frame. \<open>pfa_free\<close> gives \<open>clear_frame\<close> the frame number
  where it expects an address, so for every frame below 4096 the page is unmapped, frame 0 becomes
  free, and every other frame, the page's own unless that is frame 0, keeps its state.
\<close>

theorem pfa_free_wrong_frame:
  assumes "load_page st p = Ok pg" and "present pg = 1" and "unat (frame pg) < 4096" and "frames st \<noteq> []"
  shows "\<exists>st'. pfa_free p st = Ok st' \<and> load_page st' p = Ok (pg\<lparr>present := 0\<rparr>) \<and>
    (\<forall>k. frame_bit (frames st') k \<longleftrightarrow> k \<noteq> 0 \<and> frame_bit (frames st) k)"
proof -
  obtain t i where p: "p = (t, i)" by (cases p)
  obtain ps where ps: "tables_at st t = Some ps" "i < length ps" "ps ! i = pg"
    using assms(1) by (auto simp: p load_page_def arr_get_Ok_iff split: option.splits)
  have "pfa_free p st = Ok (st\<lparr>frames := frame_without (frames st) 0, tables_at := (tables_at st)(t \<mapsto> ps[i := pg\<lparr>present := 0\<rparr>])\<rparr>)"
    using clear_page_frame [OF assms(3,4)] assms(2) ps by (simp add: p pfa_free_def load_page_eq store_page_eq)
  moreover have "0 < frame_cap (frames st)" using assms(4) by (simp add: frame_cap_def)
  ultimately show ?thesis
    using ps by (simp add: p load_page_eq frame_bit_with)
qed

definition one_page_state :: vmm where
  "one_page_state = \<lparr>frames = [3], nframes = 32, free_addr = 0, tables_at = [0x1000 \<mapsto> [zero_page\<lparr>present := 1, frame := 1\<rparr>]],
     kernel_dir = \<lparr>tables = [], phys_tables = [], phys_addr = 0\<rparr>, kernel_dir_at = 0, cr3 = 0, paging_on = False\<rparr>"

lemma pfa_free_wrong_frame_witness:
  "\<exists>st'. pfa_free (0x1000, 0) one_page_state = Ok st' \<and>
    load_page st' (0x1000, 0) = Ok (zero_page\<lparr>present := 1, frame := 1\<rparr>\<lparr>present := 0\<rparr>) \<and>
    (\<forall>k. frame_bit (frames st') k \<longleftrightarrow> k \<noteq> 0 \<and> frame_bit (frames one_page_state) k)"
  by (rule pfa_free_wrong_frame) (simp_all add: one_page_state_def load_page_eq)

section \<open>Identity mapping\<close>

text \<open>The page that \<open>pfa_alloc(page, 0, 0)\<close> makes of a cleared one.\<close>

definition mapped_page :: "nat \<Rightarrow> page_t" where
  "mapped_page k = zero_page\<lparr>present := 1, rw := 0, user := 1, frame := of_nat k\<rparr>"

text \<open>
  The first \<open>n\<close> pages are mapped to the frames of their own numbers by the only table \<open>t\<close>, and
  exactly these frames are taken.
\<close>

definition table_of :: "nat \<Rightarrow> page_t list" where
  "table_of n = map mapped_page [0..<n] @ replicate (1024 - n) zero_page"

definition identity_upto :: "u32 \<Rightarrow> nat \<Rightarrow> vmm \<Rightarrow> bool" where
  "identity_upto t n st \<longleftrightarrow> n \<le> 1024 \<and> t \<noteq> 0 \<and> t AND 0xFFF = 0 \<and>
     kernel_dir st = \<lparr>tables = t # replicate 1023 0, phys_tables = (t OR 7) # replicate 1023 0, phys_addr = 0\<rparr> \<and>
     tables_at st t = Some (table_of n) \<and>
     nframes st = 4096 \<and> length (frames st) = 32 \<and> (\<forall>k < 1024. frame_bit (frames st) k \<longleftrightarrow> k < n)"

lemma length_table_of [simp]: "n \<le> 1024 \<Longrightarrow> length (table_of n) = 1024"
  by (simp add: table_of_def)

lemma nth_table_of: "k < 1024 \<Longrightarrow> n \<le> 1024 \<Longrightarrow> table_of n ! k = (if k < n then mapped_page k else zero_page)"
  by (simp add: table_of_def nth_append)

lemma table_of_Suc: "n < 1024 \<Longrightarrow> (table_of n)[n := mapped_page n] = table_of (Suc n)"
  by (rule nth_equalityI) (simp_all add: nth_table_of nth_list_update)

lemma unat_page_addr: "n \<le> 1024 \<Longrightarrow> unat ((of_nat n :: u32) * 0x1000) = n * 4096"
  by (rule unat_frame_addr) simp

lemma page_addr_index:
  assumes "n \<le> 1024"
  shows "uint ((of_nat n * 0x1000 :: u32) div 0x1000 div 1024) = int (n div 1024)"
    and "unat ((of_nat n * 0x1000 :: u32) div 0x1000 mod 1024) = n mod 1024"
  using unat_page_addr [OF assms] by (simp_all only: uint_nat unat_div unat_mod) simp_all

lemma filter_below: "\<forall>k < m. P k \<longleftrightarrow> k < n \<Longrightarrow> n \<le> m \<Longrightarrow> filter (\<lambda>k. \<not> P k) [0..<m] = [n..<m]"
  by (induction m) (auto simp: le_Suc_eq filter_empty_conv)

lemma first_frame_identity:
  assumes "identity_upto t n st" and "n < 1024"
  shows "first_frame (nframes st) (frames st) = Ok (of_nat n)" and "n < frame_cap (frames st)"
proof -
  have len: "length (frames st) = 32" and nf: "nframes st = 4096" and bits: "\<forall>k < 1024. frame_bit (frames st) k \<longleftrightarrow> k < n"
    using assms(1) by (simp_all add: identity_upto_def)
  have "n \<le> 1024" using assms(2) by simp
  then have "filter (\<lambda>k. \<not> frame_bit (frames st) k) [0..<1024] = n # [Suc n..<1024]"
    using filter_below [OF bits] upt_conv_Cons [OF assms(2)] by metis
  moreover have "first_frame 4096 (frames st) = (case filter (\<lambda>k. \<not> frame_bit (frames st) k) [0..<32 * min 128 32] of
      k # _ \<Rightarrow> Ok (of_nat k) | [] \<Rightarrow> if 128 \<le> (32 :: nat) then Ok 0xFFFFFFFF else Err Undefined)"
    by (rule first_frame_eq [of 4096 128 "frames st", unfolded len]) simp_all
  moreover have "32 * min 128 32 = (1024 :: nat)" by simp
  ultimately show "first_frame (nframes st) (frames st) = Ok (of_nat n)"
    by (simp only: nf list.case)
  show "n < frame_cap (frames st)" using assms(2) len by (simp add: frame_cap_def)
qed

text \<open>One round of the mapping loop.\<close>

lemma identity_step:
  assumes "identity_upto t n st" and "n < 1024"
  shows "get_page (of_nat n * 0x1000) True st = Ok (Some (t, n), st)"
    and "\<exists>st'. pfa_alloc (t, n) 0 0 st = Ok st' \<and> identity_upto t (Suc n) st' \<and> free_addr st' = free_addr st \<and>
      kernel_dir_at st' = kernel_dir_at st \<and> load_page st (t, n) = Ok zero_page"
proof -
  have tab: "tables_at st t = Some (table_of n)" "t \<noteq> 0"
    and dir: "tables (kernel_dir st) = t # replicate 1023 0"
    using assms(1) by (simp_all add: identity_upto_def)
  show "get_page (of_nat n * 0x1000) True st = Ok (Some (t, n), st)"
    using page_addr_index [of n] assms(2) tab(2) by (simp add: get_page_def Let_def dir arr_get_def)
  have zero: "table_of n ! n = zero_page" using assms(2) by (simp add: nth_table_of)
  let ?st = "st\<lparr>frames := frame_with (frames st) n, tables_at := (tables_at st)(t \<mapsto> table_of (Suc n))\<rparr>"
  have mp: "zero_page\<lparr>present := 1, rw := 0, user := 1, frame := of_nat n\<rparr> = mapped_page n"
    by (simp add: mapped_page_def)
  have "pfa_alloc (t, n) 0 0 st = Ok ?st"
    using pfa_alloc_eq [OF tab(1) _ _ first_frame_identity [OF assms], of n] assms(2)
    by (simp add: zero mp table_of_Suc) (simp add: zero_page_def)
  moreover have "identity_upto t (Suc n) ?st"
    using assms frame_bit_with(1) [OF first_frame_identity(2) [OF assms]]
    by (auto simp: identity_upto_def)
  moreover have "load_page st (t, n) = Ok zero_page"
    using tab(1) assms(2) zero by (simp add: load_page_eq)
  ultimately show "\<exists>st'. pfa_alloc (t, n) 0 0 st = Ok st' \<and> identity_upto t (Suc n) st' \<and> free_addr st' = free_addr st \<and>
      kernel_dir_at st' = kernel_dir_at st \<and> load_page st (t, n) = Ok zero_page"
    by (intro exI [of _ ?st]) simp
qed

lemma next_page: "(of_nat n :: u32) * 0x1000 + 0x1000 = of_nat (Suc n) * 0x1000"
  by (simp add: algebra_simps)

text \<open>The rounds of the loop up to page \<open>m\<close>.\<close>

lemma map_kernel_steps:
  assumes "identity_upto t n st" and "n \<le> m" and "m \<le> 1024" and "m * 4096 \<le> unat (free_addr st)"
  shows "\<exists>st'. map_kernel (of_nat n * 0x1000) st = map_kernel (of_nat m * 0x1000) st' \<and> identity_upto t m st' \<and>
    free_addr st' = free_addr st \<and> kernel_dir_at st' = kernel_dir_at st"
  using assms(1,2,4)
proof (induction "m - n" arbitrary: n st)
  case 0
  then show ?case by auto
next
  case (Suc d)
  then have n: "n < m" "n < 1024" using assms(3) by auto
  then have "unat ((of_nat n :: u32) * 0x1000) < unat (free_addr st)"
    using unat_page_addr [of n] Suc.prems(3) by simp
  then have less: "of_nat n * 0x1000 < free_addr st" by (simp add: word_less_nat_alt)
  obtain st1 where st1: "pfa_alloc (t, n) 0 0 st = Ok st1" "identity_upto t (Suc n) st1"
    "free_addr st1 = free_addr st" "kernel_dir_at st1 = kernel_dir_at st"
    using identity_step(2) [OF Suc.prems(1) n(2)] by blast
  have "\<exists>st'. map_kernel (of_nat (Suc n) * 0x1000) st1 = map_kernel (of_nat m * 0x1000) st' \<and> identity_upto t m st' \<and>
    free_addr st' = free_addr st1 \<and> kernel_dir_at st' = kernel_dir_at st1"
    using Suc.hyps(1) [of "Suc n" st1] Suc.hyps(2) Suc.prems(3) st1 n by simp
  moreover have "map_kernel (of_nat n * 0x1000) st = map_kernel (of_nat (Suc n) * 0x1000) st1"
    using less identity_step(1) [OF Suc.prems(1) n(2)] st1(1)
    by (subst map_kernel.simps) (simp add: next_page del: of_nat_Suc)
  ultimately show ?case using st1 by simp
qed

lemma map_kernel_stop:
  assumes "identity_upto t m st" and "m * 4096 = unat (free_addr st)"
  shows "map_kernel (of_nat m * 0x1000) st = Some (Ok st)"
proof -
  have "m \<le> 1024" using assms(1) by (simp add: identity_upto_def)
  then have "\<not> of_nat m * 0x1000 < free_addr st"
    using unat_page_addr [of m] assms(2) by (simp add: word_less_nat_alt)
  then show ?thesis by (subst map_kernel.simps) simp
qed

text \<open>The processor's translation under the invariant.\<close>

lemma low_12: "(w :: u32) AND 0xFFF = take_bit 12 w"
  by (simp add: take_bit_eq_mask mask_eq_exp_minus_1)

lemma fff: "(0xFFF :: u32) = mask 12" and seven: "(7 :: u32) = mask 3"
  by (simp_all add: mask_eq_exp_minus_1)

lemma page_word_zero: "page_word zero_page = 0"
  by (simp add: page_word_def zero_page_def)

lemma unat_drop_12: "unat (drop_bit 12 (a :: u32)) = unat a div 4096"
  by (simp add: drop_bit_eq_div unat_div)

lemma unat_drop_22: "unat (drop_bit 22 (a :: u32)) = unat a div 2 ^ 22"
  by (simp add: drop_bit_eq_div unat_div)

lemma unat_take_10: "unat (take_bit 10 (a :: u32)) = unat a mod 1024"
  by (simp add: take_bit_eq_mod unat_mod)

text \<open>The entry of a mapped page: present, and the frame in the upper 20 bits.\<close>

lemma mapped_page_word:
  "k < 1024 \<Longrightarrow> bit (page_word (mapped_page k)) 0"
  "(page_word (mapped_page (unat a div 4096)) AND NOT 0xFFF) OR (a AND 0xFFF) = a"
proof -
  have w: "page_word (mapped_page k) = 1 OR 4 OR push_bit 12 (ucast (of_nat k :: 20 word))" for k
    by (simp add: page_word_def mapped_page_def zero_page_def)
  show "k < 1024 \<Longrightarrow> bit (page_word (mapped_page k)) 0"
    by (simp add: w bit_simps)
  have "of_nat (unat (drop_bit 12 a)) = (ucast (drop_bit 12 a) :: 20 word)"
    by (simp only: of_nat_unat)
  then have f: "of_nat (unat a div 4096) = (ucast (drop_bit 12 a) :: 20 word)"
    by (simp only: unat_drop_12)
  have four: "(4 :: u32) = push_bit 2 1" by simp
  show "(page_word (mapped_page (unat a div 4096)) AND NOT 0xFFF) OR (a AND 0xFFF) = a"
    unfolding w f low_12 fff four
    by (rule bit_eqI) (auto simp: bit_simps simp del: push_bit_of_1)
qed

lemma translate_identity:
  assumes "identity_upto t n st"
  shows "translate st a = (if unat a < n * 4096 then Some a else None)"
proof -
  have tab: "tables_at st t = Some (table_of n)" and t: "t AND 0xFFF = 0"
    and dir: "phys_tables (kernel_dir st) = (t OR 7) # replicate 1023 0" and n: "n \<le> 1024"
    using assms by (simp_all add: identity_upto_def)
  have low: "(t OR 7) AND NOT 0xFFF = t"
  proof (rule bit_eqI)
    fix k
    have "bit (t AND 0xFFF) k = bit (0 :: u32) k" using t by simp
    then have "k < 12 \<Longrightarrow> \<not> bit t k" unfolding low_12 by (simp add: bit_simps)
    moreover have "bit (7 :: u32) k \<Longrightarrow> k < 12" unfolding seven by (simp add: bit_simps)
    moreover assume "possible_bit TYPE(u32) k"
    ultimately show "bit ((t OR 7) AND NOT 0xFFF) k = bit t k"
      unfolding fff by (auto simp: bit_simps)
  qed
  have pres: "bit (t OR 7) 0" by (simp add: bit_simps)
  have idx: "unat (drop_bit 22 a) = unat a div 2 ^ 22" "unat (take_bit 10 (drop_bit 12 a)) = unat a div 4096 mod 1024"
    by (simp_all only: unat_drop_22 unat_take_10 unat_drop_12)
  show ?thesis
  proof (cases "unat a < 2 ^ 22")
    case False
    then have "unat (drop_bit 22 a) \<noteq> 0" using idx(1) by simp
    moreover have "unat (drop_bit 22 a) < 1024"
      using idx(1) unat_u32_less [of a] by simp
    ultimately have "phys_tables (kernel_dir st) ! unat (drop_bit 22 a) = 0"
      by (simp add: dir nth_Cons')
    then show ?thesis
      using False n by (simp add: translate_def Let_def)
  next
    case True
    let ?k = "unat a div 4096"
    have k: "?k < 1024" using True by simp
    then have "phys_tables (kernel_dir st) ! unat (drop_bit 22 a) = t OR 7"
      using idx(1) True by (simp add: dir)
    moreover have "table_of n ! unat (take_bit 10 (drop_bit 12 a)) = (if ?k < n then mapped_page ?k else zero_page)"
      using idx(2) k n by (simp add: nth_table_of)
    moreover have "?k < n \<longleftrightarrow> unat a < n * 4096" by (auto simp: less_mult_imp_div_less div_less_iff_less_mult)
    ultimately show ?thesis
      using pres low tab mapped_page_word(1) [OF k] mapped_page_word(2) [of a] k
      by (simp add: translate_def Let_def page_word_zero)
  qed
qed

section \<open>Setting up paging\<close>

definition page_up :: "nat \<Rightarrow> nat" where
  "page_up n = (n + 4095) div 4096 * 4096"

lemma page_up_bounds: "n \<le> page_up n" "page_up n < n + 4096"
  by (simp_all add: page_up_def)

lemma page_up_eq: "page_up n = (if n mod 4096 = 0 then n else n div 4096 * 4096 + 4096)"
proof -
  define q r where "q = n div 4096" and "r = n mod 4096"
  have n: "n = r + q * 4096" "r < 4096" by (simp_all add: q_def r_def)
  have "(n + 4095) div 4096 = (r + 4095 + q * 4096) div 4096" using n(1) by (simp add: add_ac)
  also have "\<dots> = q + (r + 4095) div 4096" by (subst div_mult_self1) simp_all
  also have "(r + 4095) div 4096 = (if r = 0 then 0 else 1)"
    using n(2) by (auto intro: div_nat_eqI)
  finally show ?thesis using n by (simp add: page_up_def flip: q_def r_def)
qed

lemma page_up_aligned: "page_up n mod 4096 = 0"
  by (simp add: page_up_def)

lemma unat_and_FFF: "unat (w AND 0xFFF) = unat (w :: u32) mod 4096"
  unfolding low_12 by (simp add: take_bit_eq_mod unat_mod)

lemma unat_and_pages: "unat (w AND 0xFFFFF000) = unat (w :: u32) div 4096 * 4096"
proof -
  have m: "(0xFFFFF000 :: u32) = NOT (mask 12)" by (simp add: mask_eq_exp_minus_1)
  have "w AND 0xFFFFF000 = push_bit 12 (drop_bit 12 w)"
    unfolding m by (rule bit_eqI) (auto simp: bit_simps)
  also have "\<dots> = drop_bit 12 w * 0x1000" by (simp add: push_bit_eq_mult mult.commute)
  finally have "unat (w AND 0xFFFFF000) = (unat w div 4096 * 4096) mod 2 ^ 32"
    by (simp only: unat_word_ariths unat_drop_12) simp
  moreover have "unat w div 4096 * 4096 < 2 ^ 32"
    using unat_u32_less [of w] by (rule le_less_trans [rotated]) simp
  ultimately show ?thesis by simp
qed

text \<open>An aligned allocation starts at the next page boundary.\<close>

lemma kmalloc_aligned:
  assumes "unat (free_addr st) + 4096 \<le> 2 ^ 32"
  shows "kmalloc sz True st = (of_nat (page_up (unat (free_addr st))),
    st\<lparr>free_addr := of_nat (page_up (unat (free_addr st))) + sz\<rparr>)"
proof -
  let ?f = "free_addr st"
  have pu: "page_up (unat ?f) = (if unat ?f mod 4096 = 0 then unat ?f else unat ?f div 4096 * 4096 + 4096)"
    by (rule page_up_eq)
  have z: "?f AND 0xFFF = 0 \<longleftrightarrow> unat ?f mod 4096 = 0"
    by (simp add: word_unat_eq_iff unat_and_FFF)
  have "(?f AND 0xFFFFF000) + 0x1000 = of_nat (unat ?f div 4096 * 4096 + 4096)"
  proof -
    have "?f AND 0xFFFFF000 = of_nat (unat (?f AND 0xFFFFF000))" by (simp only: of_nat_unat ucast_id)
    then show ?thesis unfolding unat_and_pages by simp
  qed
  then show ?thesis
    unfolding kmalloc_def Let_def z pu by (cases "unat ?f mod 4096 = 0") (simp_all del: of_nat_mult of_nat_div of_nat_mod)
qed

text \<open>Where the directory starts and the first table ends, when the free memory starts at \<open>f\<close>.\<close>

definition dir_start :: "nat \<Rightarrow> nat" where
  "dir_start f = page_up (f + 128)"

definition kernel_end :: "nat \<Rightarrow> nat" where
  "kernel_end f = page_up (dir_start f + 8196) + 4096"

lemma kernel_end_bounds: "f + 12420 \<le> kernel_end f" "kernel_end f < f + 20612"
  using page_up_bounds [of "f + 128"] page_up_bounds [of "dir_start f + 8196"]
  by (simp_all add: kernel_end_def dir_start_def)

definition empty_dir :: page_dir where
  "empty_dir = \<lparr>tables = replicate 1024 0, phys_tables = replicate 1024 0, phys_addr = 0\<rparr>"

lemma init_frames_eq:
  assumes "unat (free_addr st) \<le> 2 ^ 31"
  shows "init_frames st = st\<lparr>nframes := 4096, frames := replicate 32 0, kernel_dir := empty_dir,
    kernel_dir_at := of_nat (dir_start (unat (free_addr st))),
    free_addr := of_nat (dir_start (unat (free_addr st)) + 8196)\<rparr>"
proof -
  let ?st = "st\<lparr>nframes := 4096, free_addr := free_addr st + 128, frames := replicate 32 0\<rparr>"
  have u: "unat (free_addr st + 128) = unat (free_addr st) + 128"
    using unat_add_small [of "free_addr st" 128] assms by simp
  have "kmalloc 8196 True ?st = (of_nat (dir_start (unat (free_addr st))),
      ?st\<lparr>free_addr := of_nat (dir_start (unat (free_addr st))) + 8196\<rparr>)"
    using kmalloc_aligned [of ?st 8196] assms u by (simp add: dir_start_def)
  then show ?thesis
    by (simp add: init_frames_def MEM_SIZE_def PAGE_SIZE_def kmalloc_def [of _ False] Let_def empty_dir_def)
qed

text \<open>The first round makes the table; it is as if the table had been there.\<close>

lemma table_made:
  assumes "unat (free_addr st) \<le> 2 ^ 31"
  shows "\<exists>t st1. get_page 0 True (init_frames st) = Ok (Some (t, 0), st1) \<and> get_page 0 True st1 = Ok (Some (t, 0), st1) \<and>
    0 < free_addr (init_frames st) \<and> 0 < free_addr st1 \<and> identity_upto t 0 st1 \<and>
    unat (free_addr st1) = kernel_end (unat (free_addr st)) \<and> kernel_dir_at st1 = of_nat (dir_start (unat (free_addr st)))"
proof -
  let ?f = "unat (free_addr st)" and ?st0 = "init_frames st"
  let ?t = "of_nat (page_up (dir_start ?f + 8196)) :: u32"
  let ?st1 = "?st0\<lparr>free_addr := ?t + 4096, tables_at := (tables_at st)(?t \<mapsto> table_of 0),
    kernel_dir := \<lparr>tables = ?t # replicate 1023 0, phys_tables = (?t OR 7) # replicate 1023 0, phys_addr = 0\<rparr>\<rparr>"
  note st0 = init_frames_eq [OF assms]
  have ke: "kernel_end ?f < 2 ^ 32" "0 < page_up (dir_start ?f + 8196)"
    using kernel_end_bounds [of ?f] page_up_bounds [of "dir_start ?f + 8196"] assms by auto
  have ds: "dir_start ?f + 8196 < 2 ^ 32 - 4096" "0 < dir_start ?f + 8196"
    using page_up_bounds [of "?f + 128"] assms by (auto simp: dir_start_def)
  have ut: "unat ?t = page_up (dir_start ?f + 8196)" using ke by (simp add: unat_of_nat kernel_end_def)
  have uf: "unat (free_addr ?st0) = dir_start ?f + 8196"
  proof -
    have "free_addr ?st0 = of_nat (dir_start ?f + 8196)" by (simp add: st0)
    then show ?thesis using ds(1) by (simp only: unat_of_nat) simp
  qed
  have t0: "?t \<noteq> 0" using ut ke(2) by (simp add: word_unat_eq_iff)
  have ta: "?t AND 0xFFF = 0" using page_up_aligned by (simp add: word_unat_eq_iff unat_and_FFF ut)
  have uend: "unat (?t + 4096) = kernel_end ?f"
    using unat_add_small [of ?t 4096] ut ke(1) by (simp add: kernel_end_def)
  have km: "kmalloc 4096 True ?st0 = (?t, ?st0\<lparr>free_addr := ?t + 4096\<rparr>)"
    using kmalloc_aligned [of ?st0 4096] ds(1) by (simp add: uf)
  have rep: "replicate 1024 x = x # replicate 1023 x" for x :: u32
    by (simp flip: replicate_Suc)
  have g0: "get_page 0 True ?st0 = Ok (Some (?t, 0), ?st1)"
    unfolding get_page_def Let_def km
    by (simp add: st0 empty_dir_def arr_get_def arr_set_def table_of_def rep del: replicate.simps)
  have id: "identity_upto ?t 0 ?st1"
    using t0 ta by (simp add: identity_upto_def st0 frame_bit_def)
  have "get_page 0 True ?st1 = Ok (Some (?t, 0), ?st1)"
    using identity_step(1) [OF id] by simp
  moreover have "0 < free_addr ?st0" "0 < free_addr ?st1"
    using uf uend kernel_end_bounds(1) [of ?f] by (simp_all add: word_less_nat_alt)
  ultimately show ?thesis
    using g0 id uend st0 by (intro exI [of _ ?t] exI [of _ ?st1]) simp
qed

lemma first_table:
  assumes "unat (free_addr st) \<le> 2 ^ 31"
  shows "\<exists>t st1. map_kernel 0 (init_frames st) = map_kernel (of_nat 0 * 0x1000) st1 \<and> identity_upto t 0 st1 \<and>
    unat (free_addr st1) = kernel_end (unat (free_addr st)) \<and> kernel_dir_at st1 = of_nat (dir_start (unat (free_addr st)))"
proof -
  obtain t st1 where st1: "get_page 0 True (init_frames st) = Ok (Some (t, 0), st1)" "get_page 0 True st1 = Ok (Some (t, 0), st1)"
    "0 < free_addr (init_frames st)" "0 < free_addr st1" "identity_upto t 0 st1"
    "unat (free_addr st1) = kernel_end (unat (free_addr st))" "kernel_dir_at st1 = of_nat (dir_start (unat (free_addr st)))"
    using table_made [OF assms] by blast
  then have "map_kernel 0 (init_frames st) = map_kernel 0 st1"
    by (subst (1 2) map_kernel.simps) simp
  then show ?thesis using st1(5-7) by auto
qed

lemma kernel_end_page: "\<exists>m. kernel_end f = m * 4096"
  by (auto simp: kernel_end_def page_up_def intro!: exI [of _ "(dir_start f + 8196 + 4095) div 4096 + 1"])

lemma register_page_fault: "length hs = 256 \<Longrightarrow> register_int_handler 14 Page_fault hs = Ok (hs[14 := Some Page_fault])"
  using register_int_handler_eq [of 14 hs Page_fault] by simp

text \<open>
  Memory as the boot leaves it: the pages below \<open>n * 4096\<close> are identity-mapped, and the next block
  of the heap starts there.
\<close>

definition heap_ok :: "u32 \<Rightarrow> nat \<Rightarrow> vmm \<Rightarrow> bool" where
  "heap_ok t n st \<longleftrightarrow> identity_upto t n st \<and> page_up (unat (free_addr st)) = n * 4096"

lemma init_paging_heap:
  assumes "length hs = 256" and "kernel_end (unat (free_addr st)) \<le> 2 ^ 22"
  shows "\<exists>st' t m. init_paging hs st = Some (Ok (hs[14 := Some Page_fault], st')) \<and> heap_ok t m st' \<and>
    m * 4096 = kernel_end (unat (free_addr st)) \<and> paging_on st' \<and> cr3 st' = kernel_dir_at st' + 4096 \<and>
    unat (kernel_dir_at st') = dir_start (unat (free_addr st)) \<and> unat (free_addr st') = kernel_end (unat (free_addr st))"
proof -
  let ?f = "unat (free_addr st)"
  have f: "?f \<le> 2 ^ 31" using kernel_end_bounds(1) [of ?f] assms(2) by simp
  obtain m where m: "kernel_end ?f = m * 4096" using kernel_end_page by blast
  obtain t st1 where st1: "map_kernel 0 (init_frames st) = map_kernel (of_nat 0 * 0x1000) st1" "identity_upto t 0 st1"
    "unat (free_addr st1) = kernel_end ?f" "kernel_dir_at st1 = of_nat (dir_start ?f)"
    using first_table [OF f] by blast
  obtain st2 where st2: "map_kernel (of_nat 0 * 0x1000) st1 = map_kernel (of_nat m * 0x1000) st2" "identity_upto t m st2"
    "free_addr st2 = free_addr st1" "kernel_dir_at st2 = kernel_dir_at st1"
    using map_kernel_steps [OF st1(2), of m] assms(2) m st1(3) by auto
  let ?st' = "(switch_page_dir st2)\<lparr>paging_on := True\<rparr>"
  have "map_kernel 0 (init_frames st) = Some (Ok st2)"
    using st1(1) st2(1) map_kernel_stop [OF st2(2)] st1(3) st2(3) m by simp
  then have "init_paging hs st = Some (Ok (hs[14 := Some Page_fault], ?st'))"
    by (simp add: init_paging_def register_page_fault assms(1))
  moreover have "dir_start ?f < 2 ^ 32"
    using page_up_bounds(2) [of "?f + 128"] f by (simp add: dir_start_def)
  then have "unat (kernel_dir_at st2) = dir_start ?f"
    using st1(4) st2(4) by (simp add: unat_of_nat)
  moreover have "identity_upto t m ?st'"
    using st2(2) by (simp add: identity_upto_def switch_page_dir_def)
  moreover have "page_up (m * 4096) = m * 4096" by (simp add: page_up_eq)
  ultimately show ?thesis
    using st1(3) st2(3) m by (auto simp: switch_page_dir_def heap_ok_def)
qed

text \<open>
  C27: when the kernel, its modules and the tables end at or below 4 MB, \<open>init_paging\<close> returns with
  paging on, its page fault handler registered and the directory loaded, and the processor
  translates exactly the addresses below the end, each to itself.
\<close>

theorem init_paging_identity:
  assumes "length hs = 256" and "kernel_end (unat (free_addr st)) \<le> 2 ^ 22"
  shows "\<exists>st'. init_paging hs st = Some (Ok (hs[14 := Some Page_fault], st')) \<and> paging_on st' \<and>
    cr3 st' = kernel_dir_at st' + 4096 \<and> unat (kernel_dir_at st') = dir_start (unat (free_addr st)) \<and>
    unat (free_addr st') = kernel_end (unat (free_addr st)) \<and>
    (\<forall>a. translate st' a = (if unat a < kernel_end (unat (free_addr st)) then Some a else None))"
proof -
  obtain st' t m where "init_paging hs st = Some (Ok (hs[14 := Some Page_fault], st'))" "heap_ok t m st'"
    "m * 4096 = kernel_end (unat (free_addr st))" "paging_on st'" "cr3 st' = kernel_dir_at st' + 4096"
    "unat (kernel_dir_at st') = dir_start (unat (free_addr st))" "unat (free_addr st') = kernel_end (unat (free_addr st))"
    using init_paging_heap [OF assms] by blast
  then show ?thesis
    using translate_identity [of t m st'] by (auto simp: heap_ok_def)
qed

definition boot_vmm :: vmm where
  "boot_vmm = \<lparr>frames = [], nframes = 0, free_addr = 0x123456, tables_at = Map.empty, kernel_dir = empty_dir,
     kernel_dir_at = 0, cr3 = 0, paging_on = False\<rparr>"

lemma init_paging_identity_witness:
  "\<exists>st'. init_paging (replicate 256 None) boot_vmm = Some (Ok ((replicate 256 None)[14 := Some Page_fault], st')) \<and>
    paging_on st' \<and> cr3 st' = kernel_dir_at st' + 4096 \<and>
    unat (kernel_dir_at st') = dir_start (unat (free_addr boot_vmm)) \<and>
    unat (free_addr st') = kernel_end (unat (free_addr boot_vmm)) \<and>
    (\<forall>a. translate st' a = (if unat a < kernel_end (unat (free_addr boot_vmm)) then Some a else None))"
  by (rule init_paging_identity) (simp_all add: boot_vmm_def kernel_end_def dir_start_def page_up_def)

text \<open>The first page behind 4 MB: its table is new, and there is no bit for its frame.\<close>

lemma page_beyond_4MB:
  assumes "identity_upto t 1024 st" and "unat (free_addr st) + 4096 \<le> 2 ^ 32"
  shows "\<exists>p st'. get_page (of_nat 1024 * 0x1000) True st = Ok (Some p, st') \<and> load_page st' p = Ok zero_page \<and>
    pfa_alloc p 0 0 st' = Err Undefined"
proof -
  let ?t = "of_nat (page_up (unat (free_addr st))) :: u32"
  let ?st' = "st\<lparr>free_addr := ?t + 4096, tables_at := (tables_at st)(?t \<mapsto> replicate 1024 zero_page),
    kernel_dir := (kernel_dir st)\<lparr>tables := (tables (kernel_dir st))[1 := ?t],
      phys_tables := (phys_tables (kernel_dir st))[1 := ?t OR 7]\<rparr>\<rparr>"
  have dir: "kernel_dir st = \<lparr>tables = t # replicate 1023 0, phys_tables = (t OR 7) # replicate 1023 0, phys_addr = 0\<rparr>"
    and nf: "nframes st = 4096" and len: "length (frames st) = 32" and bits: "\<forall>k < 1024. frame_bit (frames st) k \<longleftrightarrow> k < 1024"
    using assms(1) by (simp_all add: identity_upto_def)
  have km: "kmalloc 4096 True st = (?t, st\<lparr>free_addr := ?t + 4096\<rparr>)"
    by (rule kmalloc_aligned) (rule assms(2))
  have g: "get_page (of_nat 1024 * 0x1000) True st = Ok (Some (?t, 0), ?st')"
    unfolding get_page_def Let_def km by (simp add: dir arr_get_def arr_set_def)
  have "filter (\<lambda>k. \<not> frame_bit (frames st) k) [0..<1024] = []"
    using bits by (auto simp: filter_empty_conv simp del: upt_rec_numeral)
  moreover have "first_frame 4096 (frames st) = (case filter (\<lambda>k. \<not> frame_bit (frames st) k) [0..<32 * min 128 32] of
      k # _ \<Rightarrow> Ok (of_nat k) | [] \<Rightarrow> if 128 \<le> (32 :: nat) then Ok 0xFFFFFFFF else Err Undefined)"
    by (rule first_frame_eq [of 4096 128 "frames st", unfolded len]) simp_all
  moreover have "32 * min 128 32 = (1024 :: nat)" "\<not> 128 \<le> (32 :: nat)" by simp_all
  ultimately have "first_frame 4096 (frames st) = Err Undefined"
    by (simp only: list.case if_False)
  moreover have "load_page ?st' (?t, 0) = Ok zero_page" by (simp add: load_page_def arr_get_def)
  ultimately have "load_page ?st' (?t, 0) = Ok zero_page" "pfa_alloc (?t, 0) 0 0 ?st' = Err Undefined"
    by (simp_all add: pfa_alloc_def nf zero_page_def)
  then show ?thesis using g by blast
qed

text \<open>
  C28: when they end above 4 MB and start at or below 2 GB, \<open>init_paging\<close> reads outside the frame bitmap: it allocates and
  clears one bit per 8 frames (the count of words taken for a count of bytes), so the bitmap ends
  at frame 1024.
\<close>

theorem init_paging_beyond_4MB:
  assumes "unat (free_addr st) \<le> 2 ^ 31" and "2 ^ 22 < kernel_end (unat (free_addr st))"
  shows "init_paging hs st = Some (Err Undefined)"
proof -
  let ?f = "unat (free_addr st)"
  obtain t st1 where st1: "map_kernel 0 (init_frames st) = map_kernel (of_nat 0 * 0x1000) st1" "identity_upto t 0 st1"
    "unat (free_addr st1) = kernel_end ?f"
    using first_table [OF assms(1)] by blast
  obtain st2 where st2: "map_kernel (of_nat 0 * 0x1000) st1 = map_kernel (of_nat 1024 * 0x1000) st2" "identity_upto t 1024 st2"
    "free_addr st2 = free_addr st1"
    using map_kernel_steps [OF st1(2), of 1024] assms(2) st1(3) by auto
  have less: "of_nat 1024 * 0x1000 < free_addr st2"
    using assms(2) st1(3) st2(3) by (simp add: word_less_nat_alt)
  have "unat (free_addr st2) + 4096 \<le> 2 ^ 32"
    using kernel_end_bounds(2) [of ?f] assms(1) st1(3) st2(3) by simp
  with page_beyond_4MB [OF st2(2)] have "map_kernel (of_nat 1024 * 0x1000) st2 = Some (Err Undefined)"
    using less by (subst map_kernel.simps) auto
  then show ?thesis
    using st1(1) st2(1) by (simp add: init_paging_def)
qed

lemma init_paging_beyond_4MB_witness:
  "init_paging (replicate 256 None) (boot_vmm\<lparr>free_addr := 0x400000\<rparr>) = Some (Err Undefined)"
  by (rule init_paging_beyond_4MB) (simp_all add: boot_vmm_def kernel_end_def dir_start_def page_up_def)

section \<open>malloc on the mapped memory\<close>

text \<open>The loop of \<open>malloc\<close> maps the pages up to the one of the last byte.\<close>

lemma malloc_pages_identity:
  assumes "identity_upto t n st" and "n \<le> m" and "m \<le> 1024" and "page_up (unat limit) = m * 4096"
  shows "\<exists>st'. malloc_pages (of_nat n * 0x1000) limit st = Some (Ok st') \<and> identity_upto t m st' \<and>
    free_addr st' = free_addr st"
  using assms(1,2)
proof (induction "m - n" arbitrary: n st)
  case 0
  then have n: "n = m" by simp
  have "unat limit \<le> m * 4096" using page_up_bounds(1) [of "unat limit"] assms(4) by simp
  then have "\<not> of_nat n * 0x1000 < limit"
    using unat_page_addr [of n] assms(3) n by (simp add: word_less_nat_alt)
  then show ?case using 0 n by (subst malloc_pages.simps) simp
next
  case (Suc d)
  then have n: "n < m" "n < 1024" using assms(3) by auto
  have "n * 4096 < unat limit"
  proof -
    have "m * 4096 < unat limit + 4096" using page_up_bounds(2) [of "unat limit"] assms(4) by simp
    moreover have "n * 4096 + 4096 \<le> m * 4096" using n(1) by simp
    ultimately show ?thesis by linarith
  qed
  then have less: "of_nat n * 0x1000 < limit"
    using unat_page_addr [of n] n(2) by (simp add: word_less_nat_alt)
  obtain st1 where st1: "pfa_alloc (t, n) 0 0 st = Ok st1" "identity_upto t (Suc n) st1"
    "free_addr st1 = free_addr st" "load_page st (t, n) = Ok zero_page"
    using identity_step(2) [OF Suc.prems(1) n(2)] by blast
  have "\<exists>st'. malloc_pages (of_nat (Suc n) * 0x1000) limit st1 = Some (Ok st') \<and> identity_upto t m st' \<and>
    free_addr st' = free_addr st1"
    using Suc.hyps(1) [of "Suc n" st1] Suc.hyps(2) st1 n by simp
  moreover have "malloc_pages (of_nat n * 0x1000) limit st = malloc_pages (of_nat (Suc n) * 0x1000) limit st1"
    using less identity_step(1) [OF Suc.prems(1) n(2)] st1(1,4)
    by (subst malloc_pages.simps) (simp add: next_page PAGE_SIZE_def zero_page_def del: of_nat_Suc)
  ultimately show ?case using st1 by simp
qed

lemma malloc_heap:
  assumes "heap_ok t n st" and "n * 4096 + unat sz \<le> 2 ^ 22"
  shows "\<exists>st' m. malloc sz st = Some (Ok (of_nat (n * 4096), st')) \<and> unat (free_addr st') = n * 4096 + unat sz \<and>
    heap_ok t m st' \<and> m * 4096 = page_up (n * 4096 + unat sz)"
proof -
  have n: "n * 4096 \<le> 2 ^ 22" using assms(2) by simp
  then have "unat (free_addr st) + 4096 \<le> 2 ^ 32"
    using page_up_bounds(1) [of "unat (free_addr st)"] assms(1) by (simp add: heap_ok_def)
  then have km: "kmalloc sz True st = (of_nat (n * 4096), st\<lparr>free_addr := of_nat (n * 4096) + sz\<rparr>)"
    using kmalloc_aligned [of st sz] assms(1) by (simp add: heap_ok_def)
  have ret: "(of_nat (n * 4096) :: u32) = of_nat n * 0x1000" by simp
  have lim: "unat (sz + of_nat (n * 4096)) = n * 4096 + unat sz"
  proof -
    have "unat sz + n * 4096 < 2 ^ 32" using assms(2) by simp
    from unat_add_small [OF this] show ?thesis by (simp only: add.commute)
  qed
  obtain m where m: "page_up (n * 4096 + unat sz) = m * 4096" by (simp add: page_up_def)
  have "m * 4096 < 2 ^ 22 + 4096" using page_up_bounds(2) [of "n * 4096 + unat sz"] m assms(2) by simp
  then have "m \<le> 1024" by simp
  moreover have "n \<le> m" using page_up_bounds(1) [of "n * 4096 + unat sz"] m by simp
  moreover have "identity_upto t n (st\<lparr>free_addr := of_nat (n * 4096) + sz\<rparr>)"
    using assms(1) by (simp add: identity_upto_def heap_ok_def)
  ultimately obtain st' where st': "malloc_pages (of_nat n * 0x1000) (sz + of_nat (n * 4096)) (st\<lparr>free_addr := of_nat (n * 4096) + sz\<rparr>) = Some (Ok st')"
    "identity_upto t m st'" "free_addr st' = of_nat (n * 4096) + sz"
    using malloc_pages_identity [of t n "st\<lparr>free_addr := of_nat (n * 4096) + sz\<rparr>" m "sz + of_nat (n * 4096)"] m lim by auto
  have "malloc sz st = Some (Ok (of_nat (n * 4096), st'))"
    using st'(1) by (simp add: malloc_def km ret [simplified])
  moreover have "unat (free_addr st') = n * 4096 + unat sz"
    using st'(3) lim by (simp add: add.commute)
  moreover have "page_up (page_up x) = page_up x" for x
    using page_up_aligned by (simp add: page_up_eq)
  then have "page_up (unat (free_addr st')) = m * 4096"
    using m st'(3) lim by (simp add: add.commute)
  ultimately show ?thesis
    using st'(2) m by (auto simp: heap_ok_def)
qed

text \<open>
  C29: on identity-mapped memory whose next page boundary is the end of the mapping, \<open>malloc\<close> of a block that ends
  at or below 4 MB (beyond, the frame bitmap that \<open>init_paging\<close> makes is too short)
  returns that boundary, moves the free address behind the block, and maps the pages of the
  block, which were not mapped before, to themselves; nothing else is remapped.
\<close>

theorem malloc_maps_block:
  assumes "identity_upto t n st" and "page_up (unat (free_addr st)) = n * 4096" and "n * 4096 + unat sz \<le> 2 ^ 22"
  shows "\<exists>st'. malloc sz st = Some (Ok (of_nat (n * 4096), st')) \<and> unat (free_addr st') = n * 4096 + unat sz \<and>
    (\<forall>a. translate st a = (if unat a < n * 4096 then Some a else None)) \<and>
    (\<forall>a. translate st' a = (if unat a < page_up (n * 4096 + unat sz) then Some a else None))"
proof -
  have "heap_ok t n st" using assms(1,2) by (simp add: heap_ok_def)
  from malloc_heap [OF this assms(3)] obtain st' m where "malloc sz st = Some (Ok (of_nat (n * 4096), st'))"
    "unat (free_addr st') = n * 4096 + unat sz" "identity_upto t m st'" "m * 4096 = page_up (n * 4096 + unat sz)"
    by (auto simp: heap_ok_def)
  then show ?thesis
    using translate_identity [OF assms(1)] translate_identity [of t m st'] by auto
qed

definition two_pages :: vmm where
  "two_pages = \<lparr>frames = 3 # replicate 31 0, nframes = 4096, free_addr = 0x2000, tables_at = [0x1000 \<mapsto> table_of 2],
     kernel_dir = \<lparr>tables = 0x1000 # replicate 1023 0, phys_tables = 0x1007 # replicate 1023 0, phys_addr = 0\<rparr>,
     kernel_dir_at = 0, cr3 = 0, paging_on = True\<rparr>"

lemma two_pages: "identity_upto 0x1000 2 two_pages"
proof -
  have "bit (3 :: u32) j \<longleftrightarrow> j < 2" for j
  proof -
    have "(3 :: u32) = mask 2" by (simp add: mask_eq_exp_minus_1)
    then show ?thesis by (simp only: bit_mask_iff) auto
  qed
  then have "frame_bit (3 # replicate 31 0) k \<longleftrightarrow> k < 2" if "k < 1024" for k
    using that by (cases "k < 32") (auto simp: frame_bit_def nth_Cons')
  then show ?thesis
    by (simp add: identity_upto_def two_pages_def)
qed

lemma malloc_maps_block_witness:
  "\<exists>st'. malloc 1 two_pages = Some (Ok (of_nat (2 * 4096), st')) \<and> unat (free_addr st') = 2 * 4096 + unat (1 :: u32) \<and>
    (\<forall>a. translate two_pages a = (if unat a < 2 * 4096 then Some a else None)) \<and>
    (\<forall>a. translate st' a = (if unat a < page_up (2 * 4096 + unat (1 :: u32)) then Some a else None))"
  by (rule malloc_maps_block [OF two_pages]) (simp_all add: two_pages_def page_up_def)

end
