(* ===== verification/Interrupt.thy ===== *)
theory Interrupt
  imports Printf Pic Vmm
begin

text \<open>
  The dispatch of interrupts: \<open>interrupt_handler\<close> of kernel/arch/i386/isr.c, the two functions that
  the kernel registers (\<open>timer_callback\<close> of kernel/kernel/kernel.c and \<open>page_fault\<close> of vmm.c) and
  \<open>init_timer\<close>, on the state of the whole machine. The demonstration at the end of the boot, a load
  that is meant to cause a page fault after 250 ticks, is followed to its outcome.
\<close>

section \<open>The machine\<close>

text \<open>
  The state of the kernel: terminal, handler table, descriptor tables, paging, the history of the
  ports, \<open>tick\<close>, and the memory that the boot loader filled.
\<close>

record kernel =
  k_tty :: tty
  k_handlers :: handlers
  k_gdt :: gdt_state
  k_idt :: idt_state
  k_vmm :: vmm
  k_io :: io
  k_tick :: u32
  k_ram :: "nat \<Rightarrow> byte"

text \<open>The registers that the interrupt stubs push (isr.h).\<close>

record cpu_state =
  c_cr2 :: u32
  c_edi :: u32
  c_esi :: u32
  c_ebp :: u32
  c_esp :: u32
  c_ebx :: u32
  c_edx :: u32
  c_ecx :: u32
  c_eax :: u32
  int_no :: u32
  err_code :: u32
  c_eip :: u32
  c_cs :: u32
  c_eflags :: u32
  c_useresp :: u32
  c_ss :: u32

text \<open>
  How a handler ends: it returns, it stops the processor, or one of its instructions raises an
  exception (the vector, and the state at that instruction).
\<close>

datatype outcome = Resumes kernel | Halts kernel | Faults u32 kernel

definition kprintf :: "'d fpu \<Rightarrow> byte list \<Rightarrow> 'd va list \<Rightarrow> kernel \<Rightarrow> kernel res" where
  "kprintf fpu fmt vs k = bindr (printf fpu fmt vs (k_tty k)) (\<lambda>(_, st). Ok (k\<lparr>k_tty := p_tty st\<rparr>))"

section \<open>A load as the processor executes it\<close>

text \<open>
  A load of 32 bits through the data segment, which \<open>_gdt_flush\<close> sets to entry 2 of the table: the
  segment is checked first (vector 13), then the pages of the four bytes (vector 14).
\<close>

definition linear_translate :: "vmm \<Rightarrow> u32 \<Rightarrow> u32 option" where
  "linear_translate st a = (if paging_on st then translate st a else Some a)"

definition load32 :: "kernel \<Rightarrow> u32 \<Rightarrow> u32 + u32" where
  "load32 k a =
     (let e = gdt_entries (k_gdt k) ! 2 in
      if \<not> seg_present e \<or> seg_last e < unat a + 3 then Inl 13
      else (case those (map (\<lambda>i. linear_translate (k_vmm k) (seg_base e + a + of_nat i)) [0..<4]) of
         None \<Rightarrow> Inl 14
       | Some ps \<Rightarrow> Inr (un_le32 (map (\<lambda>p. k_ram k (unat p)) ps))))"

section \<open>The handlers\<close>

definition page_fault :: "'d fpu \<Rightarrow> cpu_state \<Rightarrow> kernel \<Rightarrow> outcome res" where
  "page_fault fpu state k =
     bindr (kprintf fpu (cbytes (''Page fault!'' @ [CHR 0x0A])) [] k) (\<lambda>k. abort fpu (k_tty k))"

text \<open>The load of \<open>timer_callback\<close> and what follows it: the part that is executed again after a fault.\<close>

definition timer_load :: "'d fpu \<Rightarrow> kernel \<Rightarrow> outcome res" where
  "timer_load fpu k = (case load32 k 0xFFFFFFFF of
       Inl v \<Rightarrow> Ok (Faults v k)
     | Inr tmp \<Rightarrow> bindr (kprintf fpu (cbytes (''value: %d'' @ [CHR 0x0A])) [Word32 tmp] k) (\<lambda>k. Ok (Resumes k)))"

definition timer_callback :: "'d fpu \<Rightarrow> cpu_state \<Rightarrow> kernel \<Rightarrow> outcome res" where
  "timer_callback fpu regs k =
     (let k = k\<lparr>k_io := PIC_sendEOI (ucast (int_no regs - 32)) (k_io k)\<rparr>;
          k = k\<lparr>k_tick := k_tick k + 1\<rparr>
      in if k_tick k mod 250 = 0 then timer_load fpu k else Ok (Resumes k))"

definition interrupt_handler :: "'d fpu \<Rightarrow> cpu_state \<Rightarrow> kernel \<Rightarrow> outcome res" where
  "interrupt_handler fpu state k =
     bindr (arr_get (k_handlers k) (uint (int_no state))) (\<lambda>h. case h of
       Some Page_fault \<Rightarrow> page_fault fpu state k
     | Some Timer_callback \<Rightarrow> timer_callback fpu state k
     | None \<Rightarrow> bindr (kprintf fpu (cbytes (''Exception occurred with no. %d'' @ [CHR 0x0A])) [Word32 (int_no state)] k)
         (\<lambda>k. Ok (Halts (k\<lparr>k_idt := (k_idt k)\<lparr>if_flag := False\<rparr>\<rparr>))))"

text \<open>
  \<open>init_timer\<close> of kernel.c; the division by a frequency of 0 is undefined.
\<close>

definition init_timer :: "u32 \<Rightarrow> kernel \<Rightarrow> kernel res" where
  "init_timer frequency k =
     bindr (register_int_handler 32 Timer_callback (k_handlers k)) (\<lambda>hs.
     if frequency = 0 then Err Undefined
     else let divisor = 1193180 div frequency;
              h = outb 0x43 0x36 (k_io k);
              lo = ucast (divisor AND 0xFF);
              hi = ucast (drop_bit 8 divisor AND 0xFF);
              h = outb 0x40 lo h;
              h = outb 0x40 hi h
          in Ok (k\<lparr>k_handlers := hs, k_io := h\<rparr>))"

section \<open>Interrupts as the processor delivers them\<close>

text \<open>
  A fault inside a handler is dispatched as well, and if that returns the faulting load is
  executed again. \<open>n\<close> bounds the number of faults that are followed.
\<close>

primrec run_faults :: "nat \<Rightarrow> 'd fpu \<Rightarrow> cpu_state \<Rightarrow> outcome \<Rightarrow> outcome res" where
  "run_faults 0 fpu regs r = Ok r"
| "run_faults (Suc n) fpu regs r = (case r of
     Faults v k \<Rightarrow>
       bindr (interrupt_handler fpu (regs\<lparr>int_no := v\<rparr>) k) (\<lambda>r.
       bindr (run_faults n fpu regs r) (\<lambda>r.
       case r of Resumes k \<Rightarrow> bindr (timer_load fpu k) (run_faults n fpu regs) | _ \<Rightarrow> Ok r))
   | _ \<Rightarrow> Ok r)"

definition set_if :: "bool \<Rightarrow> kernel \<Rightarrow> kernel" where
  "set_if b k = k\<lparr>k_idt := (k_idt k)\<lparr>if_flag := b\<rparr>\<rparr>"

text \<open>
  A hardware interrupt: it waits while the interrupt flag is clear; its gate is an interrupt gate,
  so the flag is clear in the handler and set again by the return.
\<close>

definition irq :: "nat \<Rightarrow> 'd fpu \<Rightarrow> cpu_state \<Rightarrow> kernel \<Rightarrow> outcome res" where
  "irq n fpu regs k =
     (if if_flag (k_idt k)
      then bindr (interrupt_handler fpu regs (set_if False k)) (\<lambda>r.
        bindr (run_faults n fpu regs r) (\<lambda>r.
        case r of Resumes k \<Rightarrow> Ok (Resumes (set_if True k)) | _ \<Rightarrow> Ok r))
      else Ok (Resumes k))"

text \<open>The idle loop of \<open>kernel_main\<close>: \<open>idle n fpu j k k'\<close> is the passing of \<open>j\<close> timer interrupts.\<close>

inductive idle :: "nat \<Rightarrow> 'd fpu \<Rightarrow> nat \<Rightarrow> kernel \<Rightarrow> kernel \<Rightarrow> bool" for n fpu where
  idle_start: "idle n fpu 0 k k"
| idle_tick: "idle n fpu j k k' \<Longrightarrow> int_no regs = 32 \<Longrightarrow> irq n fpu regs k' = Ok (Resumes k'') \<Longrightarrow> idle n fpu (Suc j) k k''"

inductive_cases idle_0E: "idle n fpu 0 k k'"
inductive_cases idle_SucE: "idle n fpu (Suc j) k k'"

section \<open>Printing\<close>

text \<open>\<open>k'\<close> is \<open>k\<close> after the output of \<open>s\<close>.\<close>

definition prints :: "byte list \<Rightarrow> kernel \<Rightarrow> kernel \<Rightarrow> bool" where
  "prints s k k' \<longleftrightarrow> k' = k\<lparr>k_tty := k_tty k'\<rparr> \<and> shown s (k_tty k) (k_tty k')"

lemma prints_ok: "prints s k k' \<Longrightarrow> term_ok (k_tty k')"
  by (auto simp: prints_def dest: shown_ok)

lemma prints_same:
  assumes "prints s k k'"
  shows "k_handlers k' = k_handlers k" "k_gdt k' = k_gdt k" "k_idt k' = k_idt k" "k_vmm k' = k_vmm k"
    "k_io k' = k_io k" "k_tick k' = k_tick k" "k_ram k' = k_ram k"
proof -
  obtain t where "k' = k\<lparr>k_tty := t\<rparr>" using assms unfolding prints_def by blast
  then show "k_handlers k' = k_handlers k" "k_gdt k' = k_gdt k" "k_idt k' = k_idt k" "k_vmm k' = k_vmm k"
    "k_io k' = k_io k" "k_tick k' = k_tick k" "k_ram k' = k_ram k"
    by simp_all
qed

lemma prints_append:
  assumes "prints s k k'" and "prints u k' k''"
  shows "prints (s @ u) k k''"
proof -
  obtain t t' where "k' = k\<lparr>k_tty := t\<rparr>" "k'' = k'\<lparr>k_tty := t'\<rparr>" using assms unfolding prints_def by blast
  then show ?thesis using assms by (auto simp: prints_def intro: shown_append)
qed

lemma kprintf_pieces:
  assumes "term_ok (k_tty k)" and "\<forall>p \<in> set ps. piece_ok p" and "length (concat (map text_of ps)) < 2 ^ 31"
    and "fmt = concat (map format_of ps) @ [0]" and "vs = concat (map args_of ps)"
  shows "\<exists>k'. kprintf fpu fmt vs k = Ok k' \<and> prints (concat (map text_of ps)) k k'"
proof -
  have "\<exists>st. printf fpu fmt vs (k_tty k) = Ok (int (length (concat (map text_of ps))), st) \<and>
      shown (concat (map text_of ps)) (k_tty k) (p_tty st)"
  proof -
    let ?st = "\<lparr>p_tty = k_tty k, p_chars = 0, p_args = vs, p_buf = replicate 256 0, p_stores = []\<rparr>"
    have "ready (concat (map text_of ps)) ?st" using assms(1,3) by (simp add: ready_def)
    then show ?thesis
      using pieces_ok [of ps ?st "[]" fpu] assms(2,4,5) by (auto simp: printf_def vprintf_def emits_def)
  qed
  then show ?thesis by (auto simp: kprintf_def prints_def)
qed

text \<open>A message without conversions.\<close>

lemma kprintf_message:
  assumes "term_ok (k_tty k)" and "length s < 2 ^ 31" and "0 \<notin> set (map (of_char :: char \<Rightarrow> byte) s)" and "37 \<notin> set (map (of_char :: char \<Rightarrow> byte) s)"
  shows "\<exists>k'. kprintf fpu (cbytes s) [] k = Ok k' \<and> prints (map of_char s) k k'"
  using kprintf_pieces [OF assms(1), of "[Lit (map of_char s)]" "cbytes s" "[]" fpu] assms(2-4)
  by (simp add: cbytes_def)

section \<open>Properties\<close>

text \<open>An idle kernel, for the witnesses: the tables that the boot leaves and a blank screen.\<close>

definition idle_regs :: cpu_state where
  "idle_regs = \<lparr>c_cr2 = 0, c_edi = 0, c_esi = 0, c_ebp = 0, c_esp = 0, c_ebx = 0, c_edx = 0, c_ecx = 0, c_eax = 0,
     int_no = 32, err_code = 0, c_eip = 0, c_cs = 8, c_eflags = 0, c_useresp = 0, c_ss = 0\<rparr>"

definition idle_kernel :: kernel where
  "idle_kernel = \<lparr>k_tty = blank_tty, k_handlers = (replicate 256 None)[14 := Some Page_fault, 32 := Some Timer_callback],
     k_gdt = \<lparr>gdt_entries = replicate 5 \<lparr>limit_low = 0xFFFF, base_low = 0, base_middle = 0, g_access = 0x92, granularity = 0xC0,
         base_high = 0\<rparr>, gdt_ptr = \<lparr>tp_limit = 39, tp_base = 0\<rparr>, gdtr = None\<rparr>,
     k_idt = \<lparr>idt = [], idt_ptr = \<lparr>tp_limit = 0, tp_base = 0\<rparr>, idtr = None, if_flag = True\<rparr>,
     k_vmm = boot_vmm, k_io = [], k_tick = 0, k_ram = \<lambda>_. 0\<rparr>"

lemma exception_text_ok:
  assumes "term_ok (k_tty k)" and "sint v \<noteq> - (2 ^ 31)"
  shows "\<exists>k'. kprintf fpu (cbytes (''Exception occurred with no. %d'' @ [CHR 0x0A])) [Word32 v] k = Ok k' \<and>
    prints (map of_char ''Exception occurred with no. '' @ text_of (Conv_d v) @ [10]) k k'"
proof -
  have "length (text_of (Conv_d v)) \<le> 100"
    using length_raw_text [of "sint v" 10 False False] length_takeWhile_le [of "\<lambda>c. c \<noteq> 0" "raw_text (sint v) 10 False False"]
    by (simp add: cstr_def a_base_def is_int32_sint)
  then show ?thesis
    using kprintf_pieces [OF assms(1), of "[Lit (map of_char ''Exception occurred with no. ''), Conv_d v, Lit [10]]"
        "cbytes (''Exception occurred with no. %d'' @ [CHR 0x0A])" "[Word32 v]" fpu] assms(2)
    by (simp add: cbytes_def)
qed


text \<open>
  What \<open>%d\<close> prints of a vector: its decimal digits up to the first one above 4, as the digit table of
  \<open>__int_str\<close> ends there.
\<close>

definition vector_text :: "nat \<Rightarrow> byte list" where
  "vector_text v = map (\<lambda>d. 48 + of_nat d) (takeWhile (\<lambda>d. d < 5) (digits 10 v))"

lemma sint_vector: "unat (w :: u32) < 256 \<Longrightarrow> sint w = int (unat w)"
proof -
  assume "unat w < 256"
  then have "sint (of_nat (unat w) :: u32) = int (unat w)" by (intro sint_of_nat32) simp
  then show ?thesis by simp
qed

lemma table_10: "d < 10 \<Longrightarrow> table 10 ! d = (if d < 5 then 48 + of_nat d else 0)"
proof -
  assume "d < 10"
  then have "d \<in> {0, 1, 2, 3, 4, 5, 6, 7, 8, 9}" by auto
  then show ?thesis by (auto simp: table_def table_text_def)
qed

lemma text_of_vector:
  assumes "unat w < 256"
  shows "text_of (Conv_d w) = vector_text (unat w)"
proof -
  let ?ds = "digits 10 (unat w)"
  have d: "d < 10" if "d \<in> set ?ds" for d using digits_less [OF _ that] by simp
  have "text_of (Conv_d w) = cstr (map ((!) (table 10)) ?ds)"
    using sint_vector [OF assms] by (simp add: raw_text_def sign_text_def radix_def)
  also have "\<dots> = map ((!) (table 10)) (takeWhile (\<lambda>d. table 10 ! d \<noteq> 0) ?ds)"
    by (simp add: cstr_def takeWhile_map comp_def)
  also have "takeWhile (\<lambda>d. table 10 ! d \<noteq> 0) ?ds = takeWhile (\<lambda>d. d < 5) ?ds"
  proof (rule takeWhile_cong [OF refl])
    fix e assume "e \<in> set ?ds"
    note less = d [OF this]
    then have "e \<in> {0, 1, 2, 3, 4, 5, 6, 7, 8, 9}" by auto
    then show "table 10 ! e \<noteq> 0 \<longleftrightarrow> e < 5" using table_10 [OF less] by auto
  qed
  also have "map ((!) (table 10)) (takeWhile (\<lambda>d. d < 5) ?ds) = vector_text (unat w)"
    unfolding vector_text_def using d by (intro map_cong) (auto simp: table_10 dest: set_takeWhileD)
  finally show ?thesis .
qed

lemma unhandled_halts:
  assumes "length (k_handlers k) = 256" and "unat (int_no regs) < 256" and "k_handlers k ! unat (int_no regs) = None"
    and "term_ok (k_tty k)"
  shows "\<exists>k'. interrupt_handler fpu regs k = Ok (Halts (set_if False k')) \<and>
    prints (map of_char ''Exception occurred with no. '' @ vector_text (unat (int_no regs)) @ [10]) k k'"
proof -
  have "0 \<le> sint (int_no regs)" by (simp only: sint_vector [OF assms(2)] of_nat_0_le_iff)
  have "sint (int_no regs) \<noteq> - (2 ^ 31)"
  proof
    assume "sint (int_no regs) = - (2 ^ 31)"
    with \<open>0 \<le> sint (int_no regs)\<close> show False by simp
  qed
  moreover have "int (unat (int_no regs)) < 256" using assms(2) by linarith
  then have "uint (int_no regs) < 256" by simp
  ultimately show ?thesis
    using exception_text_ok [OF assms(4), of "int_no regs" fpu] assms(1-3) text_of_vector [OF assms(2)]
    by (auto simp: interrupt_handler_def arr_get_def set_if_def simp del: text_of.simps)
qed

text \<open>
  C26: an interrupt whose vector (below 256) has no handler prints "Exception occurred with no. ", the decimal
  digits of the vector up to the first digit above 4 (so vector 13 is reported as 13, 15 as 1 and 8 without a
  number) and a newline, and stops the processor with interrupts disabled; nothing else changes.
\<close>

theorem unhandled_interrupt_halts:
  assumes "length (k_handlers k) = 256" and "unat (int_no regs) < 256" and "k_handlers k ! unat (int_no regs) = None"
    and "term_ok (k_tty k)"
  shows "\<exists>k'. interrupt_handler fpu regs k = Ok (Halts (set_if False k')) \<and>
    prints (map of_char ''Exception occurred with no. '' @
      map (\<lambda>d. 48 + of_nat d) (takeWhile (\<lambda>d. d < 5) (digits 10 (unat (int_no regs)))) @ [10]) k k'"
  using unhandled_halts [OF assms] by (simp add: vector_text_def)

text \<open>
  What the demonstration needs: the handlers of the kernel, its data segment of 256 MB, and
  interrupts enabled.
\<close>

definition timer_ready :: "kernel \<Rightarrow> bool" where
  "timer_ready k \<longleftrightarrow> length (k_handlers k) = 256 \<and> k_handlers k ! 32 = Some Timer_callback \<and> k_handlers k ! 13 = None \<and>
     seg_last (gdt_entries (k_gdt k) ! 2) = 2 ^ 28 - 1 \<and> if_flag (k_idt k) \<and> term_ok (k_tty k)"

lemma idle_kernel_ready: "timer_ready idle_kernel"
  by (simp add: timer_ready_def idle_kernel_def blank_tty_ok seg_last_def seg_limit_def)

lemma timer_loads_fault: "timer_ready k \<Longrightarrow> load32 k 0xFFFFFFFF = Inl 13"
  by (simp add: timer_ready_def load32_def)

definition ticked :: "kernel \<Rightarrow> kernel" where
  "ticked k = k\<lparr>k_io := PIC_sendEOI 0 (k_io k), k_tick := k_tick k + 1\<rparr>"

lemma ticked_set_if: "ticked (set_if b k) = set_if b (ticked k)" "set_if b (set_if c k) = set_if b k"
  "if_flag (k_idt k) \<Longrightarrow> set_if True k = k"
  by (cases k; simp add: ticked_def set_if_def)+

lemma timer_handler:
  assumes "timer_ready k" and "int_no regs = 32"
  shows "interrupt_handler fpu regs (set_if False k) =
    (if (k_tick k + 1) mod 250 = 0 then timer_load fpu (set_if False (ticked k)) else Ok (Resumes (set_if False (ticked k))))"
proof -
  have "interrupt_handler fpu regs (set_if False k) = timer_callback fpu regs (set_if False k)"
    using assms by (simp add: timer_ready_def interrupt_handler_def arr_get_def set_if_def)
  also have "\<dots> = (let k = ticked (set_if False k) in if k_tick k mod 250 = 0 then timer_load fpu k else Ok (Resumes k))"
    using assms(2) by (simp add: timer_callback_def ticked_def Let_def)
  finally show ?thesis by (simp add: ticked_set_if Let_def) (simp add: set_if_def ticked_def)
qed

lemma timer_irq:
  assumes "timer_ready k" and "int_no regs = 32" and "(k_tick k + 1) mod 250 \<noteq> 0"
  shows "irq n fpu regs k = Ok (Resumes (ticked k))"
proof -
  have "if_flag (k_idt k)" "if_flag (k_idt (ticked k))" using assms(1) by (simp_all add: timer_ready_def ticked_def)
  then show ?thesis
    using assms(3) timer_handler [OF assms(1,2), of fpu] by (cases n) (simp_all add: irq_def ticked_set_if)
qed

lemma vector_13: "vector_text 13 = map of_char ''13''"
  by (simp add: vector_text_def digits.simps)

lemma timer_irq_250:
  assumes "timer_ready k" and "int_no regs = 32" and "(k_tick k + 1) mod 250 = 0" and "0 < n"
  shows "\<exists>k'. irq n fpu regs k = Ok (Halts k') \<and> k' = set_if False (ticked k)\<lparr>k_tty := k_tty k'\<rparr> \<and>
    shown (map of_char (''Exception occurred with no. 13'' @ [CHR 0x0A])) (k_tty k) (k_tty k')"
proof -
  obtain m where n: "n = Suc m" using assms(4) by (cases n) auto
  let ?k = "set_if False (ticked k)"
  have r: "load32 ?k 0xFFFFFFFF = Inl 13"
    using assms(1) by (simp add: timer_ready_def load32_def set_if_def ticked_def)
  have one: "interrupt_handler fpu regs (set_if False k) = Ok (Faults 13 ?k)"
    using assms(3) r timer_handler [OF assms(1,2), of fpu] by (simp add: timer_load_def)
  have "\<exists>k'. interrupt_handler fpu (regs\<lparr>int_no := 13\<rparr>) ?k = Ok (Halts (set_if False k')) \<and>
    prints (map of_char ''Exception occurred with no. '' @ vector_text (unat (int_no (regs\<lparr>int_no := 13\<rparr>))) @ [10]) ?k k'"
    using assms(1) by (intro unhandled_halts) (simp_all add: timer_ready_def set_if_def ticked_def)
  then obtain k' where k': "interrupt_handler fpu (regs\<lparr>int_no := 13\<rparr>) ?k = Ok (Halts (set_if False k'))"
    "prints (map of_char (''Exception occurred with no. 13'' @ [CHR 0x0A])) ?k k'"
    by (auto simp: vector_13)
  have "run_faults m fpu regs (Halts (set_if False k')) = Ok (Halts (set_if False k'))"
    by (cases m) simp_all
  then have "irq n fpu regs k = Ok (Halts (set_if False k'))"
    using assms(1) one k'(1) by (simp add: irq_def n timer_ready_def)
  moreover have "k' = ?k\<lparr>k_tty := k_tty k'\<rparr>" using k'(2) by (simp add: prints_def)
  then have "set_if False k' = ?k\<lparr>k_tty := k_tty (set_if False k')\<rparr>"
    by (cases k'; cases k) (simp add: set_if_def ticked_def)
  moreover have "shown (map of_char (''Exception occurred with no. 13'' @ [CHR 0x0A])) (k_tty k) (k_tty (set_if False k'))"
    using k'(2) by (simp add: prints_def set_if_def ticked_def)
  ultimately show ?thesis by blast
qed

lemma unhandled_interrupt_halts_witness:
  "\<exists>k'. interrupt_handler no_fpu (idle_regs\<lparr>int_no := 8\<rparr>) idle_kernel = Ok (Halts (set_if False k')) \<and>
    prints (map of_char (''Exception occurred with no. '' @ [CHR 0x0A])) idle_kernel k'"
  using unhandled_interrupt_halts [of idle_kernel "idle_regs\<lparr>int_no := 8\<rparr>" no_fpu]
  by (simp add: idle_kernel_def idle_regs_def blank_tty_ok digits_small)

lemma timer_ready_ticked: "timer_ready k \<Longrightarrow> timer_ready (ticked k)"
  by (simp add: timer_ready_def ticked_def)

lemma ticked_eq: "ticked k = k\<lparr>k_io := k_io k @ [Out 0x20 0x20], k_tick := k_tick k + 1\<rparr>"
  by (simp add: ticked_def PIC_sendEOI_eq PIC1_COMMAND_def)

lemma ticked_n:
  "timer_ready k \<Longrightarrow> timer_ready ((ticked ^^ j) k)"
  "(ticked ^^ j) k = k\<lparr>k_io := k_io k @ replicate j (Out 0x20 0x20), k_tick := k_tick k + of_nat j\<rparr>"
proof -
  show "timer_ready k \<Longrightarrow> timer_ready ((ticked ^^ j) k)"
    by (induction j) (auto simp: timer_ready_ticked)
  show "(ticked ^^ j) k = k\<lparr>k_io := k_io k @ replicate j (Out 0x20 0x20), k_tick := k_tick k + of_nat j\<rparr>"
    by (induction j) (simp_all add: ticked_eq replicate_append_same add.commute)
qed

lemma tick_mod: "j < 249 \<Longrightarrow> ((of_nat j + 1) :: u32) mod 250 \<noteq> 0"
proof
  assume j: "j < 249" and "((of_nat j + 1) :: u32) mod 250 = 0"
  then have "unat (((of_nat j + 1) :: u32) mod 250) = 0" by simp
  moreover have "unat (of_nat (j + 1) :: u32) = j + 1"
    using j by (simp only: unat_of_nat) simp
  then have "unat ((of_nat j + 1) :: u32) = j + 1" by (simp add: add.commute)
  ultimately show False using j by (simp add: unat_mod)
qed

lemma idle_ticks:
  assumes "timer_ready k" and "k_tick k = 0" and "j < 250"
  shows "idle n fpu j k k' \<longleftrightarrow> k' = (ticked ^^ j) k"
  using assms(3)
proof (induction j arbitrary: k')
  case 0
  then show ?case by (auto intro: idle_start elim: idle_0E)
next
  case (Suc j)
  have t: "irq n fpu regs ((ticked ^^ j) k) = Ok (Resumes ((ticked ^^ Suc j) k))" if "int_no regs = 32" for regs
    using timer_irq [OF ticked_n(1) [OF assms(1)] that, of j n fpu] tick_mod [of j] Suc.prems assms(2)
    by (simp add: ticked_n)
  show ?case
  proof
    assume "idle n fpu (Suc j) k k'"
    then show "k' = (ticked ^^ Suc j) k" using Suc t by (auto elim!: idle_SucE)
  next
    assume "k' = (ticked ^^ Suc j) k"
    moreover have "idle n fpu j k ((ticked ^^ j) k)" using Suc by simp
    moreover have "int_no (idle_regs\<lparr>int_no := 32\<rparr>) = 32" by simp
    ultimately show "idle n fpu (Suc j) k k'" using t idle_tick by metis
  qed
qed

text \<open>
  C25: the demonstration, on a kernel with its 256 handlers (the timer's at 32, none at 13), its data segment
  of 256 MB, interrupts enabled, a terminal in bounds and \<open>tick\<close> at 0. In the idle loop the first 249 timer interrupts add one to \<open>tick\<close>, write one
  acknowledgement, 0x20 to port 0x20, each, and change nothing else; the 250th, acknowledged too, stops the machine
  with interrupts disabled and "Exception occurred with no. 13" on the screen. The load at 0xFFFFFFFF violates the
  limit of the kernel's data segment, which is checked before the page tables, so the page fault that the kernel
  announces does not occur and its handler is not called.
\<close>

theorem timer_demo:
  assumes "timer_ready k" and "k_tick k = 0" and "0 < n" and "j < 250"
  shows "idle n fpu j k = (\<lambda>k'. k' = k\<lparr>k_io := k_io k @ replicate j (Out 0x20 0x20), k_tick := of_nat j\<rparr>) \<and>
    (\<exists>t. irq n fpu (regs\<lparr>int_no := 32\<rparr>) (k\<lparr>k_io := k_io k @ replicate 249 (Out 0x20 0x20), k_tick := 249\<rparr>) =
        Ok (Halts (k\<lparr>k_io := k_io k @ replicate 250 (Out 0x20 0x20), k_tick := 250, k_idt := (k_idt k)\<lparr>if_flag := False\<rparr>,
          k_tty := t\<rparr>)) \<and>
      shown (map of_char (''Exception occurred with no. 13'' @ [CHR 0x0A])) (k_tty k) t)"
proof
  show "idle n fpu j k = (\<lambda>k'. k' = k\<lparr>k_io := k_io k @ replicate j (Out 0x20 0x20), k_tick := of_nat j\<rparr>)"
    using idle_ticks [OF assms(1,2,4), of n fpu] assms(2) by (simp add: ticked_n(2) fun_eq_iff)
  let ?k = "(ticked ^^ 249) k"
  have k: "?k = k\<lparr>k_io := k_io k @ replicate 249 (Out 0x20 0x20), k_tick := 249\<rparr>"
    "(ticked ^^ 250) k = k\<lparr>k_io := k_io k @ replicate 250 (Out 0x20 0x20), k_tick := 250\<rparr>"
    unfolding ticked_n(2) assms(2) by simp_all
  have "ticked ?k = (ticked ^^ Suc 249) k" by (simp only: funpow.simps comp_def)
  then have t: "ticked ?k = k\<lparr>k_io := k_io k @ replicate 250 (Out 0x20 0x20), k_tick := 250\<rparr>" using k(2) by simp
  have "k_tick ?k = 249" "k_tty ?k = k_tty k" unfolding k(1) by simp_all
  then have "(k_tick ?k + 1) mod 250 = 0" by simp
  then obtain k'' where kk: "irq n fpu (regs\<lparr>int_no := 32\<rparr>) ?k = Ok (Halts k'')"
      "k'' = set_if False (ticked ?k)\<lparr>k_tty := k_tty k''\<rparr>"
      "shown (map of_char (''Exception occurred with no. 13'' @ [CHR 0x0A])) (k_tty ?k) (k_tty k'')"
    using timer_irq_250 [OF ticked_n(1) [OF assms(1), of 249] _ _ assms(3), of "regs\<lparr>int_no := 32\<rparr>" fpu]
    by (auto simp del: list.map map_append append.simps)
  from kk(2) have "k'' = k\<lparr>k_io := k_io k @ replicate 250 (Out 0x20 0x20), k_tick := 250, k_idt := (k_idt k)\<lparr>if_flag := False\<rparr>,
      k_tty := k_tty k''\<rparr>"
    unfolding t by (simp add: set_if_def)
  with kk(1,3) show "\<exists>t. irq n fpu (regs\<lparr>int_no := 32\<rparr>) (k\<lparr>k_io := k_io k @ replicate 249 (Out 0x20 0x20), k_tick := 249\<rparr>) =
        Ok (Halts (k\<lparr>k_io := k_io k @ replicate 250 (Out 0x20 0x20), k_tick := 250, k_idt := (k_idt k)\<lparr>if_flag := False\<rparr>,
          k_tty := t\<rparr>)) \<and>
      shown (map of_char (''Exception occurred with no. 13'' @ [CHR 0x0A])) (k_tty k) t"
    unfolding \<open>k_tty ?k = k_tty k\<close> unfolding k(1) by (intro exI [of _ "k_tty k''"]) simp
qed

lemma timer_demo_witness:
  "idle 1 no_fpu 7 idle_kernel = (\<lambda>k'. k' = idle_kernel\<lparr>k_io := k_io idle_kernel @ replicate 7 (Out 0x20 0x20), k_tick := of_nat 7\<rparr>) \<and>
    (\<exists>t. irq 1 no_fpu (idle_regs\<lparr>int_no := 32\<rparr>)
          (idle_kernel\<lparr>k_io := k_io idle_kernel @ replicate 249 (Out 0x20 0x20), k_tick := 249\<rparr>) =
        Ok (Halts (idle_kernel\<lparr>k_io := k_io idle_kernel @ replicate 250 (Out 0x20 0x20), k_tick := 250,
          k_idt := (k_idt idle_kernel)\<lparr>if_flag := False\<rparr>, k_tty := t\<rparr>)) \<and>
      shown (map of_char (''Exception occurred with no. 13'' @ [CHR 0x0A])) (k_tty idle_kernel) t)"
  by (rule timer_demo) (simp_all add: idle_kernel_ready, simp add: idle_kernel_def)

text \<open>
  \<open>init_timer\<close> registers the timer's handler and programs channel 0 of the interval timer as a
  square wave with the divisor of the frequency, its low byte first.
\<close>

theorem init_timer_programs:
  assumes "length (k_handlers k) = 256" and "19 \<le> unat f"
  shows "\<exists>lo hi. init_timer f k = Ok (k\<lparr>k_handlers := (k_handlers k)[32 := Some Timer_callback],
      k_io := k_io k @ [Out 0x43 0x36, Out 0x40 lo, Out 0x40 hi]\<rparr>) \<and> unat lo + 256 * unat hi = 1193180 div unat f"
proof -
  let ?d = "1193180 div f"
  have d: "unat ?d = 1193180 div unat f" by (simp add: unat_div)
  have "unat ?d \<le> 1193180 div 19" unfolding d using assms(2) by (intro div_le_mono2) simp_all
  then have less: "unat ?d < 2 ^ 16" by simp
  have ff: "(0xFF :: u32) = mask 8" by (simp add: mask_eq_exp_minus_1)
  have byte: "unat (ucast (w AND 0xFF) :: byte) = unat w mod 256" for w :: u32
    unfolding ff take_bit_eq_mask [symmetric] by (simp add: unsigned_ucast_eq unsigned_take_bit_eq) (simp add: take_bit_eq_mod)
  have "unat (drop_bit 8 ?d) = unat ?d div 256"
    by (simp add: drop_bit_eq_div unat_div)
  moreover have "unat ?d div 256 < 256" using less by simp
  ultimately have "unat (ucast (?d AND 0xFF) :: byte) + 256 * unat (ucast (drop_bit 8 ?d AND 0xFF) :: byte) = 1193180 div unat f"
    unfolding byte d [symmetric] by simp
  then show ?thesis
    using assms by (auto simp: init_timer_def register_int_handler_def arr_set_def outb_def Let_def)
qed

lemma init_timer_programs_witness:
  "\<exists>lo hi. init_timer 50 idle_kernel = Ok (idle_kernel\<lparr>k_handlers := (k_handlers idle_kernel)[32 := Some Timer_callback],
      k_io := k_io idle_kernel @ [Out 0x43 0x36, Out 0x40 lo, Out 0x40 hi]\<rparr>) \<and> unat lo + 256 * unat hi = 1193180 div unat (50 :: u32)"
  by (rule init_timer_programs) (simp_all add: idle_kernel_def)

end
