(* ===== verification/Disk.thy ===== *)
theory Disk
  imports Bitmap
begin

text \<open>
  The disk driver interface (kernel/include/kernel/disk_driver.h), the wrappers \<open>Read\<close> and
  \<open>Write\<close> of the file system on it, and its contract as two locales. The providers are the
  initrd driver (kernel/arch/i386/drivers/initrd.c) and the open image file of the host tools.
\<close>

section \<open>The driver and the seek-and-transfer wrappers\<close>

text \<open>
  \<open>dd_read n\<close> gives the bytes it stored in the buffer; their number is the call's result.
  \<open>dd_write\<close> takes the buffer's bytes and gives the number written.
\<close>

record 'd disk_driver =
  dd_init :: "'d \<Rightarrow> (u32 \<times> 'd) res"
  dd_read :: "nat \<Rightarrow> 'd \<Rightarrow> (byte list \<times> 'd) res"
  dd_write :: "byte list \<Rightarrow> 'd \<Rightarrow> (nat \<times> 'd) res"
  dd_lseek :: "int \<Rightarrow> 'd \<Rightarrow> (int \<times> 'd) res"
  dd_clean :: "'d \<Rightarrow> (u32 \<times> 'd) res"
  dd_fsync :: "'d \<Rightarrow> (u32 \<times> 'd) res"

text \<open>\<open>Read\<close> returns -1 as None and 0 as the bytes read; \<open>Write\<close> returns its int.\<close>

definition Read :: "'d disk_driver \<Rightarrow> int \<Rightarrow> nat \<Rightarrow> 'd \<Rightarrow> (byte list option \<times> 'd) res" where
  "Read drv addr count d = bindr (dd_lseek drv addr d) (\<lambda>(rc, d).
     if rc = - 1 then Ok (None, d)
     else bindr (dd_read drv count d) (\<lambda>(bs, d).
       if length bs \<noteq> count then Ok (None, d) else Ok (Some bs, d)))"

definition Write :: "'d disk_driver \<Rightarrow> int \<Rightarrow> byte list \<Rightarrow> 'd \<Rightarrow> (int \<times> 'd) res" where
  "Write drv addr bs d = bindr (dd_lseek drv addr d) (\<lambda>(rc, d).
     if rc = - 1 then Ok (- 1, d)
     else bindr (dd_write drv bs d) (\<lambda>(n, d).
       if n \<noteq> length bs then Ok (- 1, d) else Ok (0, d)))"

section \<open>The contract\<close>

locale disk_reader =
  fixes drv :: "'d disk_driver"
    and dok :: "'d \<Rightarrow> bool"
    and bytes :: "'d \<Rightarrow> nat \<Rightarrow> byte"
    and lim :: "'d \<Rightarrow> nat"
    and pos :: "'d \<Rightarrow> nat"
  assumes lseek_law: "dok d \<Longrightarrow> n \<le> lim d \<Longrightarrow>
      \<exists>rc d'. dd_lseek drv (int n) d = Ok (rc, d') \<and> rc \<noteq> - 1 \<and> dok d' \<and>
        bytes d' = bytes d \<and> lim d' = lim d \<and> pos d' = n"
    and read_law: "dok d \<Longrightarrow> pos d + n \<le> lim d \<Longrightarrow>
      \<exists>d'. dd_read drv n d = Ok (rd (bytes d) (pos d) n, d') \<and> dok d' \<and>
        bytes d' = bytes d \<and> lim d' = lim d \<and> pos d' = pos d + n"
begin

text \<open>A disk state reached by reading only.\<close>

definition same :: "'d \<Rightarrow> 'd \<Rightarrow> bool" where
  "same d d' \<longleftrightarrow> dok d' \<and> bytes d' = bytes d \<and> lim d' = lim d"

lemma same_refl: "dok d \<Longrightarrow> same d d"
  by (simp add: same_def)

lemma same_trans: "same d d' \<Longrightarrow> same d' d'' \<Longrightarrow> same d d''"
  by (simp add: same_def)

lemma same_dok: "same d d' \<Longrightarrow> dok d'"
  by (simp add: same_def)

lemma seek_same:
  assumes "dok d" and "n \<le> lim d"
  obtains rc d' where "dd_lseek drv (int n) d = Ok (rc, d')" "rc \<noteq> - 1" "same d d'" "pos d' = n"
  using lseek_law [OF assms] unfolding same_def by blast

lemma read_same:
  assumes "dok d" and "pos d + n \<le> lim d"
  obtains d' where "dd_read drv n d = Ok (rd (bytes d) (pos d) n, d')" "same d d'"
    "pos d' = pos d + n"
  using read_law [OF assms] unfolding same_def by blast

lemma Read_ok:
  assumes "dok d" and "a + n \<le> lim d"
  obtains d' where "Read drv (int a) n d = Ok (Some (rd (bytes d) a n), d')" "same d d'"
proof -
  from assms obtain rc d1 where 1: "dd_lseek drv (int a) d = Ok (rc, d1)" "rc \<noteq> - 1"
    "same d d1" "pos d1 = a"
    by (meson add_leD1 seek_same)
  then have "dok d1" "pos d1 + n \<le> lim d1" "bytes d1 = bytes d"
    using assms(2) by (simp_all add: same_def)
  then obtain d2 where "dd_read drv n d1 = Ok (rd (bytes d) a n, d2)" "same d1 d2"
    using 1 by (metis read_same)
  with 1 show thesis
    by (intro that [of d2]) (auto simp: Read_def intro: same_trans)
qed

end

locale disk_store = disk_reader +
  assumes write_law: "dok d \<Longrightarrow> pos d + length bs \<le> lim d \<Longrightarrow>
      \<exists>d'. dd_write drv bs d = Ok (length bs, d') \<and> dok d' \<and>
        bytes d' = wr (bytes d) (pos d) bs \<and> lim d' = lim d \<and> pos d' = pos d + length bs"
    and fsync_law: "dok d \<Longrightarrow>
      \<exists>r d'. dd_fsync drv d = Ok (r, d') \<and> dok d' \<and> bytes d' = bytes d \<and> lim d' = lim d"
begin

definition stored :: "'a \<Rightarrow> nat \<Rightarrow> byte list \<Rightarrow> 'a \<Rightarrow> bool" where
  "stored d a bs d' \<longleftrightarrow> dok d' \<and> bytes d' = wr (bytes d) a bs \<and> lim d' = lim d"

lemma Write_ok:
  assumes "dok d" and "a + length bs \<le> lim d"
  obtains d' where "Write drv (int a) bs d = Ok (0, d')" "stored d a bs d'"
proof -
  from assms obtain rc d1 where 1: "dd_lseek drv (int a) d = Ok (rc, d1)" "rc \<noteq> - 1"
    "same d d1" "pos d1 = a"
    by (meson add_leD1 seek_same)
  then have "dok d1" "pos d1 + length bs \<le> lim d1"
    using assms(2) by (simp_all add: same_def)
  then obtain d2 where "dd_write drv bs d1 = Ok (length bs, d2)" "dok d2"
    "bytes d2 = wr (bytes d1) a bs" "lim d2 = lim d1"
    using write_law [of d1 bs] 1 by auto
  with 1 show thesis
    by (intro that [of d2]) (auto simp: Write_def stored_def same_def)
qed

text \<open>What was written is what is read back.\<close>

lemma Write_Read:
  assumes "dok d" and "a + length bs \<le> lim d"
  obtains d' d'' where "Write drv (int a) bs d = Ok (0, d')"
    "Read drv (int a) (length bs) d' = Ok (Some bs, d'')"
proof -
  from assms obtain d' where w: "Write drv (int a) bs d = Ok (0, d')" "stored d a bs d'"
    by (rule Write_ok)
  then have "dok d'" "a + length bs \<le> lim d'" "bytes d' = wr (bytes d) a bs"
    using assms(2) by (simp_all add: stored_def)
  then obtain d'' where "Read drv (int a) (length bs) d' = Ok (Some bs, d'')"
    by (metis Read_ok rd_wr_same)
  with w(1) show thesis by (rule that)
qed

end

section \<open>The initrd driver\<close>

text \<open>
  \<open>initrd_instance\<close> and the physical memory that holds the module. \<open>size_t\<close> is 32 bits wide,
  so the sums of the bounds checks wrap.
\<close>

record initrd =
  start_addr :: u32
  cursor :: u32
  end_addr :: u32
  ram :: "nat \<Rightarrow> byte"

definition initrd_init :: "initrd \<Rightarrow> (u32 \<times> initrd) res" where
  "initrd_init d = Ok (0, d\<lparr>cursor := 0\<rparr>)"

definition initrd_read :: "nat \<Rightarrow> initrd \<Rightarrow> (byte list \<times> initrd) res" where
  "initrd_read n d =
     (if end_addr d \<le> start_addr d + cursor d + of_nat n then Ok ([], d)
      else Ok (rd (ram d) (unat (start_addr d + cursor d)) n, d\<lparr>cursor := cursor d + of_nat n\<rparr>))"

definition initrd_write :: "byte list \<Rightarrow> initrd \<Rightarrow> (nat \<times> initrd) res" where
  "initrd_write bs d = Err Aborted"

text \<open>The result is converted from \<open>uint32_t\<close> to the \<open>int rc\<close> of every caller.\<close>

definition initrd_lseek :: "int \<Rightarrow> initrd \<Rightarrow> (int \<times> initrd) res" where
  "initrd_lseek off d =
     (if end_addr d < start_addr d + of_int off then Ok (sint (- 1 :: u32), d)
      else Ok (0, d\<lparr>cursor := of_int off\<rparr>))"

definition initrd_clean :: "initrd \<Rightarrow> (u32 \<times> initrd) res" where
  "initrd_clean d = Ok (0, d)"

definition initrd_fsync :: "initrd \<Rightarrow> (u32 \<times> initrd) res" where
  "initrd_fsync d = Ok (0, d)"

text \<open>The table of function pointers that \<open>get_initrd_driver\<close> fills in.\<close>

definition initrd_driver :: "initrd disk_driver" where
  "initrd_driver = \<lparr>dd_init = initrd_init, dd_read = initrd_read, dd_write = initrd_write,
     dd_lseek = initrd_lseek, dd_clean = initrd_clean, dd_fsync = initrd_fsync\<rparr>"

text \<open>
  The module occupies \<open>[start_addr, end_addr)\<close>. The test of \<open>initrd_read\<close> is \<open>>=\<close>: a read may
  not reach the last byte, so one byte less can be read than is there.
\<close>

definition initrd_ok :: "initrd \<Rightarrow> bool" where
  "initrd_ok d \<longleftrightarrow> start_addr d < end_addr d \<and> unat (start_addr d) + unat (cursor d) \<le> unat (end_addr d)"

definition initrd_bytes :: "initrd \<Rightarrow> nat \<Rightarrow> byte" where
  "initrd_bytes d i = ram d (unat (start_addr d) + i)"

definition initrd_lim :: "initrd \<Rightarrow> nat" where
  "initrd_lim d = unat (end_addr d) - unat (start_addr d) - 1"

definition initrd_pos :: "initrd \<Rightarrow> nat" where
  "initrd_pos d = unat (cursor d)"

lemma initrd_seek_law:
  assumes "initrd_ok d" and "n \<le> initrd_lim d"
  shows "initrd_lseek (int n) d = Ok (0, d\<lparr>cursor := of_nat n\<rparr>)"
    and "initrd_ok (d\<lparr>cursor := of_nat n\<rparr>)" and "initrd_pos (d\<lparr>cursor := of_nat n\<rparr>) = n"
proof -
  have se: "unat (start_addr d) < unat (end_addr d)"
    using assms(1) by (simp add: initrd_ok_def word_less_nat_alt)
  then have le: "unat (start_addr d) + n < unat (end_addr d)"
    using assms(2) by (simp add: initrd_lim_def)
  then have lt: "unat (start_addr d) + n < 2 ^ 32"
    using unat_u32_less [of "end_addr d"] by simp
  then have n: "unat (of_nat n :: u32) = n"
    by (simp add: unat_of_nat)
  show "initrd_lseek (int n) d = Ok (0, d\<lparr>cursor := of_nat n\<rparr>)"
    using le lt by (simp add: initrd_lseek_def word_less_nat_alt unat_add_small)
  show "initrd_ok (d\<lparr>cursor := of_nat n\<rparr>)"
    using se le n by (simp add: initrd_ok_def word_less_nat_alt)
  show "initrd_pos (d\<lparr>cursor := of_nat n\<rparr>) = n"
    using n by (simp add: initrd_pos_def)
qed

lemma initrd_read_law:
  assumes "initrd_ok d" and "initrd_pos d + n \<le> initrd_lim d"
  shows "initrd_read n d = Ok (rd (initrd_bytes d) (initrd_pos d) n, d\<lparr>cursor := cursor d + of_nat n\<rparr>)"
    and "initrd_ok (d\<lparr>cursor := cursor d + of_nat n\<rparr>)"
    and "initrd_pos (d\<lparr>cursor := cursor d + of_nat n\<rparr>) = initrd_pos d + n"
proof -
  have se: "unat (start_addr d) < unat (end_addr d)"
    using assms(1) by (simp add: initrd_ok_def word_less_nat_alt)
  then have le: "unat (start_addr d) + unat (cursor d) + n < unat (end_addr d)"
    using assms(2) by (simp add: initrd_lim_def initrd_pos_def)
  then have lt: "unat (start_addr d) + unat (cursor d) + n < 2 ^ 32"
    using unat_u32_less [of "end_addr d"] by simp
  then have c: "unat (start_addr d + cursor d) = unat (start_addr d) + unat (cursor d)"
    by (simp add: unat_word_ariths)
  then have s: "unat (start_addr d + cursor d + of_nat n) = unat (start_addr d) + unat (cursor d) + n"
    using lt by (simp add: unat_add_small)
  have p: "unat (cursor d + of_nat n) = unat (cursor d) + n"
    using lt by (simp add: unat_add_small)
  have "rd (ram d) (unat (start_addr d) + unat (cursor d)) n = rd (initrd_bytes d) (unat (cursor d)) n"
    by (rule rd_cong) (simp add: initrd_bytes_def add.assoc)
  then show "initrd_read n d = Ok (rd (initrd_bytes d) (initrd_pos d) n, d\<lparr>cursor := cursor d + of_nat n\<rparr>)"
    using le s c by (simp add: initrd_read_def initrd_pos_def word_le_nat_alt)
  show "initrd_ok (d\<lparr>cursor := cursor d + of_nat n\<rparr>)"
    using se le p by (simp add: initrd_ok_def word_less_nat_alt)
  show "initrd_pos (d\<lparr>cursor := cursor d + of_nat n\<rparr>) = initrd_pos d + n"
    using p by (simp add: initrd_pos_def)
qed

lemma initrd_cursor_frame [simp]:
  "initrd_bytes (d\<lparr>cursor := c\<rparr>) = initrd_bytes d" "initrd_lim (d\<lparr>cursor := c\<rparr>) = initrd_lim d"
  by (auto simp: initrd_bytes_def initrd_lim_def)

interpretation initrd: disk_reader initrd_driver initrd_ok initrd_bytes initrd_lim initrd_pos
  by unfold_locales
    (simp_all add: initrd_driver_def initrd_seek_law initrd_read_law)

section \<open>The image file of the host tools\<close>

text \<open>
  fs/ufs.c works on a file descriptor. The state is the open regular file: its bytes, its
  length and the file offset. \<open>read\<close> is short at the end of the file, \<open>write\<close> extends it
  (a hole reads as zeros), \<open>lseek(SEEK_SET)\<close> fails on a negative offset, and its \<open>off_t\<close>
  result is converted to the \<open>int rc\<close> of the callers. I/O errors of the host are not modelled.
\<close>

record host_file =
  hf_bytes :: "nat \<Rightarrow> byte"
  hf_len :: nat
  hf_pos :: nat

definition host_lseek :: "int \<Rightarrow> host_file \<Rightarrow> (int \<times> host_file) res" where
  "host_lseek off d =
     (if off < 0 then Ok (- 1, d) else Ok (sint (of_int off :: u32), d\<lparr>hf_pos := nat off\<rparr>))"

definition host_read :: "nat \<Rightarrow> host_file \<Rightarrow> (byte list \<times> host_file) res" where
  "host_read n d =
     (let k = min n (hf_len d - hf_pos d)
      in Ok (rd (hf_bytes d) (hf_pos d) k, d\<lparr>hf_pos := hf_pos d + k\<rparr>))"

definition host_write :: "byte list \<Rightarrow> host_file \<Rightarrow> (nat \<times> host_file) res" where
  "host_write bs d =
     (let base = (\<lambda>x. if hf_len d \<le> x \<and> x < hf_pos d then 0 else hf_bytes d x);
          e = hf_pos d + length bs
      in Ok (length bs, d\<lparr>hf_bytes := wr base (hf_pos d) bs, hf_len := max (hf_len d) e, hf_pos := e\<rparr>))"

definition host_ok_call :: "host_file \<Rightarrow> (u32 \<times> host_file) res" where
  "host_ok_call d = Ok (0, d)"

definition host_driver :: "host_file disk_driver" where
  "host_driver = \<lparr>dd_init = host_ok_call, dd_read = host_read, dd_write = host_write,
     dd_lseek = host_lseek, dd_clean = host_ok_call, dd_fsync = host_ok_call\<rparr>"

definition host_ok :: "host_file \<Rightarrow> bool" where
  "host_ok d \<longleftrightarrow> hf_len d < 2 ^ 31 \<and> hf_pos d \<le> hf_len d"

lemma host_seek_law:
  assumes "host_ok d" and "n \<le> hf_len d"
  shows "host_lseek (int n) d = Ok (int n, d\<lparr>hf_pos := n\<rparr>)" "host_ok (d\<lparr>hf_pos := n\<rparr>)"
  using assms by (simp_all add: host_lseek_def host_ok_def sint_of_nat32)

lemma host_write_law:
  assumes "host_ok d" and "hf_pos d + length bs \<le> hf_len d"
  shows "host_write bs d = Ok (length bs, d\<lparr>hf_bytes := wr (hf_bytes d) (hf_pos d) bs,
           hf_len := hf_len d, hf_pos := hf_pos d + length bs\<rparr>)"
proof -
  have "(\<lambda>x. if hf_len d \<le> x \<and> x < hf_pos d then 0 else hf_bytes d x) = hf_bytes d"
    using assms by (intro ext) auto
  then show ?thesis
    using assms by (simp add: host_write_def Let_def)
qed

interpretation host: disk_store host_driver host_ok hf_bytes hf_len hf_pos
proof unfold_locales
  fix d n assume "host_ok d" "n \<le> hf_len d"
  then show "\<exists>rc d'. dd_lseek host_driver (int n) d = Ok (rc, d') \<and> rc \<noteq> - 1 \<and> host_ok d' \<and>
      hf_bytes d' = hf_bytes d \<and> hf_len d' = hf_len d \<and> hf_pos d' = n"
    by (simp add: host_driver_def host_seek_law)
next
  fix d n assume "host_ok d" "hf_pos d + n \<le> hf_len d"
  then show "\<exists>d'. dd_read host_driver n d = Ok (rd (hf_bytes d) (hf_pos d) n, d') \<and> host_ok d' \<and>
      hf_bytes d' = hf_bytes d \<and> hf_len d' = hf_len d \<and> hf_pos d' = hf_pos d + n"
    by (simp add: host_driver_def host_read_def host_ok_def Let_def min_absorb1)
next
  fix d and bs :: "byte list" assume "host_ok d" "hf_pos d + length bs \<le> hf_len d"
  then show "\<exists>d'. dd_write host_driver bs d = Ok (length bs, d') \<and> host_ok d' \<and>
      hf_bytes d' = wr (hf_bytes d) (hf_pos d) bs \<and> hf_len d' = hf_len d \<and>
      hf_pos d' = hf_pos d + length bs"
    by (simp add: host_driver_def host_write_law host_ok_def)
next
  fix d assume "host_ok d"
  then show "\<exists>r d'. dd_fsync host_driver d = Ok (r, d') \<and> host_ok d' \<and>
      hf_bytes d' = hf_bytes d \<and> hf_len d' = hf_len d"
    by (simp add: host_driver_def host_ok_call_def)
qed


section \<open>Properties\<close>

text \<open>
  The initrd driver delivers every range of the module that ends before its last byte, and
  moves the cursor behind it.
\<close>

theorem initrd_read_inside:
  assumes "start_addr d < end_addr d" and "unat (start_addr d) + unat (cursor d) + n < unat (end_addr d)"
  shows "initrd_read n d = Ok (rd (ram d) (unat (start_addr d) + unat (cursor d)) n, d\<lparr>cursor := cursor d + of_nat n\<rparr>)"
proof -
  have "initrd_ok d" "initrd_pos d + n \<le> initrd_lim d"
    using assms by (simp_all add: initrd_ok_def initrd_pos_def initrd_lim_def)
  moreover have "rd (initrd_bytes d) (initrd_pos d) n = rd (ram d) (unat (start_addr d) + unat (cursor d)) n"
    by (rule rd_cong) (simp add: initrd_bytes_def initrd_pos_def add.assoc)
  ultimately show ?thesis using initrd_read_law(1) by simp
qed

lemma initrd_read_inside_witness:
  "let d = \<lparr>start_addr = 0x100000, cursor = 2, end_addr = 0x100010, ram = (\<lambda>x. of_nat x)\<rparr>
   in initrd_read 3 d = Ok (rd (ram d) (unat (start_addr d) + unat (cursor d)) 3, d\<lparr>cursor := cursor d + of_nat 3\<rparr>)"
  unfolding Let_def by (rule initrd_read_inside) simp_all

text \<open>
  C23: because the bounds test is \<open>>=\<close>, a read that ends exactly at the end of the module is refused:
  the last byte of the initrd can not be read.
\<close>

theorem initrd_last_byte:
  assumes "unat (start_addr d) + unat (cursor d) + n = unat (end_addr d)"
  shows "initrd_read n d = Ok ([], d)"
proof -
  have "start_addr d + cursor d + of_nat n = of_nat (unat (start_addr d) + unat (cursor d) + n)"
    by simp
  also have "\<dots> = end_addr d" by (simp only: assms) simp
  finally show ?thesis by (simp add: initrd_read_def)
qed

lemma initrd_last_byte_witness:
  "let d = \<lparr>start_addr = 0x100000, cursor = 15, end_addr = 0x100010, ram = (\<lambda>x. of_nat x)\<rparr>
   in initrd_read 1 d = Ok ([], d)"
  unfolding Let_def by (rule initrd_last_byte) simp_all

end
