(* ===== verification/UfsLayout.thy ===== *)
theory UfsLayout
  imports Disk
begin

text \<open>
  The on-disk structures of the file system (fs/ufs.h, kernel/include/kernel/filesystem.h):
  the C structs as records and their byte layout on the little-endian target, with the round
  trips and the positions of the parts of a directory block.
\<close>

section \<open>The structs\<close>

definition UFS_DIRECTORY :: int where "UFS_DIRECTORY = 0"
definition UFS_REGULAR_FILE :: int where "UFS_REGULAR_FILE = 1"

abbreviation (input) UFS_BLOCK_SIZE :: nat where "UFS_BLOCK_SIZE \<equiv> 4096"
abbreviation (input) DIRECT_PTRS :: nat where "DIRECT_PTRS \<equiv> 30"

record inode_t =
  i_type :: int
  i_size :: int
  i_direct :: "u32 list"

record dir_ent_t =
  de_name :: "byte list"
  de_inum :: int

record super_t =
  inode_bitmap_addr :: int
  inode_bitmap_len :: int
  data_bitmap_addr :: int
  data_bitmap_len :: int
  inode_region_addr :: int
  inode_region_len :: int
  data_region_addr :: int
  data_region_len :: int
  num_inodes :: int
  num_data :: int

abbreviation (input) sizeof_inode :: nat where "sizeof_inode \<equiv> 128"
abbreviation (input) sizeof_dir_ent :: nat where "sizeof_dir_ent \<equiv> 32"
abbreviation (input) sizeof_super :: nat where "sizeof_super \<equiv> 40"

section \<open>Their bytes\<close>

definition enc_words :: "u32 list \<Rightarrow> byte list" where
  "enc_words ws = concat (map le32 ws)"

definition dec_words :: "nat \<Rightarrow> byte list \<Rightarrow> u32 list" where
  "dec_words n bs = map (\<lambda>k. un_le32 (take 4 (drop (4 * k) bs))) [0..<n]"

definition enc_inode :: "inode_t \<Rightarrow> byte list" where
  "enc_inode i = enc_int (i_type i) @ enc_int (i_size i) @ enc_words (i_direct i)"

definition dec_inode :: "byte list \<Rightarrow> inode_t" where
  "dec_inode bs = \<lparr>i_type = dec_int (take 4 bs), i_size = dec_int (take 4 (drop 4 bs)),
     i_direct = dec_words DIRECT_PTRS (drop 8 bs)\<rparr>"

definition enc_dir_ent :: "dir_ent_t \<Rightarrow> byte list" where
  "enc_dir_ent e = de_name e @ enc_int (de_inum e)"

definition dec_dir_ent :: "byte list \<Rightarrow> dir_ent_t" where
  "dec_dir_ent bs = \<lparr>de_name = take 28 bs, de_inum = dec_int (take 4 (drop 28 bs))\<rparr>"

definition super_words :: "super_t \<Rightarrow> int list" where
  "super_words s = [inode_bitmap_addr s, inode_bitmap_len s, data_bitmap_addr s, data_bitmap_len s,
     inode_region_addr s, inode_region_len s, data_region_addr s, data_region_len s,
     num_inodes s, num_data s]"

definition enc_super :: "super_t \<Rightarrow> byte list" where
  "enc_super s = concat (map enc_int (super_words s))"

definition dec_super :: "byte list \<Rightarrow> super_t" where
  "dec_super bs = (let w = (\<lambda>k. dec_int (take 4 (drop (4 * k) bs))) in
     \<lparr>inode_bitmap_addr = w 0, inode_bitmap_len = w 1, data_bitmap_addr = w 2,
      data_bitmap_len = w 3, inode_region_addr = w 4, inode_region_len = w 5,
      data_region_addr = w 6, data_region_len = w 7, num_inodes = w 8, num_data = w 9\<rparr>)"

text \<open>\<open>dir_block_t\<close>: 128 entries.\<close>

definition dec_dir_block :: "byte list \<Rightarrow> dir_ent_t list" where
  "dec_dir_block bs = map (\<lambda>j. dec_dir_ent (take 32 (drop (32 * j) bs))) [0..<128]"

definition enc_dir_block :: "dir_ent_t list \<Rightarrow> byte list" where
  "enc_dir_block es = concat (map enc_dir_ent es)"

text \<open>The values a struct can hold.\<close>

definition inode_typed :: "inode_t \<Rightarrow> bool" where
  "inode_typed i \<longleftrightarrow> is_int32 (i_type i) \<and> is_int32 (i_size i) \<and> length (i_direct i) = DIRECT_PTRS"

definition dir_ent_typed :: "dir_ent_t \<Rightarrow> bool" where
  "dir_ent_typed e \<longleftrightarrow> length (de_name e) = 28 \<and> is_int32 (de_inum e)"

definition super_typed :: "super_t \<Rightarrow> bool" where
  "super_typed s \<longleftrightarrow> (\<forall>x \<in> set (super_words s). is_int32 x)"

section \<open>Round trips\<close>

lemma length_concat_same:
  "\<forall>xs \<in> set xss. length xs = w \<Longrightarrow> length (concat xss) = w * length xss"
  by (induction xss) auto

lemma take_drop_concat:
  "\<forall>xs \<in> set xss. length xs = w \<Longrightarrow> k < length xss \<Longrightarrow> take w (drop (w * k) (concat xss)) = xss ! k"
proof (induction xss arbitrary: k)
  case (Cons xs xss)
  then show ?case by (cases k) simp_all
qed simp

lemma length_enc_words [layout_simps, simp]: "length (enc_words ws) = 4 * length ws"
  using length_concat_same [of "map le32 ws" 4] by (simp add: enc_words_def)

lemma length_dec_words [layout_simps, simp]: "length (dec_words n bs) = n"
  by (simp add: dec_words_def)

lemma dec_enc_words [layout_simps, simp]: "n = length ws \<Longrightarrow> dec_words n (enc_words ws) = ws"
  by (rule nth_equalityI)
     (simp_all add: dec_words_def enc_words_def take_drop_concat)

lemma length_enc_inode [layout_simps, simp]: "inode_typed i \<Longrightarrow> length (enc_inode i) = 128"
  by (simp add: enc_inode_def inode_typed_def)

lemma dec_enc_inode [layout_simps, simp]: "inode_typed i \<Longrightarrow> dec_inode (enc_inode i) = i"
  by (simp add: dec_inode_def enc_inode_def inode_typed_def)

lemma inode_typed_dec [simp]: "inode_typed (dec_inode bs)"
  by (simp add: dec_inode_def inode_typed_def)

lemma length_enc_dir_ent [layout_simps, simp]: "dir_ent_typed e \<Longrightarrow> length (enc_dir_ent e) = 32"
  by (simp add: enc_dir_ent_def dir_ent_typed_def)

lemma dec_enc_dir_ent [layout_simps, simp]: "dir_ent_typed e \<Longrightarrow> dec_dir_ent (enc_dir_ent e) = e"
  by (simp add: dec_dir_ent_def enc_dir_ent_def dir_ent_typed_def)

lemma dir_ent_typed_dec [simp]: "28 \<le> length bs \<Longrightarrow> dir_ent_typed (dec_dir_ent bs)"
  by (simp add: dec_dir_ent_def dir_ent_typed_def)

lemma length_enc_super [layout_simps, simp]: "length (enc_super s) = 40"
  using length_concat_same [of "map enc_int (super_words s)" 4]
  by (simp add: enc_super_def super_words_def)

lemma dec_enc_super [layout_simps, simp]: "super_typed s \<Longrightarrow> dec_super (enc_super s) = s"
  by (simp add: dec_super_def enc_super_def super_words_def super_typed_def)

lemma super_typed_dec [simp]: "super_typed (dec_super bs)"
  by (simp add: dec_super_def super_typed_def super_words_def Let_def)

lemma length_dec_dir_block [layout_simps, simp]: "length (dec_dir_block bs) = 128"
  by (simp add: dec_dir_block_def)

lemma length_enc_dir_block [layout_simps, simp]:
  "\<forall>e \<in> set es. dir_ent_typed e \<Longrightarrow> length (enc_dir_block es) = 32 * length es"
  using length_concat_same [of "map enc_dir_ent es" 32] by (simp add: enc_dir_block_def)

lemma nth_dec_dir_block:
  "j < 128 \<Longrightarrow> dec_dir_block bs ! j = dec_dir_ent (take 32 (drop (32 * j) bs))"
  by (simp add: dec_dir_block_def)

lemma dir_block_ent:
  "\<forall>e \<in> set es. dir_ent_typed e \<Longrightarrow> j < length es \<Longrightarrow>
   take 32 (drop (32 * j) (enc_dir_block es)) = enc_dir_ent (es ! j)"
  using take_drop_concat [of "map enc_dir_ent es" 32 j] by (simp add: enc_dir_block_def)

text \<open>The entries of a block that is read from a store are those at its 32-byte positions.\<close>

definition ent_at :: "(nat \<Rightarrow> byte) \<Rightarrow> nat \<Rightarrow> nat \<Rightarrow> dir_ent_t" where
  "ent_at c b j = dec_dir_ent (rd c (b * UFS_BLOCK_SIZE + 32 * j) 32)"

lemma dec_dir_block_rd:
  "dec_dir_block (rd c (b * UFS_BLOCK_SIZE) UFS_BLOCK_SIZE) = map (ent_at c b) [0..<128]"
  by (rule nth_equalityI) (simp_all add: nth_dec_dir_block ent_at_def drop_rd take_rd)

lemma dir_ent_typed_ent_at [simp]: "dir_ent_typed (ent_at c b j)"
  by (simp add: ent_at_def)

end
