(* ===== verification/UfsOps.thy ===== *)
theory UfsOps
  imports UfsLayout
begin

text \<open>
  The operations of the file system, kernel/kernel/filesystem.c. They take the platform
  (width of \<open>size_t\<close> and the \<open>strcpy\<close> that is linked) and the disk driver as arguments, so the
  host tool fs/ufs.c, which has the same bodies on POSIX calls, is an instance (theory Host).
  An \<open>int\<close> result is paired with the new state; \<open>abort\<close>, \<open>exit(1)\<close> and a failed \<open>assert\<close> are
  \<open>Err Aborted\<close>.
\<close>

section \<open>State\<close>

record platform =
  size_bits :: nat
  pf_strcpy :: "byte list \<Rightarrow> byte list \<Rightarrow> byte list res"

definition kernel_platform :: platform where
  "kernel_platform = \<lparr>size_bits = 32, pf_strcpy = arr_strcpy\<rparr>"

definition host_platform :: platform where
  "host_platform = \<lparr>size_bits = 64, pf_strcpy = std_strcpy\<rparr>"

record 'd ufs =
  fs_disk :: 'd
  fs_s :: super_t
  inode_bp :: bitmap_t
  inode_bp_sz :: int
  data_bp :: bitmap_t
  data_bp_sz :: int
  inodes :: "inode_t list"
  dirty_inode_bp :: bitmap_t
  dirty_data_bp :: bitmap_t

text \<open>Conversions: an \<open>int\<close> to \<open>size_t\<close>, any integer to \<open>int\<close>, and a byte address to \<open>int addr\<close>.\<close>

definition usize :: "platform \<Rightarrow> int \<Rightarrow> int" where
  "usize pf x = x mod 2 ^ size_bits pf"

definition to_int :: "int \<Rightarrow> int" where
  "to_int x = sint (of_int x :: u32)"

definition blk_addr :: "u32 \<Rightarrow> int \<Rightarrow> int" where
  "blk_addr p off = sint (p * 4096 + of_int off)"

section \<open>ufs_init\<close>

definition seek_read ::
    "platform \<Rightarrow> 'd disk_driver \<Rightarrow> int \<Rightarrow> int \<Rightarrow> 'd \<Rightarrow> (byte list \<times> 'd) res" where
  "seek_read pf drv blk n d = bindr (int32 (blk * 4096)) (\<lambda>a.
     bindr (dd_lseek drv a d) (\<lambda>(rc, d).
     if rc = - 1 then Err Aborted
     else bindr (dd_read drv (nat (usize pf n)) d) (\<lambda>(bs, d).
       if length bs \<noteq> nat (usize pf n) then Err Aborted else Ok (bs, d))))"

text \<open>
  \<open>malloc\<close> does not clear the two dirty bitmaps: they start with whatever \<open>junk1\<close> and \<open>junk2\<close>
  the memory holds. The allocations themselves always succeed here.
\<close>

definition ufs_init ::
    "platform \<Rightarrow> 'd disk_driver \<Rightarrow> (nat \<Rightarrow> u32) \<Rightarrow> (nat \<Rightarrow> u32) \<Rightarrow> 'd \<Rightarrow> 'd ufs res" where
  "ufs_init pf drv junk1 junk2 d =
     bindr (dd_read drv sizeof_super d) (\<lambda>(bs, d).
     if length bs \<noteq> sizeof_super then Err Aborted
     else let s = dec_super bs in
     bindr (get_bitmap_sz (num_inodes s)) (\<lambda>isz.
     bindr (get_bitmap_sz (num_data s)) (\<lambda>dsz.
     bindr (seek_read pf drv (inode_bitmap_addr s) (isz * 4) d) (\<lambda>(ib, d).
     bindr (seek_read pf drv (data_bitmap_addr s) (dsz * 4) d) (\<lambda>(db, d).
     bindr (seek_read pf drv (inode_region_addr s) (128 * num_inodes s) d) (\<lambda>(it, d).
     Ok \<lparr>fs_disk = d, fs_s = s,
         inode_bp = dec_words (nat isz) ib, inode_bp_sz = isz,
         data_bp = dec_words (nat dsz) db, data_bp_sz = dsz,
         inodes = map (\<lambda>k. dec_inode (take 128 (drop (128 * k) it))) [0..<nat (num_inodes s)],
         dirty_inode_bp = map junk1 [0..<nat isz],
         dirty_data_bp = map junk2 [0..<nat dsz]\<rparr>))))))"

section \<open>ufs_lookup\<close>

text \<open>The inner loop: \<open>n\<close> entries of the block left, \<open>cnt\<close> entries of the directory left.\<close>

fun lookup_entries ::
    "'d disk_driver \<Rightarrow> byte list \<Rightarrow> nat \<Rightarrow> int \<Rightarrow> 'd \<Rightarrow> ((int + int) \<times> 'd) res" where
  "lookup_entries drv name 0 cnt d = Ok (Inr cnt, d)"
| "lookup_entries drv name (Suc n) cnt d =
     bindr (dd_read drv sizeof_dir_ent d) (\<lambda>(bs, d).
     if length bs \<noteq> sizeof_dir_ent then Err Aborted
     else if de_inum (dec_dir_ent bs) = - 1 then Err Aborted
     else bindr (arr_strcmp name (de_name (dec_dir_ent bs))) (\<lambda>c.
       if c = 0 then Ok (Inl (de_inum (dec_dir_ent bs)), d)
       else if cnt - 1 = 0 then Ok (Inr (cnt - 1), d)
       else lookup_entries drv name n (cnt - 1) d))"

text \<open>The outer loop over the direct pointers.\<close>

fun lookup_blocks ::
    "'d disk_driver \<Rightarrow> byte list \<Rightarrow> u32 list \<Rightarrow> int \<Rightarrow> 'd \<Rightarrow> (int \<times> 'd) res" where
  "lookup_blocks drv name [] cnt d = Ok (- 1, d)"
| "lookup_blocks drv name (p # ps) cnt d =
     (if cnt = 0 then Ok (- 1, d)
      else bindr (dd_lseek drv (uint (p * 4096)) d) (\<lambda>(rc, d).
        if rc = - 1 then Err Aborted
        else bindr (lookup_entries drv name (UFS_BLOCK_SIZE div sizeof_dir_ent) cnt d) (\<lambda>(r, d).
          case r of Inl inum \<Rightarrow> Ok (inum, d)
          | Inr cnt' \<Rightarrow> lookup_blocks drv name ps cnt' d)))"

definition ufs_lookup ::
    "platform \<Rightarrow> 'd disk_driver \<Rightarrow> 'd ufs \<Rightarrow> int \<Rightarrow> byte list \<Rightarrow> (int \<times> 'd ufs) res" where
  "ufs_lookup pf drv nfs pinum name =
     (if pinum < 0 \<or> num_inodes (fs_s nfs) \<le> pinum then Ok (- 2, nfs)
      else bindr (get_bitmap (inode_bp nfs) pinum) (\<lambda>v.
      if v = 0 then Ok (- 3, nfs)
      else bindr (arr_get (inodes nfs) pinum) (\<lambda>inode.
      if i_type inode \<noteq> UFS_DIRECTORY then Ok (- 4, nfs)
      else if usize pf (i_size inode) mod 32 \<noteq> 0 then Err Aborted
      else bindr (lookup_blocks drv name (i_direct inode)
                    (to_int (usize pf (i_size inode) div 32)) (fs_disk nfs)) (\<lambda>(r, d).
        Ok (r, nfs\<lparr>fs_disk := d\<rparr>)))))"

section \<open>commit_dirty_to_disk\<close>

definition unit_addr :: "int \<Rightarrow> int \<Rightarrow> int res" where
  "unit_addr blk off = bindr (int32 (blk * 4096)) (\<lambda>a. Ok (to_int (a + off)))"

fun commit_inodes :: "'d disk_driver \<Rightarrow> nat \<Rightarrow> nat \<Rightarrow> 'd ufs \<Rightarrow> (int \<times> 'd ufs) res" where
  "commit_inodes drv i 0 nfs = Ok (0, nfs)"
| "commit_inodes drv i (Suc n) nfs =
     bindr (get_bitmap (dirty_inode_bp nfs) (int i)) (\<lambda>v.
     if v = 0 then commit_inodes drv (Suc i) n nfs
     else bindr (reset_bitmap (dirty_inode_bp nfs) (int i)) (\<lambda>db.
     let nfs = nfs\<lparr>dirty_inode_bp := db\<rparr>; idx = c_div (int i) 32 in
     bindr (unit_addr (inode_bitmap_addr (fs_s nfs)) (idx * 4)) (\<lambda>addr.
     bindr (arr_get (inode_bp nfs) idx) (\<lambda>w.
     bindr (Write drv addr (le32 w) (fs_disk nfs)) (\<lambda>(rc, d).
     let nfs = nfs\<lparr>fs_disk := d\<rparr> in
     if rc = - 1 then Ok (- 1, nfs)
     else bindr (unit_addr (inode_region_addr (fs_s nfs)) (int i * 128)) (\<lambda>addr.
     bindr (arr_get (inodes nfs) (int i)) (\<lambda>ino.
     bindr (Write drv addr (enc_inode ino) (fs_disk nfs)) (\<lambda>(rc, d).
     let nfs = nfs\<lparr>fs_disk := d\<rparr> in
     if rc = - 1 then Ok (- 1, nfs)
     else commit_inodes drv (Suc i) n nfs))))))))"

fun commit_data :: "'d disk_driver \<Rightarrow> nat \<Rightarrow> nat \<Rightarrow> 'd ufs \<Rightarrow> (int \<times> 'd ufs) res" where
  "commit_data drv i 0 nfs = Ok (0, nfs)"
| "commit_data drv i (Suc n) nfs =
     bindr (get_bitmap (dirty_data_bp nfs) (int i)) (\<lambda>v.
     if v = 0 then commit_data drv (Suc i) n nfs
     else bindr (reset_bitmap (dirty_data_bp nfs) (int i)) (\<lambda>db.
     let nfs = nfs\<lparr>dirty_data_bp := db\<rparr>; idx = c_div (int i) 32 in
     bindr (unit_addr (data_bitmap_addr (fs_s nfs)) (idx * 4)) (\<lambda>addr.
     bindr (arr_get (data_bp nfs) idx) (\<lambda>w.
     bindr (Write drv addr (le32 w) (fs_disk nfs)) (\<lambda>(rc, d).
     let nfs = nfs\<lparr>fs_disk := d\<rparr> in
     if rc = - 1 then Ok (- 1, nfs)
     else commit_data drv (Suc i) n nfs)))))"

definition commit_dirty_to_disk :: "'d disk_driver \<Rightarrow> 'd ufs \<Rightarrow> (int \<times> 'd ufs) res" where
  "commit_dirty_to_disk drv nfs =
     bindr (commit_inodes drv 0 (nat (num_inodes (fs_s nfs))) nfs) (\<lambda>(rc, nfs).
     if rc = - 1 then Ok (- 1, nfs)
     else commit_data drv 0 (nat (num_data (fs_s nfs))) nfs)"

text \<open>The end of every writing operation: commit, abort if that failed, \<open>fsync\<close>, return 0.\<close>

definition commit_and_sync :: "'d disk_driver \<Rightarrow> 'd ufs \<Rightarrow> (int \<times> 'd ufs) res" where
  "commit_and_sync drv nfs = bindr (commit_dirty_to_disk drv nfs) (\<lambda>(rc, nfs).
     if rc = - 1 then Err Aborted
     else bindr (dd_fsync drv (fs_disk nfs)) (\<lambda>(r, d). Ok (0, nfs\<lparr>fs_disk := d\<rparr>)))"

section \<open>ufs_creat\<close>

text \<open>Setting a bit in a bitmap and in its dirty bitmap.\<close>

definition take_inode :: "int \<Rightarrow> 'd ufs \<Rightarrow> 'd ufs res" where
  "take_inode i nfs = bindr (set_bitmap (inode_bp nfs) i) (\<lambda>b.
     bindr (set_bitmap (dirty_inode_bp nfs) i) (\<lambda>db.
     Ok (nfs\<lparr>inode_bp := b, dirty_inode_bp := db\<rparr>)))"

definition take_data :: "int \<Rightarrow> 'd ufs \<Rightarrow> 'd ufs res" where
  "take_data i nfs = bindr (set_bitmap (data_bp nfs) i) (\<lambda>b.
     bindr (set_bitmap (dirty_data_bp nfs) i) (\<lambda>db.
     Ok (nfs\<lparr>data_bp := b, dirty_data_bp := db\<rparr>)))"

definition touch_inode :: "int \<Rightarrow> 'd ufs \<Rightarrow> 'd ufs res" where
  "touch_inode i nfs = bindr (set_bitmap (dirty_inode_bp nfs) i) (\<lambda>db.
     Ok (nfs\<lparr>dirty_inode_bp := db\<rparr>))"

text \<open>An update of \<open>nfs->inodes[i]\<close>.\<close>

definition upd_inode :: "int \<Rightarrow> (inode_t \<Rightarrow> inode_t) \<Rightarrow> 'd ufs \<Rightarrow> 'd ufs res" where
  "upd_inode i f nfs = bindr (arr_get (inodes nfs) i) (\<lambda>ino.
     bindr (arr_set (inodes nfs) i (f ino)) (\<lambda>is. Ok (nfs\<lparr>inodes := is\<rparr>)))"

text \<open>The scan for a block with a free entry: the result is \<open>is_pinode_full\<close>.\<close>

fun pinode_full :: "'d disk_driver \<Rightarrow> u32 list \<Rightarrow> 'd \<Rightarrow> (bool \<times> 'd) res" where
  "pinode_full drv [] d = Ok (True, d)"
| "pinode_full drv (p # ps) d =
     (if p = - 1 then pinode_full drv ps d
      else bindr (Read drv (blk_addr p 0) UFS_BLOCK_SIZE d) (\<lambda>(r, d).
        case r of None \<Rightarrow> Err Aborted
        | Some bs \<Rightarrow>
            if list_ex (\<lambda>e. de_inum e = - 1) (dec_dir_block bs) then Ok (False, d)
            else pinode_full drv ps d))"

text \<open>
  \<open>dir_block_t data\<close> and \<open>dir_ent_t dent\<close> are uninitialised locals: the bytes of their names
  are \<open>junk\<close>; every \<open>inum\<close> is assigned before the struct is written.
\<close>

definition junk_name :: "(nat \<Rightarrow> byte) \<Rightarrow> nat \<Rightarrow> byte list" where
  "junk_name junk k = rd junk (28 * k) 28"

definition put_name :: "platform \<Rightarrow> byte list \<Rightarrow> byte list \<Rightarrow> int \<Rightarrow> dir_ent_t res" where
  "put_name pf old name inum = bindr (pf_strcpy pf old name) (\<lambda>nm.
     Ok \<lparr>de_name = nm, de_inum = inum\<rparr>)"

definition free_ents :: "(nat \<Rightarrow> byte) \<Rightarrow> nat \<Rightarrow> nat \<Rightarrow> dir_ent_t list" where
  "free_ents junk i n = map (\<lambda>k. \<lparr>de_name = junk_name junk k, de_inum = - 1\<rparr>) [i..<n]"

text \<open>The strings \<open>"."\<close> and \<open>".."\<close>.\<close>

definition dot :: "byte list" where "dot = [46, 0]"
definition dotdot :: "byte list" where "dotdot = [46, 46, 0]"

text \<open>The new directory's own block, with its entries for itself and its parent.\<close>

definition creat_dir_block ::
    "platform \<Rightarrow> 'd disk_driver \<Rightarrow> (nat \<Rightarrow> byte) \<Rightarrow> int \<Rightarrow> int \<Rightarrow> int \<Rightarrow> 'd ufs \<Rightarrow> 'd ufs res" where
  "creat_dir_block pf drv junk pinum ei ed nfs =
     bindr (int32 (ed + data_region_addr (fs_s nfs))) (\<lambda>a.
     bindr (upd_inode ei (\<lambda>ino. ino\<lparr>i_size := 64, i_direct := (i_direct ino)[0 := of_int a]\<rparr>) nfs) (\<lambda>nfs.
     bindr (take_data ed nfs) (\<lambda>nfs.
     bindr (put_name pf (junk_name junk 0) dot ei) (\<lambda>e0.
     bindr (put_name pf (junk_name junk 1) dotdot pinum) (\<lambda>e1.
     bindr (Write drv (blk_addr (of_int a) 0)
              (enc_dir_block (e0 # e1 # free_ents junk 2 128)) (fs_disk nfs)) (\<lambda>(rc, d).
     if rc = - 1 then Err Aborted else Ok (nfs\<lparr>fs_disk := d\<rparr>)))))))"

fun set_first_free :: "u32 list \<Rightarrow> u32 \<Rightarrow> u32 list" where
  "set_first_free [] a = []"
| "set_first_free (p # ps) a = (if p = - 1 then a # ps else p # set_first_free ps a)"

text \<open>A new block for the parent, when all its blocks are full.\<close>

definition creat_new_block ::
    "platform \<Rightarrow> 'd disk_driver \<Rightarrow> (nat \<Rightarrow> byte) \<Rightarrow> int \<Rightarrow> byte list \<Rightarrow> int \<Rightarrow> int \<Rightarrow> 'd ufs \<Rightarrow> 'd ufs res" where
  "creat_new_block pf drv junk pinum name ei ed nfs =
     bindr (put_name pf (junk_name junk 128) name ei) (\<lambda>e0.
     bindr (int32 (ed + data_region_addr (fs_s nfs))) (\<lambda>a.
     bindr (int32 (a * 4096)) (\<lambda>ba.
     bindr (Write drv ba (enc_dir_block (e0 # free_ents junk 129 256)) (fs_disk nfs)) (\<lambda>(rc, d).
     if rc = - 1 then Err Aborted
     else bindr (take_data ed (nfs\<lparr>fs_disk := d\<rparr>))
       (upd_inode pinum (\<lambda>ino. ino\<lparr>i_direct := set_first_free (i_direct ino) (of_int a)\<rparr>))))))"

fun empty_idx :: "nat \<Rightarrow> dir_ent_t list \<Rightarrow> int" where
  "empty_idx j [] = - 1"
| "empty_idx j (e # es) = (if de_inum e = - 1 then int j else empty_idx (Suc j) es)"

text \<open>The new entry goes into the first free slot; this loop does not skip the -1 pointers.\<close>

fun creat_insert ::
    "platform \<Rightarrow> 'd disk_driver \<Rightarrow> (nat \<Rightarrow> byte) \<Rightarrow> byte list \<Rightarrow> int \<Rightarrow> u32 list \<Rightarrow> 'd \<Rightarrow> 'd res" where
  "creat_insert pf drv junk name ei [] d = Ok d"
| "creat_insert pf drv junk name ei (p # ps) d =
     bindr (Read drv (blk_addr p 0) UFS_BLOCK_SIZE d) (\<lambda>(r, d).
     case r of None \<Rightarrow> Err Aborted
     | Some bs \<Rightarrow>
         let idx = empty_idx 0 (dec_dir_block bs) in
         if idx = - 1 then creat_insert pf drv junk name ei ps d
         else bindr (put_name pf (junk_name junk 256) name ei) (\<lambda>dent.
           bindr (Write drv (blk_addr p (idx * 32)) (enc_dir_ent dent) d) (\<lambda>(rc, d).
           if rc = - 1 then Err Aborted else Ok d)))"

text \<open>From \<open>set_bitmap(nfs->inode_bp, empty_pos_inode)\<close> on.\<close>

definition creat_parent ::
    "platform \<Rightarrow> 'd disk_driver \<Rightarrow> (nat \<Rightarrow> byte) \<Rightarrow> int \<Rightarrow> byte list \<Rightarrow> int \<Rightarrow> int \<Rightarrow> bool \<Rightarrow> 'd ufs \<Rightarrow>
     (int \<times> 'd ufs) res" where
  "creat_parent pf drv junk pinum name ei ed full nfs =
     bindr (touch_inode pinum nfs) (\<lambda>nfs.
     bindr (arr_get (inodes nfs) pinum) (\<lambda>pino.
     if full \<and> (ed = - 1 \<or> i_size pino = int (DIRECT_PTRS * UFS_BLOCK_SIZE)) then Ok (- 1, nfs)
     else bindr (if full then creat_new_block pf drv junk pinum name ei ed nfs
                 else bindr (creat_insert pf drv junk name ei (i_direct pino) (fs_disk nfs)) (\<lambda>d.
                   Ok (nfs\<lparr>fs_disk := d\<rparr>))) (\<lambda>nfs.
     bindr (upd_inode pinum (\<lambda>ino. ino\<lparr>i_size := to_int (i_size ino + 32)\<rparr>) nfs) (\<lambda>nfs.
     commit_and_sync drv nfs))))"

definition creat_alloc ::
    "platform \<Rightarrow> 'd disk_driver \<Rightarrow> (nat \<Rightarrow> byte) \<Rightarrow> int \<Rightarrow> int \<Rightarrow> byte list \<Rightarrow> int \<Rightarrow> int \<Rightarrow> int \<Rightarrow> 'd ufs \<Rightarrow>
     (int \<times> 'd ufs) res" where
  "creat_alloc pf drv junk pinum type name ei ed ed2 nfs =
     bindr (take_inode ei nfs) (\<lambda>nfs.
     bindr (upd_inode ei (\<lambda>ino. ino\<lparr>i_type := type, i_direct := replicate DIRECT_PTRS (- 1)\<rparr>) nfs) (\<lambda>nfs.
     bindr (arr_get (inodes nfs) pinum) (\<lambda>pino.
     if i_size pino = int (DIRECT_PTRS * UFS_BLOCK_SIZE) then Ok (- 1, nfs)
     else bindr (pinode_full drv (i_direct pino) (fs_disk nfs)) (\<lambda>(full, d).
     let nfs = nfs\<lparr>fs_disk := d\<rparr> in
     if type = UFS_DIRECTORY
     then (if ed = - 1 then Ok (- 1, nfs)
           else if full \<and> ed2 = - 1 then Ok (- 1, nfs)
           else bindr (creat_dir_block pf drv junk pinum ei ed nfs) (\<lambda>nfs.
             creat_parent pf drv junk pinum name ei ed2 full nfs))
     else bindr (upd_inode ei (\<lambda>ino. ino\<lparr>i_size := 0\<rparr>) nfs) (\<lambda>nfs.
       creat_parent pf drv junk pinum name ei ed full nfs)))))"

definition ufs_creat ::
    "platform \<Rightarrow> 'd disk_driver \<Rightarrow> (nat \<Rightarrow> byte) \<Rightarrow> 'd ufs \<Rightarrow> int \<Rightarrow> int \<Rightarrow> byte list \<Rightarrow>
     (int \<times> 'd ufs) res" where
  "ufs_creat pf drv junk nfs pinum type name =
     (if pinum < 0 \<or> num_inodes (fs_s nfs) \<le> pinum then Ok (- 1, nfs)
      else bindr (get_bitmap (inode_bp nfs) pinum) (\<lambda>v.
      if v = 0 then Ok (- 1, nfs)
      else bindr (arr_get (inodes nfs) pinum) (\<lambda>dir_inode.
      if i_type dir_inode \<noteq> UFS_DIRECTORY then Ok (- 1, nfs)
      else bindr (arr_strlen name) (\<lambda>len.
      if 27 < len then Ok (- 1, nfs)
      else bindr (ufs_lookup pf drv nfs pinum name) (\<lambda>(r, nfs).
      if r \<noteq> - 1 then Ok (- 1, nfs)
      else bindr (find_clear get_bitmap (inode_bp nfs) 0 (nat (num_inodes (fs_s nfs)))) (\<lambda>ei.
      bindr (find_clear2 get_bitmap (data_bp nfs) 0 (nat (num_data (fs_s nfs))) (- 1) (- 1)) (\<lambda>(ed, ed2).
      if ei = - 1 then Ok (- 1, nfs)
      else creat_alloc pf drv junk pinum type name ei ed ed2 nfs)))))))"

section \<open>ufs_write\<close>

text \<open>A block for direct pointer \<open>i\<close> of the file; False is the \<open>return -1\<close> of a full disk.\<close>

definition write_block :: "int \<Rightarrow> int \<Rightarrow> 'd ufs \<Rightarrow> (bool \<times> 'd ufs) res" where
  "write_block inum i nfs = bindr (arr_get (inodes nfs) inum) (\<lambda>ino.
     bindr (arr_get (i_direct ino) i) (\<lambda>p.
     if p \<noteq> - 1 then Ok (True, nfs)
     else bindr (find_clear get_bitmap (data_bp nfs) 0 (nat (num_data (fs_s nfs)))) (\<lambda>e.
     if e = - 1 then Ok (False, nfs)
     else bindr (take_data e nfs) (\<lambda>nfs.
     bindr (int32 (e + data_region_addr (fs_s nfs))) (\<lambda>a.
     bindr (upd_inode inum (\<lambda>ino. ino\<lparr>i_direct := (i_direct ino)[nat i := of_int a]\<rparr>) nfs) (\<lambda>nfs.
     Ok (True, nfs)))))))"

text \<open>The loop from direct pointer \<open>i\<close> on, \<open>n\<close> pointers left.\<close>

fun write_loop ::
    "'d disk_driver \<Rightarrow> int \<Rightarrow> byte list \<Rightarrow> int \<Rightarrow> nat \<Rightarrow> int \<Rightarrow> int \<Rightarrow> int \<Rightarrow> 'd ufs \<Rightarrow>
     (bool \<times> 'd ufs) res" where
  "write_loop drv inum buf nbytes 0 i cur offset nfs = Ok (True, nfs)"
| "write_loop drv inum buf nbytes (Suc n) i cur offset nfs =
     (if nbytes \<le> cur then Ok (True, nfs)
      else bindr (write_block inum i nfs) (\<lambda>(ok, nfs).
      if \<not> ok then Ok (False, nfs)
      else let sz = (if 4096 - offset < nbytes - cur then 4096 - offset else nbytes - cur) in
      bindr (arr_get (inodes nfs) inum) (\<lambda>ino.
      bindr (arr_get (i_direct ino) i) (\<lambda>p.
      if int (length buf) < cur + sz then Err Undefined
      else bindr (Write drv (blk_addr p offset) (take (nat sz) (drop (nat cur) buf)) (fs_disk nfs)) (\<lambda>(rc, d).
      if rc = - 1 then Err Aborted
      else bindr (int32 (i_size ino + sz)) (\<lambda>size'.
      bindr (upd_inode inum (\<lambda>ino. ino\<lparr>i_size := size'\<rparr>) (nfs\<lparr>fs_disk := d\<rparr>)) (\<lambda>nfs.
      write_loop drv inum buf nbytes n (i + 1) (cur + sz) 0 nfs)))))))"

definition ufs_write ::
    "'d disk_driver \<Rightarrow> 'd ufs \<Rightarrow> int \<Rightarrow> byte list \<Rightarrow> int \<Rightarrow> int \<Rightarrow> (int \<times> 'd ufs) res" where
  "ufs_write drv nfs inum buf offset nbytes =
     (if inum < 0 \<or> num_inodes (fs_s nfs) \<le> inum then Ok (- 1, nfs)
      else bindr (get_bitmap (inode_bp nfs) inum) (\<lambda>v.
      if v = 0 then Ok (- 1, nfs)
      else bindr (arr_get (inodes nfs) inum) (\<lambda>ino.
      if 4096 < nbytes \<or> i_size ino < offset \<or> i_type ino \<noteq> UFS_REGULAR_FILE \<or> offset < 0 \<or> nbytes \<le> 0
      then Ok (- 1, nfs)
      else let strt = c_div offset 4096; offset = c_mod offset 4096 in
      bindr (touch_inode inum nfs) (\<lambda>nfs.
      bindr (write_loop drv inum buf nbytes (nat (int DIRECT_PTRS - strt)) strt 0 offset nfs) (\<lambda>(ok, nfs).
      if \<not> ok then Ok (- 1, nfs) else commit_and_sync drv nfs)))))"

section \<open>ufs_read\<close>

text \<open>The result carries the bytes that were stored in the caller's buffer.\<close>

fun read_loop ::
    "'d disk_driver \<Rightarrow> int \<Rightarrow> u32 list \<Rightarrow> int \<Rightarrow> int \<Rightarrow> 'd \<Rightarrow> (byte list \<times> 'd) res" where
  "read_loop drv nbytes [] cur offset d = Ok ([], d)"
| "read_loop drv nbytes (p # ps) cur offset d =
     (if nbytes \<le> cur then Ok ([], d)
      else let sz = (if 4096 - offset < nbytes - cur then 4096 - offset else nbytes - cur) in
      bindr (Read drv (blk_addr p offset) (nat sz) d) (\<lambda>(r, d).
      case r of None \<Rightarrow> Err Aborted
      | Some bs \<Rightarrow> bindr (read_loop drv nbytes ps (cur + sz) 0 d) (\<lambda>(rest, d). Ok (bs @ rest, d))))"

definition ufs_read ::
    "'d disk_driver \<Rightarrow> 'd ufs \<Rightarrow> int \<Rightarrow> int \<Rightarrow> int \<Rightarrow> (int \<times> byte list \<times> 'd ufs) res" where
  "ufs_read drv nfs inum offset nbytes =
     (if inum < 0 \<or> num_inodes (fs_s nfs) \<le> inum then Ok (- 1, [], nfs)
      else bindr (get_bitmap (inode_bp nfs) inum) (\<lambda>v.
      if v = 0 then Ok (- 1, [], nfs)
      else bindr (arr_get (inodes nfs) inum) (\<lambda>ino.
      if offset < 0 \<or> nbytes \<le> 0 then Ok (- 1, [], nfs)
      else bindr (int32 (offset + nbytes)) (\<lambda>e.
      if i_size ino < e then Ok (- 1, [], nfs)
      else let strt = c_div offset 4096; offset = c_mod offset 4096 in
      if i_type ino = UFS_DIRECTORY \<and> offset mod 32 \<noteq> 0 then Ok (- 1, [], nfs)
      else bindr (read_loop drv nbytes (drop (nat strt) (i_direct ino)) 0 offset (fs_disk nfs)) (\<lambda>(bs, d).
      Ok (0, bs, nfs\<lparr>fs_disk := d\<rparr>))))))"

section \<open>ufs_unlink\<close>

text \<open>The bitmap index is the direct pointer itself, an absolute block number.\<close>

fun unlink_data :: "u32 list \<Rightarrow> 'd ufs \<Rightarrow> 'd ufs res" where
  "unlink_data [] nfs = Ok nfs"
| "unlink_data (p # ps) nfs =
     (if p = - 1 then unlink_data ps nfs
      else bindr (reset_bitmap (data_bp nfs) (sint p)) (\<lambda>b.
      bindr (set_bitmap (dirty_data_bp nfs) (sint p)) (\<lambda>db.
      unlink_data ps (nfs\<lparr>data_bp := b, dirty_data_bp := db\<rparr>))))"

text \<open>The scan of a block: the index of the last entry with the name (or -1) and the entries in use.\<close>

fun scan_block :: "byte list \<Rightarrow> nat \<Rightarrow> dir_ent_t list \<Rightarrow> int \<Rightarrow> int \<Rightarrow> (int \<times> int) res" where
  "scan_block name j [] entry_idx cnt = Ok (entry_idx, cnt)"
| "scan_block name j (e # es) entry_idx cnt =
     (if de_inum e = - 1 then scan_block name (Suc j) es entry_idx cnt
      else bindr (arr_strcmp (de_name e) name) (\<lambda>c.
        scan_block name (Suc j) es (if c = 0 then int j else entry_idx) (cnt + 1)))"

fun unlink_entry ::
    "'d disk_driver \<Rightarrow> (nat \<Rightarrow> byte) \<Rightarrow> int \<Rightarrow> byte list \<Rightarrow> nat \<Rightarrow> u32 list \<Rightarrow> 'd ufs \<Rightarrow> 'd ufs res" where
  "unlink_entry drv junk pinum name i [] nfs = Ok nfs"
| "unlink_entry drv junk pinum name i (p # ps) nfs =
     (if p = - 1 then unlink_entry drv junk pinum name (Suc i) ps nfs
      else bindr (Read drv (blk_addr p 0) UFS_BLOCK_SIZE (fs_disk nfs)) (\<lambda>(r, d).
      case r of None \<Rightarrow> Err Aborted
      | Some bs \<Rightarrow>
          let nfs = nfs\<lparr>fs_disk := d\<rparr> in
          bindr (scan_block name 0 (dec_dir_block bs) (- 1) 0) (\<lambda>(entry_idx, cnt).
          if entry_idx = - 1 then unlink_entry drv junk pinum name (Suc i) ps nfs
          else if cnt = 1
          then bindr (reset_bitmap (data_bp nfs) (sint p)) (\<lambda>b.
            bindr (set_bitmap (dirty_data_bp nfs) (sint p)) (\<lambda>db.
            upd_inode pinum (\<lambda>ino. ino\<lparr>i_direct := (i_direct ino)[i := - 1]\<rparr>)
              (nfs\<lparr>data_bp := b, dirty_data_bp := db\<rparr>)))
          else bindr (Write drv (blk_addr p (entry_idx * 32))
                 (enc_dir_ent \<lparr>de_name = junk_name junk 0, de_inum = - 1\<rparr>) (fs_disk nfs)) (\<lambda>(rc, d).
            if rc = - 1 then Err Aborted else Ok (nfs\<lparr>fs_disk := d\<rparr>)))))"

definition ufs_unlink ::
    "platform \<Rightarrow> 'd disk_driver \<Rightarrow> (nat \<Rightarrow> byte) \<Rightarrow> 'd ufs \<Rightarrow> int \<Rightarrow> byte list \<Rightarrow> (int \<times> 'd ufs) res" where
  "ufs_unlink pf drv junk nfs pinum name =
     (if pinum < 0 \<or> num_inodes (fs_s nfs) \<le> pinum then Ok (- 1, nfs)
      else bindr (get_bitmap (inode_bp nfs) pinum) (\<lambda>v.
      if v = 0 then Ok (- 1, nfs)
      else bindr (arr_strcmp name dot) (\<lambda>c1.
      if c1 = 0 then Ok (- 1, nfs)
      else bindr (arr_strcmp name dotdot) (\<lambda>c2.
      if c2 = 0 then Ok (- 1, nfs)
      else bindr (ufs_lookup pf drv nfs pinum name) (\<lambda>(inum, nfs).
      if inum = - 1 then Ok (- 1, nfs)
      else bindr (arr_get (inodes nfs) inum) (\<lambda>ino.
      if i_type ino = UFS_DIRECTORY \<and> usize pf (i_size ino) \<noteq> 64 then Ok (- 1, nfs)
      else bindr (reset_bitmap (inode_bp nfs) inum) (\<lambda>b.
      bindr (touch_inode inum (nfs\<lparr>inode_bp := b\<rparr>)) (\<lambda>nfs.
      bindr (touch_inode pinum nfs) (\<lambda>nfs.
      bindr (unlink_data (i_direct ino) nfs) (\<lambda>nfs.
      bindr (upd_inode pinum (\<lambda>ino. ino\<lparr>i_size := to_int (i_size ino - 32)\<rparr>) nfs) (\<lambda>nfs.
      bindr (arr_get (inodes nfs) pinum) (\<lambda>pino.
      bindr (unlink_entry drv junk pinum name 0 (i_direct pino) nfs) (\<lambda>nfs.
      commit_and_sync drv nfs)))))))))))))"

end
