(* ===== verification/UfsRead.thy ===== *)
theory UfsRead
  imports UfsOps
begin

text \<open>
  The reading side of the file system: \<open>ufs_lookup\<close> against the list of entries that a
  directory's blocks hold, and \<open>ufs_read\<close> against the byte sequence of a file. The proofs are
  done once, for any disk driver that keeps the contract of \<open>disk_reader\<close>.
\<close>

section \<open>What a directory and a file are\<close>

text \<open>A block that can be transferred: its bytes lie below the limit and its address is an int.\<close>

definition blk_ok :: "nat \<Rightarrow> u32 \<Rightarrow> bool" where
  "blk_ok L p \<longleftrightarrow> (unat p + 1) * UFS_BLOCK_SIZE \<le> L \<and> (unat p + 1) * UFS_BLOCK_SIZE < 2 ^ 31"

definition ents :: "(nat \<Rightarrow> byte) \<Rightarrow> u32 list \<Rightarrow> nat \<Rightarrow> dir_ent_t list" where
  "ents c ps n = map (\<lambda>j. ent_at c (unat (ps ! (j div 128))) (j mod 128)) [0..<n]"

definition dir_size :: "inode_t \<Rightarrow> nat" where
  "dir_size ino = nat (i_size ino) div 32"

text \<open>The abstract directory: its names with their inode numbers, in the order of the slots.\<close>

definition dir_list :: "(nat \<Rightarrow> byte) \<Rightarrow> inode_t \<Rightarrow> (byte list \<times> int) list" where
  "dir_list c ino = map (\<lambda>e. (cstr (de_name e), de_inum e)) (ents c (i_direct ino) (dir_size ino))"

definition dir_ok :: "(nat \<Rightarrow> byte) \<Rightarrow> nat \<Rightarrow> inode_t \<Rightarrow> bool" where
  "dir_ok c L ino \<longleftrightarrow> i_type ino = UFS_DIRECTORY \<and> 0 \<le> i_size ino \<and> i_size ino mod 32 = 0 \<and>
     length (i_direct ino) = DIRECT_PTRS \<and> dir_size ino \<le> 128 * DIRECT_PTRS \<and>
     (\<forall>k. 128 * k < dir_size ino \<longrightarrow> blk_ok L (i_direct ino ! k)) \<and>
     (\<forall>e \<in> set (ents c (i_direct ino) (dir_size ino)). de_inum e \<noteq> - 1 \<and> terminated (de_name e))"

definition file_byte :: "(nat \<Rightarrow> byte) \<Rightarrow> u32 list \<Rightarrow> nat \<Rightarrow> byte" where
  "file_byte c ps x = c (unat (ps ! (x div UFS_BLOCK_SIZE)) * UFS_BLOCK_SIZE + x mod UFS_BLOCK_SIZE)"

section \<open>Addresses\<close>

lemma blk_ok_less: "blk_ok L p \<Longrightarrow> unat p < 2 ^ 19"
  by (simp add: blk_ok_def)

lemma blk_ok_addr:
  assumes "blk_ok L p"
  shows "uint (p * 4096) = int (unat p * UFS_BLOCK_SIZE)"
    and "off \<le> UFS_BLOCK_SIZE \<Longrightarrow> blk_addr p (int off) = int (unat p * UFS_BLOCK_SIZE + off)"
proof -
  have lt: "unat p * 4096 + 4096 < 2 ^ 31"
    using assms by (simp add: blk_ok_def)
  have un: "unat (p * 4096) = unat p * 4096"
    using lt by (simp add: unat_word_ariths)
  then show "uint (p * 4096) = int (unat p * UFS_BLOCK_SIZE)"
    by (metis of_nat_unat)
  assume off: "off \<le> UFS_BLOCK_SIZE"
  have "p * 4096 + of_int (int off) = (of_nat (unat p * 4096 + off) :: u32)"
    by simp
  then show "blk_addr p (int off) = int (unat p * UFS_BLOCK_SIZE + off)"
    unfolding blk_addr_def using lt off by (simp only: sint_of_nat32)
qed

lemma blk_ok_neq: "blk_ok L p \<Longrightarrow> p \<noteq> - 1"
proof
  assume "blk_ok L p" "p = - 1"
  then show False
    using blk_ok_less [of L p] by (simp add: unsigned_minus_1_eq_mask mask_eq_exp_minus_1)
qed

lemma ents_Cons:
  "ents c (p # ps) n = map (ent_at c (unat p)) [0..<min 128 n] @ ents c ps (n - 128)"
proof (rule nth_equalityI)
  show "length (ents c (p # ps) n)
      = length (map (ent_at c (unat p)) [0..<min 128 n] @ ents c ps (n - 128))"
    by (simp add: ents_def)
  fix i assume i: "i < length (ents c (p # ps) n)"
  show "ents c (p # ps) n ! i = (map (ent_at c (unat p)) [0..<min 128 n] @ ents c ps (n - 128)) ! i"
  proof (cases "i < 128")
    case True
    then show ?thesis
      using i by (simp add: ents_def nth_append)
  next
    case False
    then have "i div 128 = Suc ((i - 128) div 128)" "i mod 128 = (i - 128) mod 128"
      by (simp_all add: div_nat_eqI le_div_geq le_mod_geq)
    then show ?thesis
      using i False by (simp add: ents_def nth_append)
  qed
qed

lemma find_append:
  "find P (xs @ ys) = (case find P xs of None \<Rightarrow> find P ys | Some x \<Rightarrow> Some x)"
  by (induction xs) auto

lemma map_of_find: "map_of (map (\<lambda>e. (f e, g e)) xs) k = map_option g (find (\<lambda>e. f e = k) xs)"
  by (induction xs) auto

section \<open>Lookup\<close>

context disk_reader
begin

text \<open>One turn of the inner loop: it compares the name of entry \<open>j\<close> of block \<open>b\<close>.\<close>

lemma lookup_entry_turn:
  assumes "dok d" and "pos d = b * UFS_BLOCK_SIZE + 32 * j" and "0 < cnt" and "pos d + 32 \<le> lim d" and "terminated name"
    and "de_inum (ent_at (bytes d) b j) \<noteq> - 1" and "terminated (de_name (ent_at (bytes d) b j))"
  shows "\<exists>d1. same d d1 \<and> pos d1 = pos d + 32 \<and> lookup_entries drv name (Suc m) (int cnt) d =
    (if cstr (de_name (ent_at (bytes d) b j)) = cstr name then Ok (Inl (de_inum (ent_at (bytes d) b j)), d1)
     else if cnt = 1 then Ok (Inr 0, d1) else lookup_entries drv name m (int (cnt - 1)) d1)"
proof -
  let ?e = "ent_at (bytes d) b j"
  obtain d1 where r: "dd_read drv 32 d = Ok (rd (bytes d) (pos d) 32, d1)" "same d d1" "pos d1 = pos d + 32"
    using assms(1,4) by (metis read_same)
  have e: "dec_dir_ent (rd (bytes d) (pos d) 32) = ?e"
    by (simp add: ent_at_def assms(2))
  obtain v where v: "arr_strcmp name (de_name ?e) = Ok v" "v = 0 \<longleftrightarrow> cstr name = cstr (de_name ?e)"
    using arr_strcmp_terminated [OF assms(5,7)] by blast
  have "lookup_entries drv name (Suc m) (int cnt) d =
    (if cstr (de_name ?e) = cstr name then Ok (Inl (de_inum ?e), d1)
     else if cnt = 1 then Ok (Inr 0, d1) else lookup_entries drv name m (int (cnt - 1)) d1)"
    using r v assms(3,6) by (auto simp: e of_nat_diff)
  then show ?thesis using r by blast
qed

lemma lookup_entries_ok:
  assumes "dok d" and "pos d = b * UFS_BLOCK_SIZE + 32 * j" and "0 < cnt"
    and "pos d + 32 * min m cnt \<le> lim d" and "terminated name"
    and "\<forall>i < min m cnt. de_inum (ent_at (bytes d) b (j + i)) \<noteq> - 1 \<and>
           terminated (de_name (ent_at (bytes d) b (j + i)))"
  shows "\<exists>d'. lookup_entries drv name m (int cnt) d =
      Ok (case find (\<lambda>e. cstr (de_name e) = cstr name) (map (ent_at (bytes d) b) [j..<j + min m cnt]) of
            Some e \<Rightarrow> Inl (de_inum e) | None \<Rightarrow> Inr (int (cnt - min m cnt)), d') \<and> same d d'"
  using assms
proof (induction m arbitrary: d j cnt)
  case 0
  then show ?case by (simp add: same_refl)
next
  case (Suc m)
  let ?e = "ent_at (bytes d) b j"
  define q where "q = min m (cnt - 1)"
  have min: "min (Suc m) cnt = Suc q"
    using Suc.prems(3) by (auto simp: q_def)
  have used: "de_inum ?e \<noteq> - 1" "terminated (de_name ?e)"
    using Suc.prems(6) by (auto simp: min dest: spec [of _ 0])
  obtain d1 where d1: "same d d1" "pos d1 = pos d + 32"
    and turn: "lookup_entries drv name (Suc m) (int cnt) d =
      (if cstr (de_name ?e) = cstr name then Ok (Inl (de_inum ?e), d1)
       else if cnt = 1 then Ok (Inr 0, d1) else lookup_entries drv name m (int (cnt - 1)) d1)"
    using lookup_entry_turn [OF Suc.prems(1,2,3) _ Suc.prems(5) used, of m] Suc.prems(4) unfolding min by auto
  have upt: "[j..<j + Suc q] = j # [Suc j..<Suc j + q]"
    by (simp add: upt_conv_Cons del: upt_Suc)
  show ?case
  proof (cases "cstr (de_name ?e) = cstr name \<or> cnt = 1")
    case True
    then show ?thesis
      using d1 unfolding min upt turn by (auto simp: q_def)
  next
    case False
    have eq: "dok d1" "bytes d1 = bytes d" "lim d1 = lim d"
      using d1(1) by (simp_all add: same_def)
    have u: "\<forall>i < q. de_inum (ent_at (bytes d) b (Suc j + i)) \<noteq> - 1 \<and>
        terminated (de_name (ent_at (bytes d) b (Suc j + i)))"
      using Suc.prems(6) unfolding min by (metis Suc_mono add_Suc_shift)
    have cs: "cnt - 1 - q = cnt - Suc q" by simp
    have "\<exists>d'. lookup_entries drv name m (int (cnt - 1)) d1 =
        Ok (case find (\<lambda>e. cstr (de_name e) = cstr name)
              (map (ent_at (bytes d1) b) [Suc j..<Suc j + min m (cnt - 1)]) of
            Some e \<Rightarrow> Inl (de_inum e) | None \<Rightarrow> Inr (int (cnt - 1 - min m (cnt - 1))), d') \<and> same d1 d'"
      using Suc.prems(1-5) False d1(2) eq u unfolding min
      by (intro Suc.IH) (auto simp: q_def)
    then show ?thesis
      using False same_trans [OF d1(1)] unfolding min upt turn q_def [symmetric] eq(2) cs
      by (auto simp del: upt_Suc)
  qed
qed

text \<open>One turn of the outer loop: it scans the entries of one block.\<close>

lemma lookup_block_turn:
  assumes "dok d" and "terminated name" and cnt: "0 < cnt" and p: "blk_ok (lim d) p"
    and used: "\<forall>e \<in> set (map (ent_at (bytes d) (unat p)) [0..<min 128 cnt]). de_inum e \<noteq> - 1 \<and> terminated (de_name e)"
  shows "\<exists>d'. same d d' \<and> lookup_blocks drv name (p # ps) (int cnt) d =
    (case find (\<lambda>e. cstr (de_name e) = cstr name) (map (ent_at (bytes d) (unat p)) [0..<min 128 cnt]) of
       Some e \<Rightarrow> Ok (de_inum e, d') | None \<Rightarrow> lookup_blocks drv name ps (int (cnt - 128)) d')"
proof -
  let ?f = "\<lambda>e. cstr (de_name e) = cstr name"
  have "unat p * 4096 \<le> lim d"
    using p by (simp add: blk_ok_def)
  then obtain rc d1 where s: "dd_lseek drv (uint (p * 4096)) d = Ok (rc, d1)" "rc \<noteq> - 1"
    "same d d1" "pos d1 = unat p * 4096"
    using assms(1) unfolding blk_ok_addr(1) [OF p] by (metis seek_same)
  have d1: "dok d1" "bytes d1 = bytes d" "lim d1 = lim d"
    using s(3) by (simp_all add: same_def)
  have sub: "cnt - min 128 cnt = cnt - 128" by simp
  have "\<exists>d'. lookup_entries drv name 128 (int cnt) d1 =
    Ok (case find ?f (map (ent_at (bytes d1) (unat p)) [0..<0 + min 128 cnt]) of
          Some e \<Rightarrow> Inl (de_inum e) | None \<Rightarrow> Inr (int (cnt - min 128 cnt)), d') \<and> same d1 d'"
    using d1 s(4) assms(2) cnt p used
    by (intro lookup_entries_ok) (auto simp: blk_ok_def)
  then obtain d2 where l: "lookup_entries drv name 128 (int cnt) d1 =
    Ok (case find ?f (map (ent_at (bytes d) (unat p)) [0..<min 128 cnt]) of
          Some e \<Rightarrow> Inl (de_inum e) | None \<Rightarrow> Inr (int (cnt - 128)), d2)" "same d d2"
    using d1 same_trans [OF s(3)] unfolding sub by auto
  then show ?thesis
    using s(1,2) cnt by (intro exI [of _ d2]) (auto split: option.splits)
qed

lemma lookup_blocks_ok:
  assumes "dok d" and "terminated name" and "cnt \<le> 128 * length ps"
    and "\<forall>k. 128 * k < cnt \<longrightarrow> blk_ok (lim d) (ps ! k)"
    and "\<forall>e \<in> set (ents (bytes d) ps cnt). de_inum e \<noteq> - 1 \<and> terminated (de_name e)"
  shows "\<exists>d'. lookup_blocks drv name ps (int cnt) d =
      Ok (case find (\<lambda>e. cstr (de_name e) = cstr name) (ents (bytes d) ps cnt) of
            Some e \<Rightarrow> de_inum e | None \<Rightarrow> - 1, d') \<and> same d d'"
  using assms
proof (induction ps arbitrary: d cnt)
  case Nil
  then show ?case by (simp add: ents_def same_refl)
next
  case (Cons p ps)
  show ?case
  proof (cases "cnt = 0")
    case True
    then show ?thesis
      using Cons.prems(1) by (simp add: ents_def same_refl)
  next
    case False
    let ?f = "\<lambda>e. cstr (de_name e) = cstr name" and ?es = "map (ent_at (bytes d) (unat p)) [0..<min 128 cnt]"
    have p: "blk_ok (lim d) p"
      using Cons.prems(4) False by (auto dest: spec [of _ 0])
    have used: "\<forall>e \<in> set ?es. de_inum e \<noteq> - 1 \<and> terminated (de_name e)"
      "\<forall>e \<in> set (ents (bytes d) ps (cnt - 128)). de_inum e \<noteq> - 1 \<and> terminated (de_name e)"
      using Cons.prems(5) unfolding ents_Cons by simp_all
    obtain d2 where l: "same d d2" "lookup_blocks drv name (p # ps) (int cnt) d =
      (case find ?f ?es of Some e \<Rightarrow> Ok (de_inum e, d2) | None \<Rightarrow> lookup_blocks drv name ps (int (cnt - 128)) d2)"
      using lookup_block_turn [OF Cons.prems(1,2) _ p used(1)] False by blast
    then have d2: "dok d2" "bytes d2 = bytes d" "lim d2 = lim d"
      by (simp_all add: same_def)
    have "blk_ok (lim d) (ps ! k)" if "128 * k < cnt - 128" for k
      using Cons.prems(4) [rule_format, of "Suc k"] that by simp
    then have "\<exists>d'. lookup_blocks drv name ps (int (cnt - 128)) d2 =
        Ok (case find ?f (ents (bytes d2) ps (cnt - 128)) of
              Some e \<Rightarrow> de_inum e | None \<Rightarrow> - 1, d') \<and> same d2 d'"
      using Cons.prems(2,3) d2 used(2) by (intro Cons.IH) auto
    then show ?thesis
      using l same_trans [OF l(1)] d2 unfolding l(2) ents_Cons find_append
      by (auto split: option.splits)
  qed
qed

lemma ufs_lookup_ok:
  assumes "dok (fs_disk nfs)" and "int i < num_inodes (fs_s nfs)"
    and "i < bm_cap (inode_bp nfs)" and "bm_bit (inode_bp nfs) i" and "i < length (inodes nfs)"
    and "dir_ok (bytes (fs_disk nfs)) (lim (fs_disk nfs)) (inodes nfs ! i)"
    and "terminated name" and "32 \<le> size_bits pf"
  shows "\<exists>d'. ufs_lookup pf drv nfs (int i) name =
      Ok (case map_of (dir_list (bytes (fs_disk nfs)) (inodes nfs ! i)) (cstr name) of
            Some n \<Rightarrow> n | None \<Rightarrow> - 1, nfs\<lparr>fs_disk := d'\<rparr>) \<and> same (fs_disk nfs) d'"
proof -
  let ?ino = "inodes nfs ! i" and ?d = "fs_disk nfs"
  let ?n = "dir_size ?ino"
  have sz: "i_size ?ino = 32 * int ?n" and n: "?n \<le> 3840"
    using assms(6) by (auto simp: dir_ok_def dir_size_def)
  have "(2 :: int) ^ 32 \<le> 2 ^ size_bits pf"
    using assms(8) by (rule power_increasing) simp
  then have us: "usize pf (i_size ?ino) = 32 * int ?n"
    using n by (simp add: usize_def sz)
  have ti: "to_int (int ?n) = int ?n"
    using n by (simp add: to_int_def sint_of_nat32)
  obtain d' where "lookup_blocks drv name (i_direct ?ino) (int ?n) ?d =
      Ok (case find (\<lambda>e. cstr (de_name e) = cstr name) (ents (bytes ?d) (i_direct ?ino) ?n) of
            Some e \<Rightarrow> de_inum e | None \<Rightarrow> - 1, d')" "same ?d d'"
    using assms(1,6,7) lookup_blocks_ok [of ?d name ?n "i_direct ?ino"] by (auto simp: dir_ok_def)
  moreover have "(case find (\<lambda>e. cstr (de_name e) = cstr name) es of
        Some e \<Rightarrow> de_inum e | None \<Rightarrow> - 1) =
      (case map_of (map (\<lambda>e. (cstr (de_name e), de_inum e)) es) (cstr name) of
        Some n \<Rightarrow> n | None \<Rightarrow> - 1)" for es
    by (simp add: map_of_find split: option.splits)
  ultimately show ?thesis
    using assms(2-6) us ti
    by (intro exI [of _ d']) (simp add: ufs_lookup_def get_bitmap_eq dir_ok_def dir_list_def)
qed

section \<open>Reading a file\<close>

text \<open>One turn: the part of the first block, then the blocks behind it from their beginning.\<close>

lemma read_loop_turn:
  assumes "dok d" and cur: "cur < n" and off: "off < UFS_BLOCK_SIZE" and p: "blk_ok (lim d) p"
    and sz: "sz = min (UFS_BLOCK_SIZE - off) (n - cur)"
  shows "\<exists>d1. same d d1 \<and> read_loop drv (int n) (p # ps) (int cur) (int off) d =
    bindr (read_loop drv (int n) ps (int (cur + sz)) (int 0) d1) (\<lambda>(rest, d).
      Ok (rd (bytes d1) (unat p * UFS_BLOCK_SIZE + off) sz @ rest, d))"
proof -
  have szint: "(if 4096 - int off < int n - int cur then 4096 - int off else int n - int cur) = int sz"
    using cur off by (auto simp: sz)
  have "unat p * 4096 + 4096 \<le> lim d" "sz \<le> 4096 - off"
    using p by (simp_all add: blk_ok_def sz)
  then have "unat p * 4096 + off + sz \<le> lim d"
    using off by linarith
  then obtain d1 where r: "Read drv (int (unat p * 4096 + off)) sz d =
      Ok (Some (rd (bytes d) (unat p * 4096 + off) sz), d1)" "same d d1"
    using assms(1) by (metis Read_ok)
  have ad: "blk_addr p (int off) = int (unat p * 4096 + off)"
    using blk_ok_addr(2) [OF p, of off] off by simp
  show ?thesis
    using r cur ad szint by (intro exI [of _ d1]) (simp add: Let_def same_def)
qed

lemma file_bytes_part:
  assumes off: "off < UFS_BLOCK_SIZE" and sz: "sz = min (UFS_BLOCK_SIZE - off) m"
  shows "map (file_byte c (p # ps)) [off..<off + m] =
    rd c (unat p * UFS_BLOCK_SIZE + off) sz @ map (file_byte c ps) [0..<m - sz]"
proof (rule nth_equalityI)
  fix x assume "x < length (map (file_byte c (p # ps)) [off..<off + m])"
  then have x: "x < m" by simp
  show "map (file_byte c (p # ps)) [off..<off + m] ! x =
      (rd c (unat p * 4096 + off) sz @ map (file_byte c ps) [0..<m - sz]) ! x"
  proof (cases "x < sz")
    case True
    then have "off + x < 4096" using off by (simp add: sz) linarith
    then show ?thesis
      using True x by (simp add: nth_append file_byte_def add.assoc)
  next
    case False
    then obtain y where y: "x = sz + y" "off + x = 4096 + y"
      using x off le_Suc_ex [of sz x] by (auto simp: sz)
    have "(4096 + y) div 4096 = Suc (y div 4096)" by simp
    then have "file_byte c (p # ps) (off + x) = file_byte c ps y"
      unfolding y(2) file_byte_def by (simp del: div_mult_self1 div_mult_self2 div_add_self1)
    then show ?thesis
      using x y(1) by (simp add: nth_append)
  qed
qed (simp add: sz)

lemma read_loop_ok:
  assumes "dok d" and "cur \<le> n" and "off < UFS_BLOCK_SIZE"
    and "\<forall>k. k * UFS_BLOCK_SIZE < off + (n - cur) \<longrightarrow> k < length ps \<and> blk_ok (lim d) (ps ! k)"
  shows "\<exists>d'. read_loop drv (int n) ps (int cur) (int off) d =
      Ok (map (file_byte (bytes d) ps) [off..<off + (n - cur)], d') \<and> same d d'"
  using assms
proof (induction ps arbitrary: d cur off)
  case Nil
  have "n = cur"
    using Nil.prems(2) spec [OF Nil.prems(4), of 0] by auto
  then show ?case
    using Nil.prems(1) by (simp add: same_refl)
next
  case (Cons p ps)
  show ?case
  proof (cases "cur = n")
    case True
    then show ?thesis
      using Cons.prems(1) by (simp add: same_refl)
  next
    case False
    with Cons.prems(2) have lt: "cur < n" by simp
    define sz where "sz = min (4096 - off) (n - cur)"
    have p: "blk_ok (lim d) p"
      using spec [OF Cons.prems(4), of 0] lt by auto
    obtain d1 where d1: "same d d1" "read_loop drv (int n) (p # ps) (int cur) (int off) d =
        bindr (read_loop drv (int n) ps (int (cur + sz)) (int 0) d1) (\<lambda>(rest, d).
          Ok (rd (bytes d1) (unat p * 4096 + off) sz @ rest, d))"
      using read_loop_turn [OF Cons.prems(1) lt Cons.prems(3) p sz_def] by blast
    have eq: "dok d1" "bytes d1 = bytes d" "lim d1 = lim d"
      using d1(1) by (simp_all add: same_def)
    have "k < length ps \<and> blk_ok (lim d) (ps ! k)" if "k * 4096 < n - (cur + sz)" for k
    proof -
      have "Suc k * 4096 < off + (n - cur)"
        using that Cons.prems(3) lt by (auto simp: sz_def split: if_splits)
      then show ?thesis
        using spec [OF Cons.prems(4), of "Suc k"] by simp
    qed
    then have "\<exists>d'. read_loop drv (int n) ps (int (cur + sz)) (int 0) d1 =
        Ok (map (file_byte (bytes d1) ps) [0..<0 + (n - (cur + sz))], d') \<and> same d1 d'"
      using eq lt by (intro Cons.IH) (auto simp: sz_def)
    then obtain d2 where "read_loop drv (int n) ps (int (cur + sz)) (int 0) d1 =
        Ok (map (file_byte (bytes d) ps) [0..<n - cur - sz], d2)" "same d d2"
      using eq(2) same_trans [OF d1(1)] by auto
    then show ?thesis
      unfolding d1(2) file_bytes_part [OF Cons.prems(3) sz_def] by (simp add: eq(2))
  qed
qed

text \<open>A part of a file that starts in block \<open>s\<close> is a part of what the pointers from \<open>s\<close> on hold.\<close>

lemma file_byte_drop:
  assumes "off div UFS_BLOCK_SIZE \<le> length ps"
  shows "file_byte c (drop (off div UFS_BLOCK_SIZE) ps) (off mod UFS_BLOCK_SIZE + k) = file_byte c ps (off + k)"
proof -
  have "off + k = (off mod 4096 + k) + off div 4096 * 4096"
    using div_mult_mod_eq [of off 4096] by linarith
  then have "(off + k) div 4096 = off div 4096 + (off mod 4096 + k) div 4096" "(off + k) mod 4096 = (off mod 4096 + k) mod 4096"
    by (metis div_mult_self1 zero_neq_numeral, metis mod_mult_self1)
  then show ?thesis
    using assms by (simp add: file_byte_def)
qed

lemma block_of_part:
  assumes "0 < n" and "k * UFS_BLOCK_SIZE < off mod UFS_BLOCK_SIZE + n"
  shows "\<exists>x. off \<le> x \<and> x < off + n \<and> x div UFS_BLOCK_SIZE = off div UFS_BLOCK_SIZE + k"
proof -
  define x where "x = max off ((off div 4096 + k) * 4096)"
  have "off \<le> x" by (simp add: x_def)
  moreover have "x < off + n"
    using assms div_mult_mod_eq [of off 4096] unfolding x_def add_mult_distrib by linarith
  moreover have "x div 4096 = off div 4096 + k"
    by (cases "k = 0") (auto simp: x_def max_def intro!: div_nat_eqI)
  ultimately show ?thesis by blast
qed

lemma ufs_read_ok:
  assumes "dok (fs_disk nfs)" and "int i < num_inodes (fs_s nfs)"
    and "i < bm_cap (inode_bp nfs)" and "bm_bit (inode_bp nfs) i" and "i < length (inodes nfs)"
    and "is_int32 (i_size (inodes nfs ! i))"
    and "0 < n" and "int (off + n) \<le> i_size (inodes nfs ! i)"
    and "i_type (inodes nfs ! i) = UFS_DIRECTORY \<longrightarrow> off mod 32 = 0"
    and "\<forall>x. off \<le> x \<and> x < off + n \<longrightarrow> x div UFS_BLOCK_SIZE < length (i_direct (inodes nfs ! i)) \<and>
           blk_ok (lim (fs_disk nfs)) (i_direct (inodes nfs ! i) ! (x div UFS_BLOCK_SIZE))"
  shows "\<exists>d'. ufs_read drv nfs (int i) (int off) (int n) =
      Ok (0, map (file_byte (bytes (fs_disk nfs)) (i_direct (inodes nfs ! i))) [off..<off + n],
          nfs\<lparr>fs_disk := d'\<rparr>) \<and> same (fs_disk nfs) d'"
proof -
  let ?ino = "inodes nfs ! i" and ?d = "fs_disk nfs"
  let ?s = "off div 4096" and ?o = "off mod 4096"
  let ?ps = "drop ?s (i_direct ?ino)"
  have bk: "k < length ?ps \<and> blk_ok (lim ?d) (?ps ! k)" if k: "k * 4096 < ?o + n" for k
  proof -
    obtain x where "off \<le> x" "x < off + n" "x div 4096 = ?s + k"
      using block_of_part [OF assms(7) k] by blast
    then show ?thesis
      using spec [OF assms(10), of x] by (auto simp: less_diff_conv add.commute)
  qed
  have "\<exists>d'. read_loop drv (int n) ?ps (int 0) (int ?o) ?d =
      Ok (map (file_byte (bytes ?d) ?ps) [?o..<?o + (n - 0)], d') \<and> same ?d d'"
    using assms(1) bk by (intro read_loop_ok) auto
  moreover have "?s \<le> length (i_direct ?ino)"
    using spec [OF assms(10), of off] assms(7) by auto
  then have "map (file_byte (bytes ?d) ?ps) [?o..<?o + n] = map (file_byte (bytes ?d) (i_direct ?ino)) [off..<off + n]"
    by (intro nth_equalityI) (simp_all add: file_byte_drop)
  moreover have "c_div (int off) 4096 = int ?s" "c_mod (int off) 4096 = int ?o"
    by (simp_all add: zdiv_int zmod_int)
  moreover have "is_int32 (int off + int n)"
    using assms(6,8) by (simp add: is_int32_def)
  moreover have "i_type ?ino = UFS_DIRECTORY \<Longrightarrow> int ?o mod 32 = 0"
    using assms(9) mod_mod_cancel [of 32 4096 off] zmod_int [of ?o 32] by simp
  ultimately show ?thesis
    using assms(2-5,7,8) by (auto simp: ufs_read_def get_bitmap_eq Let_def)
qed

end

end
