(* ===== verification/UfsInv.thy ===== *)
theory UfsInv
  imports UfsRead
begin

text \<open>
  The invariant of a mounted file system: where its regions lie, what each allocated inode
  may point to, and how the metadata on disk relates to the copies in memory. Commit, on
  which every writing operation ends, brings the two together.
\<close>

section \<open>Layout\<close>

definition layout_ok :: "super_t \<Rightarrow> nat \<Rightarrow> bool" where
  "layout_ok s L \<longleftrightarrow> 0 < inode_bitmap_addr s \<and> inode_bitmap_addr s < data_bitmap_addr s \<and>
     data_bitmap_addr s < inode_region_addr s \<and> inode_region_addr s < data_region_addr s \<and>
     0 < num_inodes s \<and> num_inodes s \<le> 32 \<and> 0 < num_data s \<and> num_data s \<le> 32 \<and>
     (data_region_addr s + num_data s) * 4096 \<le> int L \<and>
     (data_region_addr s + num_data s) * 4096 < 2 ^ 31"

text \<open>Byte positions of the inode bitmap, the data bitmap, an inode, and the block number of the data region.\<close>

definition IB :: "super_t \<Rightarrow> nat" where "IB s = nat (inode_bitmap_addr s) * UFS_BLOCK_SIZE"
definition DB :: "super_t \<Rightarrow> nat" where "DB s = nat (data_bitmap_addr s) * UFS_BLOCK_SIZE"
definition IT :: "super_t \<Rightarrow> nat \<Rightarrow> nat" where
  "IT s i = nat (inode_region_addr s) * UFS_BLOCK_SIZE + sizeof_inode * i"
definition DR :: "super_t \<Rightarrow> nat" where "DR s = nat (data_region_addr s)"

lemma layout_positions:
  assumes "layout_ok s L" and "i < 32" and "j < 32"
  shows "40 \<le> IB s" "IB s + 4 \<le> DB s" "DB s + 4 \<le> IT s i" "IT s i + 128 \<le> DR s * UFS_BLOCK_SIZE"
    and "i < j \<Longrightarrow> IT s i + 128 \<le> IT s j" and "(DR s + nat (num_data s)) * UFS_BLOCK_SIZE \<le> L"
    and "DR s * UFS_BLOCK_SIZE \<le> L"
    and "IB s < 2 ^ 31" "DB s < 2 ^ 31" "IT s i < 2 ^ 31" "(DR s + nat (num_data s)) * UFS_BLOCK_SIZE < 2 ^ 31"
proof -
  define a b c d n where "a = nat (inode_bitmap_addr s)" and "b = nat (data_bitmap_addr s)"
    and "c = nat (inode_region_addr s)" and "d = nat (data_region_addr s)" and "n = nat (num_data s)"
  have "0 < a" "a < b" "b < c" "c < d" "(d + n) * 4096 \<le> L" "(d + n) * 4096 < 2 ^ 31"
    using assms(1) by (auto simp: layout_ok_def a_def b_def c_def d_def n_def nat_less_iff)
  then show "40 \<le> IB s" "IB s + 4 \<le> DB s" "DB s + 4 \<le> IT s i" "IT s i + 128 \<le> DR s * 4096"
    "i < j \<Longrightarrow> IT s i + 128 \<le> IT s j" "(DR s + nat (num_data s)) * 4096 \<le> L" "DR s * 4096 \<le> L"
    "IB s < 2 ^ 31" "DB s < 2 ^ 31" "IT s i < 2 ^ 31" "(DR s + nat (num_data s)) * 4096 < 2 ^ 31"
    using assms(2,3)
    by (auto simp: IB_def DB_def IT_def DR_def simp flip: a_def b_def c_def d_def n_def)
qed

lemma layout_counts:
  assumes "layout_ok s L"
  shows "nat (num_inodes s) \<le> 32" "nat (num_data s) \<le> 32" "int (nat (num_inodes s)) = num_inodes s"
    "int (nat (num_data s)) = num_data s" "int (DR s) = data_region_addr s"
  using assms unfolding layout_ok_def DR_def by linarith+

lemma unit_addr_ok:
  assumes "layout_ok s L"
  shows "unit_addr (inode_bitmap_addr s) 0 = Ok (int (IB s))"
    and "unit_addr (data_bitmap_addr s) 0 = Ok (int (DB s))"
    and "i < 32 \<Longrightarrow> unit_addr (inode_region_addr s) (int i * 128) = Ok (int (IT s i))"
proof -
  have *: "unit_addr x (int k) = Ok (int (nat x * 4096 + k))"
    if "0 \<le> x" "nat x * 4096 + k < 2 ^ 31" for x k
  proof -
    have "is_int32 (x * 4096)"
      using that by (simp add: is_int32_def)
    moreover have "to_int (x * 4096 + int k) = int (nat x * 4096 + k)"
      unfolding to_int_def using that by (subst sint_of_int32) (simp_all add: is_int32_def)
    ultimately show ?thesis
      by (simp add: unit_addr_def)
  qed
  show "unit_addr (inode_bitmap_addr s) 0 = Ok (int (IB s))"
    "unit_addr (data_bitmap_addr s) 0 = Ok (int (DB s))"
    using *[of "inode_bitmap_addr s" 0] *[of "data_bitmap_addr s" 0]
      layout_positions(8,9) [OF assms, of 0 0] assms by (simp_all add: IB_def DB_def layout_ok_def)
  assume "i < 32"
  then show "unit_addr (inode_region_addr s) (int i * 128) = Ok (int (IT s i))"
    using *[of "inode_region_addr s" "128 * i"] layout_positions(10) [OF assms, of i 0] assms
    by (simp add: IT_def layout_ok_def mult.commute)
qed

section \<open>Memory and disk\<close>

text \<open>
  The types of the in-memory tables, and the sizes \<open>ufs_init\<close> gives them for at most 32 inodes
  and data blocks.
\<close>

definition tables_ok :: "'d ufs \<Rightarrow> bool" where
  "tables_ok nfs \<longleftrightarrow> super_typed (fs_s nfs) \<and> length (inode_bp nfs) = 1 \<and> length (data_bp nfs) = 1 \<and>
     length (dirty_inode_bp nfs) = 1 \<and> length (dirty_data_bp nfs) = 1 \<and>
     length (inodes nfs) = nat (num_inodes (fs_s nfs)) \<and> (\<forall>ino \<in> set (inodes nfs). inode_typed ino)"

text \<open>The disk \<open>c\<close> holds the tables, up to the parts that are marked dirty.\<close>

definition clean_synced :: "(nat \<Rightarrow> byte) \<Rightarrow> 'd ufs \<Rightarrow> bool" where
  "clean_synced c nfs \<longleftrightarrow> (let s = fs_s nfs; n = nat (num_inodes s); m = nat (num_data s) in
     rd c 0 sizeof_super = enc_super s \<and>
     (\<forall>i < n. \<not> bm_bit (dirty_inode_bp nfs) i \<longrightarrow> rd c (IT s i) sizeof_inode = enc_inode (inodes nfs ! i)) \<and>
     ((\<forall>i < n. \<not> bm_bit (dirty_inode_bp nfs) i) \<longrightarrow> rd c (IB s) 4 = le32 (inode_bp nfs ! 0)) \<and>
     ((\<forall>i < m. \<not> bm_bit (dirty_data_bp nfs) i) \<longrightarrow> rd c (DB s) 4 = le32 (data_bp nfs ! 0)))"

text \<open>The disk holds the tables.\<close>

definition synced :: "(nat \<Rightarrow> byte) \<Rightarrow> 'd ufs \<Rightarrow> bool" where
  "synced c nfs \<longleftrightarrow> (let s = fs_s nfs in
     rd c 0 sizeof_super = enc_super s \<and>
     (\<forall>i < nat (num_inodes s). rd c (IT s i) sizeof_inode = enc_inode (inodes nfs ! i)) \<and>
     rd c (IB s) 4 = le32 (inode_bp nfs ! 0) \<and> rd c (DB s) 4 = le32 (data_bp nfs ! 0))"

text \<open>What the two commit loops store.\<close>

definition store_inode :: "'d ufs \<Rightarrow> nat \<Rightarrow> (nat \<Rightarrow> byte) \<Rightarrow> (nat \<Rightarrow> byte)" where
  "store_inode nfs i c =
     (if bm_bit (dirty_inode_bp nfs) i
      then wr (wr c (IB (fs_s nfs)) (le32 (inode_bp nfs ! 0))) (IT (fs_s nfs) i) (enc_inode (inodes nfs ! i))
      else c)"

definition store_data :: "'d ufs \<Rightarrow> nat \<Rightarrow> (nat \<Rightarrow> byte) \<Rightarrow> (nat \<Rightarrow> byte)" where
  "store_data nfs i c =
     (if bm_bit (dirty_data_bp nfs) i then wr c (DB (fs_s nfs)) (le32 (data_bp nfs ! 0)) else c)"

lemma fold_store_data:
  "fold (store_data nfs) is c =
     (if \<exists>i \<in> set is. bm_bit (dirty_data_bp nfs) i
      then wr c (DB (fs_s nfs)) (le32 (data_bp nfs ! 0)) else c)"
proof (induction "is" arbitrary: c)
  case (Cons i "is")
  have "wr (wr c a bs) a bs = wr c a bs" for c :: "nat \<Rightarrow> byte" and a bs
    by (auto simp: wr_def fun_eq_iff)
  with Cons show ?case by (auto simp: store_data_def)
qed simp

lemma fold_store_inode:
  assumes "layout_ok (fs_s nfs) L" and "tables_ok nfs" and "\<forall>i \<in> set is. i < nat (num_inodes (fs_s nfs))"
  shows "(\<forall>i < nat (num_inodes (fs_s nfs)). rd (fold (store_inode nfs) is c) (IT (fs_s nfs) i) 128 =
           (if i \<in> set is \<and> bm_bit (dirty_inode_bp nfs) i then enc_inode (inodes nfs ! i)
            else rd c (IT (fs_s nfs) i) 128)) \<and>
    rd (fold (store_inode nfs) is c) (IB (fs_s nfs)) 4 =
      (if \<exists>i \<in> set is. bm_bit (dirty_inode_bp nfs) i then le32 (inode_bp nfs ! 0)
       else rd c (IB (fs_s nfs)) 4) \<and>
    (\<forall>x. (x < IB (fs_s nfs) \<or> IB (fs_s nfs) + 4 \<le> x) \<and>
         (x < IT (fs_s nfs) 0 \<or> DR (fs_s nfs) * 4096 \<le> x) \<longrightarrow> fold (store_inode nfs) is c x = c x)"
  using assms(3)
proof (induction "is" arbitrary: c)
  case Nil
  then show ?case by simp
next
  case (Cons k "is")
  let ?s = "fs_s nfs" and ?c' = "store_inode nfs k c"
  note n32 = layout_counts(1) [OF assms(1)]
  have k: "k < nat (num_inodes ?s)" "k < 32"
    using Cons.prems n32 by auto
  have len: "length (enc_inode (inodes nfs ! k)) = 128"
    using k(1) assms(2) by (simp add: tables_ok_def)
  note pos = layout_positions [OF assms(1)]
  have it: "rd ?c' (IT ?s i) 128 = (if i = k \<and> bm_bit (dirty_inode_bp nfs) i then enc_inode (inodes nfs ! i)
      else rd c (IT ?s i) 128)" if "i < nat (num_inodes ?s)" for i
  proof -
    have i: "i < 32" using that n32 by simp
    have "i \<noteq> k \<Longrightarrow> IT ?s i + 128 \<le> IT ?s k \<or> IT ?s k + 128 \<le> IT ?s i"
      using pos(5) [OF i k(2)] pos(5) [OF k(2) i] by (auto simp: neq_iff)
    then show ?thesis
      using pos(2,3) [OF i i] len by (auto simp: store_inode_def rd_wr_disjoint)
  qed
  have ib: "rd ?c' (IB ?s) 4 = (if bm_bit (dirty_inode_bp nfs) k then le32 (inode_bp nfs ! 0) else rd c (IB ?s) 4)"
    using pos(2,3) [OF k(2) k(2)] len by (auto simp: store_inode_def rd_wr_disjoint)
  have out: "?c' x = c x" if "x < IB ?s \<or> IB ?s + 4 \<le> x"
      "x < IT ?s 0 \<or> DR ?s * 4096 \<le> x" for x
  proof -
    have "x < IT ?s k \<or> IT ?s k + 128 \<le> x"
      using that(2) pos(4) [OF k(2) k(2)] by (auto simp: IT_def)
    then show ?thesis
      using len that(1) by (auto simp: store_inode_def wr_apply_out)
  qed
  show ?case
    using Cons.IH [of ?c'] Cons.prems it ib out by (auto split: if_splits)
qed

section \<open>The commit loops\<close>

lemma upt_first: "[i..<i + Suc n] = i # [Suc i..<Suc i + n]"
  by (simp add: upt_conv_Cons del: upt_Suc)

text \<open>A clear bit may as well be reset; resetting bit \<open>i\<close> leaves those that the other turns look at.\<close>

lemma bm_reset_clear: "i < bm_cap b \<Longrightarrow> \<not> bm_bit b i \<Longrightarrow> bm_reset b i = b"
  by (cases b) (auto simp: bm_bit_def bm_reset_def bm_cap_def bit_simps intro!: bit_word_eqI split: if_splits)

lemma bm_reset_rest:
  "bm_cap b = 32 \<Longrightarrow> i < 32 \<Longrightarrow> j < 32 \<Longrightarrow>
    bm_bit (bm_reset b i) j \<and> (j < Suc i \<or> Suc i + n \<le> j) \<longleftrightarrow> bm_bit b j \<and> (j < i \<or> i + Suc n \<le> j)"
  by (auto simp: bm_bit_reset)

lemma store_inode_reset:
  assumes "bm_cap (dirty_inode_bp nfs) = 32" and "i < 32" and "i + n < 32"
  shows "fold (store_inode (nfs\<lparr>dirty_inode_bp := bm_reset (dirty_inode_bp nfs) i, fs_disk := d\<rparr>)) [Suc i..<Suc i + n] c =
    fold (store_inode nfs) [Suc i..<Suc i + n] c"
proof (rule fold_cong)
  fix x assume "x \<in> set [Suc i..<Suc i + n]"
  then show "store_inode (nfs\<lparr>dirty_inode_bp := bm_reset (dirty_inode_bp nfs) i, fs_disk := d\<rparr>) x = store_inode nfs x"
    using assms by (auto simp: store_inode_def bm_bit_reset fun_eq_iff)
qed simp_all

lemma store_data_reset:
  assumes "bm_cap (dirty_data_bp nfs) = 32" and "i < 32" and "i + n < 32"
  shows "fold (store_data (nfs\<lparr>dirty_data_bp := bm_reset (dirty_data_bp nfs) i, fs_disk := d\<rparr>)) [Suc i..<Suc i + n] c =
    fold (store_data nfs) [Suc i..<Suc i + n] c"
proof (rule fold_cong)
  fix x assume "x \<in> set [Suc i..<Suc i + n]"
  then show "store_data (nfs\<lparr>dirty_data_bp := bm_reset (dirty_data_bp nfs) i, fs_disk := d\<rparr>) x = store_data nfs x"
    using assms by (auto simp: store_data_def bm_bit_reset fun_eq_iff)
qed simp_all

lemma tables_caps:
  assumes "tables_ok nfs"
  shows "bm_cap (dirty_inode_bp nfs) = 32" "bm_cap (dirty_data_bp nfs) = 32"
    "arr_get (inode_bp nfs) 0 = Ok (inode_bp nfs ! 0)" "arr_get (data_bp nfs) 0 = Ok (data_bp nfs ! 0)"
  using assms by (simp_all add: tables_ok_def bm_cap_length arr_get_def)

context disk_store
begin

lemma commit_inode_turn:
  assumes "dok (fs_disk nfs)" and "layout_ok (fs_s nfs) (lim (fs_disk nfs))" and t: "tables_ok nfs"
    and i: "i < nat (num_inodes (fs_s nfs))"
  shows "\<exists>d'. commit_inodes drv i (Suc n) nfs =
      commit_inodes drv (Suc i) n (nfs\<lparr>dirty_inode_bp := bm_reset (dirty_inode_bp nfs) i, fs_disk := d'\<rparr>) \<and>
    dok d' \<and> lim d' = lim (fs_disk nfs) \<and> bytes d' = store_inode nfs i (bytes (fs_disk nfs))"
proof -
  let ?s = "fs_s nfs" and ?d = "fs_disk nfs" and ?w = "inode_bp nfs ! 0" and ?ino = "inodes nfs ! i"
  have i32: "i < 32" "i < length (inodes nfs)"
    using t i layout_counts(1) [OF assms(2)] by (auto simp: tables_ok_def)
  note pos = layout_positions [OF assms(2) i32(1) i32(1)] and cap = tables_caps [OF t]
  show ?thesis
  proof (cases "bm_bit (dirty_inode_bp nfs) i")
    case False
    have "nfs\<lparr>dirty_inode_bp := bm_reset (dirty_inode_bp nfs) i, fs_disk := ?d\<rparr> = nfs"
      using False cap i32 by (intro ufs.equality) (simp_all add: bm_reset_clear)
    then show ?thesis
      using False i32 cap assms(1) by (intro exI [of _ ?d]) (simp add: get_bitmap_eq store_inode_def)
  next
    case True
    have len: "length (enc_inode ?ino) = 128"
      using t i32(2) by (simp add: tables_ok_def)
    have "IB ?s + length (le32 ?w) \<le> lim ?d"
      using pos by simp
    then obtain d1 where w1: "Write drv (int (IB ?s)) (le32 ?w) ?d = Ok (0, d1)" "stored ?d (IB ?s) (le32 ?w) d1"
      using Write_ok [OF assms(1)] by blast
    have "IT ?s i + length (enc_inode ?ino) \<le> lim d1"
      using pos len w1(2) by (simp add: stored_def)
    then obtain d2 where w2: "Write drv (int (IT ?s i)) (enc_inode ?ino) d1 = Ok (0, d2)"
      "stored d1 (IT ?s i) (enc_inode ?ino) d2"
      using Write_ok w1(2) unfolding stored_def by blast
    have "commit_inodes drv i (Suc n) nfs = commit_inodes drv (Suc i) n (nfs\<lparr>dirty_inode_bp := bm_reset (dirty_inode_bp nfs) i, fs_disk := d2\<rparr>)"
      using True i32 cap w1(1) w2(1) unit_addr_ok [OF assms(2)]
      by (simp add: get_bitmap_eq reset_bitmap_eq Let_def)
    then show ?thesis
      using w1(2) w2(2) True by (auto simp: stored_def store_inode_def)
  qed
qed

lemma commit_inodes_ok:
  assumes "dok (fs_disk nfs)" and "layout_ok (fs_s nfs) (lim (fs_disk nfs))" and "tables_ok nfs"
    and "i + n \<le> nat (num_inodes (fs_s nfs))"
  shows "\<exists>d' db'. commit_inodes drv i n nfs = Ok (0, nfs\<lparr>dirty_inode_bp := db', fs_disk := d'\<rparr>) \<and>
     dok d' \<and> lim d' = lim (fs_disk nfs) \<and>
     bytes d' = fold (store_inode nfs) [i..<i + n] (bytes (fs_disk nfs)) \<and> length db' = 1 \<and>
     (\<forall>j < 32. bm_bit db' j \<longleftrightarrow> bm_bit (dirty_inode_bp nfs) j \<and> (j < i \<or> i + n \<le> j))"
  using assms
proof (induction n arbitrary: i nfs)
  case 0
  then show ?case
    by (intro exI [of _ "fs_disk nfs"] exI [of _ "dirty_inode_bp nfs"]) (auto simp: tables_ok_def)
next
  case (Suc n)
  have i: "i < nat (num_inodes (fs_s nfs))" "i < 32" "i + n < 32"
    using Suc.prems(4) layout_counts(1) [OF Suc.prems(2)] by auto
  note cap = tables_caps(1) [OF Suc.prems(3)]
  obtain d where d: "commit_inodes drv i (Suc n) nfs =
      commit_inodes drv (Suc i) n (nfs\<lparr>dirty_inode_bp := bm_reset (dirty_inode_bp nfs) i, fs_disk := d\<rparr>)"
    "dok d" "lim d = lim (fs_disk nfs)" "bytes d = store_inode nfs i (bytes (fs_disk nfs))"
    using commit_inode_turn [OF Suc.prems(1-3) i(1)] by blast
  let ?nfs = "nfs\<lparr>dirty_inode_bp := bm_reset (dirty_inode_bp nfs) i, fs_disk := d\<rparr>"
  have "\<exists>d' db'. commit_inodes drv (Suc i) n ?nfs = Ok (0, ?nfs\<lparr>dirty_inode_bp := db', fs_disk := d'\<rparr>) \<and>
     dok d' \<and> lim d' = lim (fs_disk ?nfs) \<and>
     bytes d' = fold (store_inode ?nfs) [Suc i..<Suc i + n] (bytes (fs_disk ?nfs)) \<and> length db' = 1 \<and>
     (\<forall>j < 32. bm_bit db' j \<longleftrightarrow> bm_bit (dirty_inode_bp ?nfs) j \<and> (j < Suc i \<or> Suc i + n \<le> j))"
    using d Suc.prems by (intro Suc.IH) (auto simp: tables_ok_def)
  then show ?case
    using d store_inode_reset [OF cap i(2,3)] bm_reset_rest [OF cap i(2), of _ n]
    unfolding upt_first d(1) by auto
qed

lemma commit_data_turn:
  assumes "dok (fs_disk nfs)" and "layout_ok (fs_s nfs) (lim (fs_disk nfs))" and t: "tables_ok nfs"
    and i: "i < nat (num_data (fs_s nfs))"
  shows "\<exists>d'. commit_data drv i (Suc n) nfs =
      commit_data drv (Suc i) n (nfs\<lparr>dirty_data_bp := bm_reset (dirty_data_bp nfs) i, fs_disk := d'\<rparr>) \<and>
    dok d' \<and> lim d' = lim (fs_disk nfs) \<and> bytes d' = store_data nfs i (bytes (fs_disk nfs))"
proof -
  let ?s = "fs_s nfs" and ?d = "fs_disk nfs" and ?w = "data_bp nfs ! 0"
  have i32: "i < 32" using i layout_counts(2) [OF assms(2)] by simp
  note pos = layout_positions [OF assms(2) i32 i32] and cap = tables_caps [OF t]
  show ?thesis
  proof (cases "bm_bit (dirty_data_bp nfs) i")
    case False
    have "nfs\<lparr>dirty_data_bp := bm_reset (dirty_data_bp nfs) i, fs_disk := ?d\<rparr> = nfs"
      using False cap i32 by (intro ufs.equality) (simp_all add: bm_reset_clear)
    then show ?thesis
      using False i32 cap assms(1) by (intro exI [of _ ?d]) (simp add: get_bitmap_eq store_data_def)
  next
    case True
    have "DB ?s + length (le32 ?w) \<le> lim ?d"
      using pos by simp
    then obtain d1 where w1: "Write drv (int (DB ?s)) (le32 ?w) ?d = Ok (0, d1)" "stored ?d (DB ?s) (le32 ?w) d1"
      using Write_ok [OF assms(1)] by blast
    have "commit_data drv i (Suc n) nfs = commit_data drv (Suc i) n (nfs\<lparr>dirty_data_bp := bm_reset (dirty_data_bp nfs) i, fs_disk := d1\<rparr>)"
      using True i32 cap w1(1) unit_addr_ok [OF assms(2)] by (simp add: get_bitmap_eq reset_bitmap_eq Let_def)
    then show ?thesis
      using w1(2) True by (auto simp: stored_def store_data_def)
  qed
qed

lemma commit_data_ok:
  assumes "dok (fs_disk nfs)" and "layout_ok (fs_s nfs) (lim (fs_disk nfs))" and "tables_ok nfs"
    and "i + n \<le> nat (num_data (fs_s nfs))"
  shows "\<exists>d' db'. commit_data drv i n nfs = Ok (0, nfs\<lparr>dirty_data_bp := db', fs_disk := d'\<rparr>) \<and>
     dok d' \<and> lim d' = lim (fs_disk nfs) \<and>
     bytes d' = fold (store_data nfs) [i..<i + n] (bytes (fs_disk nfs)) \<and> length db' = 1 \<and>
     (\<forall>j < 32. bm_bit db' j \<longleftrightarrow> bm_bit (dirty_data_bp nfs) j \<and> (j < i \<or> i + n \<le> j))"
  using assms
proof (induction n arbitrary: i nfs)
  case 0
  then show ?case
    by (intro exI [of _ "fs_disk nfs"] exI [of _ "dirty_data_bp nfs"]) (auto simp: tables_ok_def)
next
  case (Suc n)
  have i: "i < nat (num_data (fs_s nfs))" "i < 32" "i + n < 32"
    using Suc.prems(4) layout_counts(2) [OF Suc.prems(2)] by auto
  note cap = tables_caps(2) [OF Suc.prems(3)]
  obtain d where d: "commit_data drv i (Suc n) nfs =
      commit_data drv (Suc i) n (nfs\<lparr>dirty_data_bp := bm_reset (dirty_data_bp nfs) i, fs_disk := d\<rparr>)"
    "dok d" "lim d = lim (fs_disk nfs)" "bytes d = store_data nfs i (bytes (fs_disk nfs))"
    using commit_data_turn [OF Suc.prems(1-3) i(1)] by blast
  let ?nfs = "nfs\<lparr>dirty_data_bp := bm_reset (dirty_data_bp nfs) i, fs_disk := d\<rparr>"
  have "\<exists>d' db'. commit_data drv (Suc i) n ?nfs = Ok (0, ?nfs\<lparr>dirty_data_bp := db', fs_disk := d'\<rparr>) \<and>
     dok d' \<and> lim d' = lim (fs_disk ?nfs) \<and>
     bytes d' = fold (store_data ?nfs) [Suc i..<Suc i + n] (bytes (fs_disk ?nfs)) \<and> length db' = 1 \<and>
     (\<forall>j < 32. bm_bit db' j \<longleftrightarrow> bm_bit (dirty_data_bp ?nfs) j \<and> (j < Suc i \<or> Suc i + n \<le> j))"
    using d Suc.prems by (intro Suc.IH) (auto simp: tables_ok_def)
  then show ?case
    using d store_data_reset [OF cap i(2,3)] bm_reset_rest [OF cap i(2), of _ n]
    unfolding upt_first d(1) by auto
qed

end

text \<open>The stores of the two loops bring the disk up to date, and write only below the data region.\<close>

lemma stores_synced:
  assumes lay: "layout_ok (fs_s nfs) L" and tab: "tables_ok nfs" and cs: "clean_synced c nfs"
    and c2: "c2 = fold (store_data nfs) [0..<nat (num_data (fs_s nfs))] (fold (store_inode nfs) [0..<nat (num_inodes (fs_s nfs))] c)"
  shows "synced c2 nfs" and "DR (fs_s nfs) * UFS_BLOCK_SIZE \<le> x \<Longrightarrow> c2 x = c x"
proof -
  let ?s = "fs_s nfs" and ?n = "nat (num_inodes (fs_s nfs))" and ?m = "nat (num_data (fs_s nfs))"
  let ?c1 = "fold (store_inode nfs) [0..<?n] c"
  have cs': "rd c 0 40 = enc_super ?s"
    "\<And>i. i < ?n \<Longrightarrow> \<not> bm_bit (dirty_inode_bp nfs) i \<Longrightarrow> rd c (IT ?s i) 128 = enc_inode (inodes nfs ! i)"
    "\<forall>i < ?n. \<not> bm_bit (dirty_inode_bp nfs) i \<Longrightarrow> rd c (IB ?s) 4 = le32 (inode_bp nfs ! 0)"
    "\<forall>i < ?m. \<not> bm_bit (dirty_data_bp nfs) i \<Longrightarrow> rd c (DB ?s) 4 = le32 (data_bp nfs ! 0)"
    using cs by (auto simp: clean_synced_def Let_def)
  have fi: "(\<forall>i < ?n. rd ?c1 (IT ?s i) 128 = (if i \<in> set [0..<?n] \<and> bm_bit (dirty_inode_bp nfs) i then enc_inode (inodes nfs ! i)
            else rd c (IT ?s i) 128)) \<and>
    rd ?c1 (IB ?s) 4 = (if \<exists>i \<in> set [0..<?n]. bm_bit (dirty_inode_bp nfs) i then le32 (inode_bp nfs ! 0) else rd c (IB ?s) 4) \<and>
    (\<forall>x. (x < IB ?s \<or> IB ?s + 4 \<le> x) \<and> (x < IT ?s 0 \<or> DR ?s * 4096 \<le> x) \<longrightarrow> ?c1 x = c x)"
    by (rule fold_store_inode [OF lay tab]) simp
  note pos = layout_positions [OF lay, of 0 0]
  have c2': "c2 = (if \<exists>i < ?m. bm_bit (dirty_data_bp nfs) i then wr ?c1 (DB ?s) (le32 (data_bp nfs ! 0)) else ?c1)"
    using fold_store_data [of nfs "[0..<?m]" ?c1] c2 by (auto simp: Bex_def)
  have out: "rd c2 a n = rd ?c1 a n" if "a + n \<le> DB ?s \<or> DB ?s + 4 \<le> a" for a n
    using that by (auto simp: c2' rd_wr_disjoint)
  have ib: "IB ?s + 4 \<le> DB ?s" "40 \<le> IB ?s" "IT ?s 0 + 128 \<le> DR ?s * 4096" "DB ?s + 4 \<le> IT ?s 0"
    using pos by auto
  have it: "DB ?s + 4 \<le> IT ?s i" for i
    using ib(4) by (simp add: IT_def)
  have low: "rd ?c1 0 40 = rd c 0 40" "rd ?c1 (DB ?s) 4 = rd c (DB ?s) 4"
    using fi ib by (auto intro!: rd_cong)
  have "rd c2 0 40 = enc_super ?s"
    using out [of 0 40] low cs'(1) ib by simp
  moreover have "rd c2 (IT ?s i) 128 = enc_inode (inodes nfs ! i)" if "i < ?n" for i
    using out [of "IT ?s i" 128] it [of i] fi cs'(2) [of i] that by auto
  moreover have "rd c2 (IB ?s) 4 = le32 (inode_bp nfs ! 0)"
    using out [of "IB ?s" 4] ib fi cs'(3) by (auto split: if_splits)
  moreover have "rd c2 (DB ?s) 4 = le32 (data_bp nfs ! 0)"
    using c2' low cs'(4) by auto
  ultimately show "synced c2 nfs"
    by (simp add: synced_def Let_def)
  show "c2 x = c x" if "DR ?s * 4096 \<le> x"
    using that ib it [of 0] fi by (auto simp: c2' wr_apply_out)
qed

context disk_store
begin

text \<open>The commit itself: what is dirty is written, and only a bit beyond the counts stays dirty.\<close>

lemma commit_dirty_ok:
  assumes "dok (fs_disk nfs)" and "layout_ok (fs_s nfs) (lim (fs_disk nfs))" and "tables_ok nfs"
    and "clean_synced (bytes (fs_disk nfs)) nfs"
  shows "\<exists>db1 db2 d. commit_dirty_to_disk drv nfs = Ok (0, nfs\<lparr>dirty_inode_bp := db1, dirty_data_bp := db2, fs_disk := d\<rparr>) \<and>
    dok d \<and> lim d = lim (fs_disk nfs) \<and> length db1 = 1 \<and> length db2 = 1 \<and> synced (bytes d) nfs \<and>
    (\<forall>j < nat (num_inodes (fs_s nfs)). \<not> bm_bit db1 j) \<and> (\<forall>j < nat (num_data (fs_s nfs)). \<not> bm_bit db2 j) \<and>
    (\<forall>x. DR (fs_s nfs) * UFS_BLOCK_SIZE \<le> x \<longrightarrow> bytes d x = bytes (fs_disk nfs) x)"
proof -
  let ?s = "fs_s nfs" and ?c = "bytes (fs_disk nfs)"
  let ?n = "nat (num_inodes ?s)" and ?m = "nat (num_data ?s)"
  obtain d1 db1 where 1: "commit_inodes drv 0 ?n nfs = Ok (0, nfs\<lparr>dirty_inode_bp := db1, fs_disk := d1\<rparr>)"
    "dok d1" "lim d1 = lim (fs_disk nfs)" "bytes d1 = fold (store_inode nfs) [0..<?n] ?c" "length db1 = 1"
    "\<forall>j < 32. bm_bit db1 j \<longleftrightarrow> bm_bit (dirty_inode_bp nfs) j \<and> ?n \<le> j"
    using commit_inodes_ok [OF assms(1-3), of 0 ?n] by auto
  let ?nfs1 = "nfs\<lparr>dirty_inode_bp := db1, fs_disk := d1\<rparr>"
  have t1: "tables_ok ?nfs1"
    using assms(3) 1(5) by (simp add: tables_ok_def)
  obtain d2 db2 where 2: "commit_data drv 0 ?m ?nfs1 = Ok (0, ?nfs1\<lparr>dirty_data_bp := db2, fs_disk := d2\<rparr>)"
    "dok d2" "lim d2 = lim d1" "bytes d2 = fold (store_data ?nfs1) [0..<?m] (bytes d1)" "length db2 = 1"
    "\<forall>j < 32. bm_bit db2 j \<longleftrightarrow> bm_bit (dirty_data_bp nfs) j \<and> ?m \<le> j"
    using commit_data_ok [OF _ _ t1, of 0 ?m] 1 assms(2) by auto
  have "store_data ?nfs1 = store_data nfs" by (simp add: fun_eq_iff store_data_def)
  then have "bytes d2 = fold (store_data nfs) [0..<?m] (fold (store_inode nfs) [0..<?n] ?c)"
    using 2(4) 1(4) by simp
  note st = stores_synced [OF assms(2,3,4) this]
  have "\<forall>j < ?n. \<not> bm_bit db1 j" "\<forall>j < ?m. \<not> bm_bit db2 j"
    using 1(6) 2(6) layout_counts [OF assms(2)] by auto
  moreover have "commit_dirty_to_disk drv nfs = Ok (0, nfs\<lparr>dirty_inode_bp := db1, dirty_data_bp := db2, fs_disk := d2\<rparr>)"
    using 1(1) 2(1) by (simp add: commit_dirty_to_disk_def)
  ultimately show ?thesis
    using 1(3,5) 2(2,3,5) st by (intro exI [of _ db1] exI [of _ db2] exI [of _ d2]) simp
qed

text \<open>
  After a commit the disk holds the tables, nothing is dirty, and only the metadata below
  the data region has been written.
\<close>

lemma commit_and_sync_ok:
  assumes "dok (fs_disk nfs)" and "layout_ok (fs_s nfs) (lim (fs_disk nfs))" and "tables_ok nfs"
    and "clean_synced (bytes (fs_disk nfs)) nfs"
  obtains nfs' where "commit_and_sync drv nfs = Ok (0, nfs')"
    "dok (fs_disk nfs')" "lim (fs_disk nfs') = lim (fs_disk nfs)" "tables_ok nfs'"
    "fs_s nfs' = fs_s nfs" "inode_bp nfs' = inode_bp nfs" "data_bp nfs' = data_bp nfs"
    "inodes nfs' = inodes nfs" "inode_bp_sz nfs' = inode_bp_sz nfs" "data_bp_sz nfs' = data_bp_sz nfs"
    "synced (bytes (fs_disk nfs')) nfs'" "clean_synced (bytes (fs_disk nfs')) nfs'"
    "\<And>x. DR (fs_s nfs) * UFS_BLOCK_SIZE \<le> x \<Longrightarrow> bytes (fs_disk nfs') x = bytes (fs_disk nfs) x"
proof -
  obtain db1 db2 d where c: "commit_dirty_to_disk drv nfs = Ok (0, nfs\<lparr>dirty_inode_bp := db1, dirty_data_bp := db2, fs_disk := d\<rparr>)"
    and d: "dok d" "lim d = lim (fs_disk nfs)" "length db1 = 1" "length db2 = 1" "synced (bytes d) nfs"
      "\<forall>x. DR (fs_s nfs) * 4096 \<le> x \<longrightarrow> bytes d x = bytes (fs_disk nfs) x"
    using commit_dirty_ok [OF assms] by blast
  obtain r d3 where 3: "dd_fsync drv d = Ok (r, d3)" "dok d3" "bytes d3 = bytes d" "lim d3 = lim d"
    using fsync_law [OF d(1)] by blast
  let ?nfs' = "nfs\<lparr>dirty_inode_bp := db1, dirty_data_bp := db2, fs_disk := d3\<rparr>"
  have sy: "synced (bytes (fs_disk ?nfs')) ?nfs'"
    using d(5) by (simp add: synced_def Let_def 3(3))
  then have "clean_synced (bytes (fs_disk ?nfs')) ?nfs'"
    by (simp add: synced_def clean_synced_def Let_def)
  moreover have "tables_ok ?nfs'"
    using assms(3) d(3,4) by (simp add: tables_ok_def)
  moreover have "commit_and_sync drv nfs = Ok (0, ?nfs')"
    using c 3(1) by (simp add: commit_and_sync_def)
  ultimately show thesis
    using that [of ?nfs'] sy 3 d by simp
qed

end

end
