(* ===== verification/UfsAbs.thy ===== *)
theory UfsAbs
  imports UfsInv
begin

text \<open>
  The abstract file system: a partial map from inode numbers to directories and files. The
  invariant \<open>fs_wf\<close> makes the tables in memory and the blocks on disk one such map, and two
  lemmas give the steps the writing operations are made of: a new inode, and a new entry at
  the end of a directory.
\<close>

section \<open>The abstraction\<close>

datatype node = Dir "(byte list \<times> int) list" | File "byte list" | Other

definition alloc :: "'d ufs \<Rightarrow> nat \<Rightarrow> bool" where
  "alloc nfs i \<longleftrightarrow> i < nat (num_inodes (fs_s nfs)) \<and> bm_bit (inode_bp nfs) i"

definition file_bytes :: "(nat \<Rightarrow> byte) \<Rightarrow> inode_t \<Rightarrow> byte list" where
  "file_bytes c ino = map (file_byte c (i_direct ino)) [0..<nat (i_size ino)]"

definition node_of :: "(nat \<Rightarrow> byte) \<Rightarrow> inode_t \<Rightarrow> node" where
  "node_of c ino = (if i_type ino = UFS_DIRECTORY then Dir (dir_list c ino)
     else if i_type ino = UFS_REGULAR_FILE then File (file_bytes c ino) else Other)"

definition fs_abs :: "(nat \<Rightarrow> byte) \<Rightarrow> 'd ufs \<Rightarrow> nat \<rightharpoonup> node" where
  "fs_abs c nfs i = (if alloc nfs i then Some (node_of c (inodes nfs ! i)) else None)"

section \<open>The invariant\<close>

text \<open>
  A directory of \<open>n\<close> entries: its first pointers are in use, as many as \<open>n\<close> entries need, the
  first \<open>n\<close> slots hold distinct names of allocated inodes, and the rest of the last block is
  free.
\<close>

definition slot :: "(nat \<Rightarrow> byte) \<Rightarrow> u32 list \<Rightarrow> nat \<Rightarrow> dir_ent_t" where
  "slot c ps j = ent_at c (unat (ps ! (j div 128))) (j mod 128)"

definition entry_wf :: "nat \<Rightarrow> bitmap_t \<Rightarrow> dir_ent_t \<Rightarrow> bool" where
  "entry_wf n ib e \<longleftrightarrow> 0 \<le> de_inum e \<and> nat (de_inum e) < n \<and> bm_bit ib (nat (de_inum e)) \<and>
     terminated (de_name e)"

definition dir_wf :: "(nat \<Rightarrow> byte) \<Rightarrow> nat \<Rightarrow> bitmap_t \<Rightarrow> inode_t \<Rightarrow> bool" where
  "dir_wf c n ib ino \<longleftrightarrow> 0 \<le> i_size ino \<and> i_size ino mod 32 = 0 \<and> dir_size ino \<le> 128 * DIRECT_PTRS \<and>
     (\<forall>k < DIRECT_PTRS. i_direct ino ! k \<noteq> - 1 \<longleftrightarrow> 128 * k < dir_size ino) \<and>
     (\<forall>j < dir_size ino. entry_wf n ib (slot c (i_direct ino) j)) \<and>
     (\<forall>j < 128 * DIRECT_PTRS. dir_size ino \<le> j \<longrightarrow> 128 * (j div 128) < dir_size ino \<longrightarrow>
        de_inum (slot c (i_direct ino) j) = - 1) \<and>
     distinct (map fst (dir_list c ino))"

definition file_wf :: "inode_t \<Rightarrow> bool" where
  "file_wf ino \<longleftrightarrow> 0 \<le> i_size ino \<and> nat (i_size ino) \<le> DIRECT_PTRS * UFS_BLOCK_SIZE \<and>
     (\<forall>k < DIRECT_PTRS. i_direct ino ! k \<noteq> - 1 \<longleftrightarrow> k * UFS_BLOCK_SIZE < nat (i_size ino))"

definition node_wf :: "(nat \<Rightarrow> byte) \<Rightarrow> nat \<Rightarrow> bitmap_t \<Rightarrow> inode_t \<Rightarrow> bool" where
  "node_wf c n ib ino \<longleftrightarrow> (i_type ino = UFS_DIRECTORY \<longrightarrow> dir_wf c n ib ino) \<and>
     (i_type ino = UFS_REGULAR_FILE \<longrightarrow> file_wf ino)"

text \<open>A pointer to a data block that the bitmap marks as taken.\<close>

definition data_ptr :: "super_t \<Rightarrow> bitmap_t \<Rightarrow> u32 \<Rightarrow> bool" where
  "data_ptr s db p \<longleftrightarrow> (\<exists>k < nat (num_data s). p = of_nat (DR s + k) \<and> bm_bit db k)"

definition ptrs_wf :: "'d ufs \<Rightarrow> bool" where
  "ptrs_wf nfs \<longleftrightarrow>
     (\<forall>i < nat (num_inodes (fs_s nfs)). alloc nfs i \<longrightarrow> (\<forall>k < DIRECT_PTRS.
        i_direct (inodes nfs ! i) ! k \<noteq> - 1 \<longrightarrow> data_ptr (fs_s nfs) (data_bp nfs) (i_direct (inodes nfs ! i) ! k))) \<and>
     (\<forall>i < nat (num_inodes (fs_s nfs)). alloc nfs i \<longrightarrow> (\<forall>j < nat (num_inodes (fs_s nfs)). alloc nfs j \<longrightarrow>
        (\<forall>k < DIRECT_PTRS. \<forall>l < DIRECT_PTRS. i_direct (inodes nfs ! i) ! k \<noteq> - 1 \<longrightarrow>
           i_direct (inodes nfs ! i) ! k = i_direct (inodes nfs ! j) ! l \<longrightarrow> i = j \<and> k = l)))"

definition fs_wf :: "(nat \<Rightarrow> byte) \<Rightarrow> nat \<Rightarrow> 'd ufs \<Rightarrow> bool" where
  "fs_wf c L nfs \<longleftrightarrow> layout_ok (fs_s nfs) L \<and> tables_ok nfs \<and> ptrs_wf nfs \<and>
     (\<forall>i < nat (num_inodes (fs_s nfs)). alloc nfs i \<longrightarrow>
        node_wf c (nat (num_inodes (fs_s nfs))) (inode_bp nfs) (inodes nfs ! i))"

section \<open>Blocks\<close>

definition agree :: "(nat \<Rightarrow> byte) \<Rightarrow> (nat \<Rightarrow> byte) \<Rightarrow> nat \<Rightarrow> bool" where
  "agree c c' b \<longleftrightarrow> (\<forall>x < UFS_BLOCK_SIZE. c (b * UFS_BLOCK_SIZE + x) = c' (b * UFS_BLOCK_SIZE + x))"

lemma agree_ent_at: "agree c c' b \<Longrightarrow> j < 128 \<Longrightarrow> ent_at c' b j = ent_at c b j"
  unfolding ent_at_def agree_def by (intro arg_cong [where f = dec_dir_ent] rd_cong) (simp add: add.assoc)

lemma agree_wr:
  "b * UFS_BLOCK_SIZE \<le> a \<Longrightarrow> a + length bs \<le> (b + 1) * UFS_BLOCK_SIZE \<Longrightarrow> b' \<noteq> b \<Longrightarrow> agree c (wr c a bs) b'"
proof -
  assume a: "b * 4096 \<le> a" "a + length bs \<le> (b + 1) * 4096" "b' \<noteq> b"
  have "b' * 4096 + x < b * 4096 \<or> (b + 1) * 4096 \<le> b' * 4096 + x" if "x < 4096" for x
  proof (cases "b' < b")
    case True
    then have "(b' + 1) * 4096 \<le> b * 4096" by (intro mult_le_mono1) simp
    then show ?thesis using that by simp
  next
    case False
    then have "(b + 1) * 4096 \<le> b' * 4096" using a(3) by (intro mult_le_mono1) simp
    then show ?thesis by simp
  qed
  then have "wr c a bs (b' * 4096 + x) = c (b' * 4096 + x)" if "x < 4096" for x
    using a that by (meson le_trans order_less_le_trans wr_apply_out)
  then show ?thesis by (simp add: agree_def)
qed

lemma ents_slot: "ents c ps n = map (slot c ps) [0..<n]"
  by (simp add: ents_def slot_def)

lemma dir_list_slot:
  "dir_list c ino = map (\<lambda>j. (cstr (de_name (slot c (i_direct ino) j)), de_inum (slot c (i_direct ino) j)))
     [0..<dir_size ino]"
  by (simp add: dir_list_def ents_slot)

lemma length_dir_list [simp]: "length (dir_list c ino) = dir_size ino"
  by (simp add: dir_list_slot)

lemma slot_agree:
  "agree c c' (unat (ps ! (j div 128))) \<Longrightarrow> slot c' ps j = slot c ps j"
  by (simp add: slot_def agree_ent_at)

lemma file_byte_agree:
  "agree c c' (unat (ps ! (x div UFS_BLOCK_SIZE))) \<Longrightarrow> file_byte c' ps x = file_byte c ps x"
  by (simp add: file_byte_def agree_def)

lemma data_ptr_unat:
  assumes "layout_ok s L" and "k < nat (num_data s)"
  shows "unat (of_nat (DR s + k) :: u32) = DR s + k"
proof -
  have "(DR s + nat (num_data s)) * 4096 < 2 ^ 31"
    using layout_positions(11) [OF assms(1), of 0 0] by simp
  then have "(DR s + k) * 4096 < 2 ^ 31"
    using assms(2) by (meson add_less_cancel_left less_imp_le mult_le_mono1 order_le_less_trans)
  then have "DR s + k < 2 ^ 32"
    by simp
  then show ?thesis
    by (subst unat_of_nat) simp
qed

lemma data_ptr_ok:
  assumes "layout_ok s L" and "data_ptr s db p"
  shows "blk_ok L p" "p \<noteq> - 1" "DR s \<le> unat p"
proof -
  obtain k where k: "k < nat (num_data s)" "p = of_nat (DR s + k)"
    using assms(2) unfolding data_ptr_def by blast
  have u: "unat p = DR s + k"
    using data_ptr_unat [OF assms(1) k(1)] k(2) by simp
  have *: "(DR s + nat (num_data s)) * 4096 \<le> L" "(DR s + nat (num_data s)) * 4096 < 2 ^ 31"
    using layout_positions(6,11) [OF assms(1), of 0 0] by simp_all
  have "unat p + 1 \<le> DR s + nat (num_data s)"
    using u k(1) by simp
  then have "(unat p + 1) * 4096 \<le> (DR s + nat (num_data s)) * 4096"
    by (rule mult_le_mono1)
  with * show "blk_ok L p" unfolding blk_ok_def by linarith
  then show "p \<noteq> - 1" by (rule blk_ok_neq)
  show "DR s \<le> unat p" using u by simp
qed

section \<open>Frame\<close>

text \<open>A node depends on the blocks it points to, and on the inode bitmap only upwards.\<close>

definition agree_ptrs :: "(nat \<Rightarrow> byte) \<Rightarrow> (nat \<Rightarrow> byte) \<Rightarrow> inode_t \<Rightarrow> bool" where
  "agree_ptrs c c' ino \<longleftrightarrow>
     (\<forall>k < DIRECT_PTRS. i_direct ino ! k \<noteq> - 1 \<longrightarrow> agree c c' (unat (i_direct ino ! k)))"

lemma dir_frame:
  assumes "dir_wf c n ib ino" and "agree_ptrs c c' ino"
    and "\<And>j. j < n \<Longrightarrow> bm_bit ib j \<Longrightarrow> bm_bit ib' j"
  shows "dir_wf c' n ib' ino" and "dir_list c' ino = dir_list c ino"
proof -
  have sl: "slot c' (i_direct ino) j = slot c (i_direct ino) j"
    if "128 * (j div 128) < dir_size ino" for j
  proof -
    have "j div 128 < 30"
      using that assms(1) by (auto simp: dir_wf_def)
    then have "agree c c' (unat (i_direct ino ! (j div 128)))"
      using that assms(1,2) by (auto simp: dir_wf_def agree_ptrs_def)
    then show ?thesis by (rule slot_agree)
  qed
  have lt: "j < dir_size ino \<Longrightarrow> 128 * (j div 128) < dir_size ino" for j
    using order_le_less_trans times_div_less_eq_dividend by blast
  show dl: "dir_list c' ino = dir_list c ino"
    using lt by (simp add: dir_list_slot sl)
  show "dir_wf c' n ib' ino"
    using assms(1,3) sl lt unfolding dir_wf_def dl by (auto simp: entry_wf_def)
qed

lemma file_frame:
  assumes "file_wf ino" and "agree_ptrs c c' ino"
  shows "file_bytes c' ino = file_bytes c ino"
proof -
  have "file_byte c' (i_direct ino) x = file_byte c (i_direct ino) x" if "x < nat (i_size ino)" for x
  proof -
    have "x div 4096 < 30" "x div 4096 * 4096 < nat (i_size ino)"
      using that assms(1) by (auto simp: file_wf_def)
    then show ?thesis
      using assms by (intro file_byte_agree) (auto simp: file_wf_def agree_ptrs_def)
  qed
  then show ?thesis by (simp add: file_bytes_def)
qed

lemma node_frame:
  assumes "node_wf c n ib ino" and "agree_ptrs c c' ino"
    and "\<And>j. j < n \<Longrightarrow> bm_bit ib j \<Longrightarrow> bm_bit ib' j"
  shows "node_wf c' n ib' ino" and "node_of c' ino = node_of c ino"
  using assms dir_frame [of c n ib ino c' ib'] file_frame [of ino c c']
  by (auto simp: node_wf_def node_of_def)


section \<open>Storing a node\<close>

text \<open>
  One step covers every way the operations change an inode: \<open>new\<close> replaces inode \<open>i\<close>, allocated
  before or not, its pointers are old ones or blocks that were free, and the blocks of all other
  nodes are left alone.
\<close>

definition fresh_ptr :: "super_t \<Rightarrow> bitmap_t \<Rightarrow> u32 \<Rightarrow> bool" where
  "fresh_ptr s db p \<longleftrightarrow> (\<exists>k < nat (num_data s). p = of_nat (DR s + k) \<and> \<not> bm_bit db k)"

lemma fresh_not_data:
  assumes "layout_ok s L" and "fresh_ptr s db p" and "data_ptr s db q"
  shows "unat p \<noteq> unat q"
  using assms data_ptr_unat [OF assms(1)] by (auto simp: fresh_ptr_def data_ptr_def)

lemma data_ptr_mono:
  "data_ptr s db p \<Longrightarrow> (\<And>k. k < nat (num_data s) \<Longrightarrow> bm_bit db k \<Longrightarrow> bm_bit db' k) \<Longrightarrow> data_ptr s db' p"
  by (auto simp: data_ptr_def)

lemma fs_wfD:
  assumes "fs_wf c L nfs" and "alloc nfs i"
  shows "node_wf c (nat (num_inodes (fs_s nfs))) (inode_bp nfs) (inodes nfs ! i)"
    and "k < DIRECT_PTRS \<Longrightarrow> i_direct (inodes nfs ! i) ! k \<noteq> - 1 \<Longrightarrow>
      data_ptr (fs_s nfs) (data_bp nfs) (i_direct (inodes nfs ! i) ! k)"
    and "alloc nfs j \<Longrightarrow> k < DIRECT_PTRS \<Longrightarrow> l < DIRECT_PTRS \<Longrightarrow> i_direct (inodes nfs ! i) ! k \<noteq> - 1 \<Longrightarrow>
      i_direct (inodes nfs ! i) ! k = i_direct (inodes nfs ! j) ! l \<Longrightarrow> i = j \<and> k = l"
    and "inode_typed (inodes nfs ! i)" and "i < length (inodes nfs)" and "i < 32"
proof -
  have i: "i < nat (num_inodes (fs_s nfs))"
    using assms(2) by (simp add: alloc_def)
  show "node_wf c (nat (num_inodes (fs_s nfs))) (inode_bp nfs) (inodes nfs ! i)"
    and "k < DIRECT_PTRS \<Longrightarrow> i_direct (inodes nfs ! i) ! k \<noteq> - 1 \<Longrightarrow>
      data_ptr (fs_s nfs) (data_bp nfs) (i_direct (inodes nfs ! i) ! k)"
    using assms i unfolding fs_wf_def ptrs_wf_def by blast+
  show "alloc nfs j \<Longrightarrow> k < DIRECT_PTRS \<Longrightarrow> l < DIRECT_PTRS \<Longrightarrow> i_direct (inodes nfs ! i) ! k \<noteq> - 1 \<Longrightarrow>
      i_direct (inodes nfs ! i) ! k = i_direct (inodes nfs ! j) ! l \<Longrightarrow> i = j \<and> k = l"
    using assms i unfolding fs_wf_def ptrs_wf_def by (metis alloc_def)
  show "i < length (inodes nfs)" and "inode_typed (inodes nfs ! i)"
    using assms(1) i by (simp_all add: fs_wf_def tables_ok_def)
  show "i < 32"
    using i layout_counts(1) [of "fs_s nfs" L] assms(1) by (simp add: fs_wf_def)
qed

text \<open>
  A node put at \<open>i\<close>: its pointers are those it had or fresh, so no block belongs to two inodes.
\<close>

lemma put_ptrs:
  assumes wf: "fs_wf c L nfs" and s: "fs_s nfs' = fs_s nfs"
    and al: "\<And>j. alloc nfs' j \<longleftrightarrow> j = i \<or> alloc nfs j"
    and ino: "\<And>j. alloc nfs' j \<Longrightarrow> inodes nfs' ! j = (if j = i then new else inodes nfs ! j)"
    and db: "\<And>k. k < 32 \<Longrightarrow> bm_bit (data_bp nfs) k \<Longrightarrow> bm_bit (data_bp nfs') k"
    and ptr: "\<And>k. k < DIRECT_PTRS \<Longrightarrow> i_direct new ! k \<noteq> - 1 \<Longrightarrow>
        alloc nfs i \<and> i_direct new ! k = i_direct (inodes nfs ! i) ! k \<or>
        fresh_ptr (fs_s nfs) (data_bp nfs) (i_direct new ! k) \<and>
          data_ptr (fs_s nfs) (data_bp nfs') (i_direct new ! k)"
    and dist: "\<And>k l. k < DIRECT_PTRS \<Longrightarrow> l < DIRECT_PTRS \<Longrightarrow> i_direct new ! k \<noteq> - 1 \<Longrightarrow>
        i_direct new ! k = i_direct new ! l \<Longrightarrow> k = l"
  shows "ptrs_wf nfs'"
proof -
  let ?s = "fs_s nfs"
  have lay: "layout_ok ?s L" using wf by (simp add: fs_wf_def)
  have old: "data_ptr ?s (data_bp nfs') p" if "data_ptr ?s (data_bp nfs) p" for p
    using data_ptr_mono [OF that] db layout_counts(2) [OF lay] by simp
  have dp: "data_ptr ?s (data_bp nfs') (i_direct (inodes nfs' ! j) ! k)"
    if "alloc nfs' j" "k < 30" "i_direct (inodes nfs' ! j) ! k \<noteq> - 1" for j k
    using that ptr [of k] fs_wfD(2) [OF wf, of j k] old by (cases "j = i") (auto simp: ino al)
  have ne: "i_direct new ! k \<noteq> i_direct (inodes nfs ! j) ! l"
    if "alloc nfs j" "j \<noteq> i" "k < 30" "l < 30" "i_direct new ! k \<noteq> - 1" for j k l
  proof
    assume eq: "i_direct new ! k = i_direct (inodes nfs ! j) ! l"
    have d: "data_ptr ?s (data_bp nfs) (i_direct (inodes nfs ! j) ! l)"
      using fs_wfD(2) [OF wf that(1,4)] that(5) eq by simp
    then have "\<not> fresh_ptr ?s (data_bp nfs) (i_direct new ! k)"
      using fresh_not_data [OF lay _ d, of "i_direct new ! k"] unfolding eq by blast
    then have "alloc nfs i" "i_direct (inodes nfs ! i) ! k \<noteq> - 1" "i_direct (inodes nfs ! i) ! k = i_direct (inodes nfs ! j) ! l"
      using ptr [OF that(3,5)] that(5) eq by auto
    then show False
      using fs_wfD(3) [OF wf _ that(1,3,4)] that(2) by blast
  qed
  have "j = j' \<and> k = l" if a: "alloc nfs' j" "alloc nfs' j'" "k < 30" "l < 30"
    "i_direct (inodes nfs' ! j) ! k \<noteq> - 1" "i_direct (inodes nfs' ! j) ! k = i_direct (inodes nfs' ! j') ! l" for j j' k l
  proof -
    consider "j = i" "j' = i" | "j = i" "j' \<noteq> i" | "j \<noteq> i" "j' = i" | "j \<noteq> i" "j' \<noteq> i" by blast
    then show ?thesis
    proof cases
      case 1 with a dist [of k l] show ?thesis by (simp add: ino)
    next
      case 2 with a ne [of j' k l] show ?thesis by (simp add: ino al)
    next
      case 3 with a ne [of j l k] show ?thesis by (simp add: ino al)
    next
      case 4 with a fs_wfD(3) [OF wf, of j j' k l] show ?thesis by (simp add: ino al)
    qed
  qed
  then show ?thesis
    using dp unfolding ptrs_wf_def s by blast
qed

lemma put_node:
  assumes wf: "fs_wf c L nfs" and i: "i < nat (num_inodes (fs_s nfs))"
    and s: "fs_s nfs' = fs_s nfs" and tab: "tables_ok nfs'" and ino_upd: "inodes nfs' = (inodes nfs)[i := new]"
    and ib: "\<And>j. j < 32 \<Longrightarrow> bm_bit (inode_bp nfs') j \<longleftrightarrow> j = i \<or> bm_bit (inode_bp nfs) j"
    and db: "\<And>k. k < 32 \<Longrightarrow> bm_bit (data_bp nfs) k \<Longrightarrow> bm_bit (data_bp nfs') k"
    and ptr: "\<And>k. k < DIRECT_PTRS \<Longrightarrow> i_direct new ! k \<noteq> - 1 \<Longrightarrow>
        alloc nfs i \<and> i_direct new ! k = i_direct (inodes nfs ! i) ! k \<or>
        fresh_ptr (fs_s nfs) (data_bp nfs) (i_direct new ! k) \<and>
          data_ptr (fs_s nfs) (data_bp nfs') (i_direct new ! k)"
    and dist: "\<And>k l. k < DIRECT_PTRS \<Longrightarrow> l < DIRECT_PTRS \<Longrightarrow> i_direct new ! k \<noteq> - 1 \<Longrightarrow>
        i_direct new ! k = i_direct new ! l \<Longrightarrow> k = l"
    and frame: "\<And>j. alloc nfs j \<Longrightarrow> j \<noteq> i \<Longrightarrow> agree_ptrs c c' (inodes nfs ! j)"
    and new: "node_wf c' (nat (num_inodes (fs_s nfs))) (inode_bp nfs') new"
  shows "fs_wf c' L nfs'" and "fs_abs c' nfs' = (fs_abs c nfs)(i \<mapsto> node_of c' new)"
proof -
  let ?s = "fs_s nfs" and ?n = "nat (num_inodes (fs_s nfs))"
  have lay: "layout_ok ?s L" and tab0: "tables_ok nfs"
    using wf by (simp_all add: fs_wf_def)
  have n32: "?n \<le> 32" "nat (num_data ?s) \<le> 32"
    using layout_counts [OF lay] by simp_all
  have al: "alloc nfs' j \<longleftrightarrow> j = i \<or> alloc nfs j" for j
    using ib [of j] n32 i by (auto simp: alloc_def s)
  have ino: "inodes nfs' ! j = (if j = i then new else inodes nfs ! j)" if "alloc nfs' j" for j
    using that i tab0 by (simp add: ino_upd tables_ok_def)
  have "ptrs_wf nfs'"
    by (rule put_ptrs [OF wf s al ino db ptr dist])
  moreover have nd: "node_wf c' ?n (inode_bp nfs') (inodes nfs ! j)"
      "node_of c' (inodes nfs ! j) = node_of c (inodes nfs ! j)" if "alloc nfs j" "j \<noteq> i" for j
    using node_frame [OF fs_wfD(1) [OF wf that(1)] frame [OF that]] ib n32 by auto
  ultimately show "fs_wf c' L nfs'"
    using lay tab new al ino unfolding fs_wf_def s by auto
  show "fs_abs c' nfs' = (fs_abs c nfs)(i \<mapsto> node_of c' new)"
    using al ino nd by (auto simp: fs_abs_def fun_eq_iff)
qed

end
