(* ===== verification/UfsEntry.thy ===== *)
theory UfsEntry
  imports UfsAbs
begin

text \<open>
  The parts of \<open>ufs_creat\<close>: what it means for a directory to grow by one entry, the searches for
  free slots and blocks, and the writes of a directory block and of a single entry. They hold on
  every disk that keeps the contract \<open>disk_store\<close> and on every platform with a correct \<open>strcpy\<close>
  (locale \<open>ufs_rw\<close>).
\<close>

section \<open>A directory entry\<close>

text \<open>
  Slot \<open>n\<close> of a directory of \<open>n\<close> entries gets an entry, in block \<open>q\<close>: the slots before it keep theirs and
  the slots behind it in its block are free.
\<close>

lemma append_slots:
  assumes wf: "dir_wf c N ib ino" and len: "length (i_direct ino) = DIRECT_PTRS" and n: "n = dir_size ino" "n < 128 * DIRECT_PTRS"
    and q: "n mod 128 \<noteq> 0 \<Longrightarrow> i_direct ino ! (n div 128) = q"
    and oth: "\<And>k. k < DIRECT_PTRS \<Longrightarrow> k \<noteq> n div 128 \<Longrightarrow> i_direct ino ! k \<noteq> - 1 \<Longrightarrow> agree c c' (unat (i_direct ino ! k))"
    and before: "\<And>j. j < n mod 128 \<Longrightarrow> ent_at c' (unat q) j = ent_at c (unat q) j" and j: "j < n"
  shows "slot c' ((i_direct ino)[n div 128 := q]) j = slot c (i_direct ino) j"
proof (cases "j div 128 = n div 128")
  case True
  then have m: "j mod 128 < n mod 128"
    using j by (metis div_mult_mod_eq nat_add_left_cancel_less)
  then have "i_direct ino ! (n div 128) = q" using q by auto
  then show ?thesis
    using True m before len n(2) by (simp add: slot_def)
next
  case False
  have "128 * (j div 128) < n"
    using j order_le_less_trans times_div_less_eq_dividend by blast
  moreover have j30: "j div 128 < 30" using j n(2) by auto
  ultimately have "i_direct ino ! (j div 128) \<noteq> - 1"
    using wf n(1) by (auto simp: dir_wf_def)
  then have "agree c c' (unat (i_direct ino ! (j div 128)))"
    using oth False j30 by simp
  then show ?thesis
    using False by (simp add: slot_def agree_ent_at)
qed

lemma append_free:
  assumes after: "\<And>j. n mod 128 < j \<Longrightarrow> j < 128 \<Longrightarrow> de_inum (ent_at c' (unat q) j) = - 1"
    and k: "n div 128 < length ps" and j: "Suc n \<le> j" "128 * (j div 128) < Suc n"
  shows "de_inum (slot c' (ps[n div 128 := q]) j) = - 1"
proof -
  have jd: "j div 128 = n div 128"
  proof (rule antisym)
    show "j div 128 \<le> n div 128"
      using j(2) by (simp add: less_eq_div_iff_mult_less_eq mult.commute)
    show "n div 128 \<le> j div 128" using j(1) by (intro div_le_mono) simp
  qed
  have "n mod 128 < j mod 128"
    using j(1) jd by (metis Suc_le_lessD div_mult_mod_eq nat_add_left_cancel_less)
  then show ?thesis
    using jd after k by (simp add: slot_def)
qed

lemma append_dir_ptrs:
  assumes "dir_wf c N ib ino" and "length (i_direct ino) = DIRECT_PTRS" and "n = dir_size ino" and "q \<noteq> - 1" and "k < DIRECT_PTRS"
  shows "(i_direct ino)[n div 128 := q] ! k \<noteq> - 1 \<longleftrightarrow> 128 * k < Suc n"
proof (cases "k = n div 128")
  case True
  then show ?thesis using assms(2,4,5) by (simp add: less_Suc_eq_le)
next
  case False
  then have "128 * k < Suc n \<longleftrightarrow> 128 * k < n"
    by (auto simp: less_Suc_eq)
  then show ?thesis using False assms(1,3,5) by (simp add: dir_wf_def)
qed

lemma dir_append:
  assumes wf: "dir_wf c N ib ino" and typed: "inode_typed ino" and n: "n = dir_size ino" "n < 128 * DIRECT_PTRS"
    and e: "entry_wf N ib e" "cstr (de_name e) \<notin> fst ` set (dir_list c ino)"
    and q: "n mod 128 \<noteq> 0 \<Longrightarrow> i_direct ino ! (n div 128) = q" "q \<noteq> - 1"
    and oth: "\<And>k. k < DIRECT_PTRS \<Longrightarrow> k \<noteq> n div 128 \<Longrightarrow> i_direct ino ! k \<noteq> - 1 \<Longrightarrow> agree c c' (unat (i_direct ino ! k))"
    and here: "ent_at c' (unat q) (n mod 128) = e"
    and before: "\<And>j. j < n mod 128 \<Longrightarrow> ent_at c' (unat q) j = ent_at c (unat q) j"
    and after: "\<And>j. n mod 128 < j \<Longrightarrow> j < 128 \<Longrightarrow> de_inum (ent_at c' (unat q) j) = - 1"
    and new: "new = ino\<lparr>i_size := int (32 * Suc n), i_direct := (i_direct ino)[n div 128 := q]\<rparr>"
  shows "dir_wf c' N ib new" and "dir_list c' new = dir_list c ino @ [(cstr (de_name e), de_inum e)]"
proof -
  have len: "length (i_direct ino) = 30"
    using typed by (simp add: inode_typed_def)
  have k: "n div 128 < length (i_direct ino)"
    using n(2) len by auto
  have sz: "dir_size new = Suc n" and dir: "i_direct new = (i_direct ino)[n div 128 := q]"
    by (simp_all add: new dir_size_def)
  note old = append_slots [OF wf len n q(1) oth before, folded dir]
  have at: "slot c' (i_direct new) n = e"
    using here k by (simp add: slot_def dir)
  show dl: "dir_list c' new = dir_list c ino @ [(cstr (de_name e), de_inum e)]"
    by (simp add: dir_list_slot sz at old n(1) [symmetric])
  have "entry_wf N ib (slot c' (i_direct new) j)" if "j < Suc n" for j
    using that wf old at e(1) n(1) by (auto simp: dir_wf_def less_Suc_eq)
  moreover have "distinct (map fst (dir_list c' new))"
    using wf e(2) by (auto simp: dl dir_wf_def)
  ultimately show "dir_wf c' N ib new"
    using n(2) append_free [OF after k, folded dir] append_dir_ptrs [OF wf len n(1) q(2), folded dir]
    by (simp add: dir_wf_def sz) (simp add: new)
qed

section \<open>The tables under the bitmap operations\<close>

lemma tables_cap [simp]:
  assumes "tables_ok nfs"
  shows "bm_cap (inode_bp nfs) = 32" "bm_cap (data_bp nfs) = 32"
    "bm_cap (dirty_inode_bp nfs) = 32" "bm_cap (dirty_data_bp nfs) = 32"
  using assms by (simp_all add: tables_ok_def bm_cap_length)

lemma take_inode_eq:
  "tables_ok nfs \<Longrightarrow> i < 32 \<Longrightarrow> take_inode (int i) nfs =
     Ok (nfs\<lparr>inode_bp := bm_set (inode_bp nfs) i, dirty_inode_bp := bm_set (dirty_inode_bp nfs) i\<rparr>)"
  by (simp add: take_inode_def set_bitmap_eq)

lemma take_data_eq:
  "tables_ok nfs \<Longrightarrow> i < 32 \<Longrightarrow> take_data (int i) nfs =
     Ok (nfs\<lparr>data_bp := bm_set (data_bp nfs) i, dirty_data_bp := bm_set (dirty_data_bp nfs) i\<rparr>)"
  by (simp add: take_data_def set_bitmap_eq)

lemma touch_inode_eq:
  "tables_ok nfs \<Longrightarrow> i < 32 \<Longrightarrow> touch_inode (int i) nfs =
     Ok (nfs\<lparr>dirty_inode_bp := bm_set (dirty_inode_bp nfs) i\<rparr>)"
  by (simp add: touch_inode_def set_bitmap_eq)

lemma upd_inode_eq:
  "i < length (inodes nfs) \<Longrightarrow> upd_inode (int i) f nfs =
     Ok (nfs\<lparr>inodes := (inodes nfs)[i := f (inodes nfs ! i)]\<rparr>)"
  by (simp add: upd_inode_def)

lemma find_clear_inodes:
  "n \<le> 32 \<Longrightarrow> length b = 1 \<Longrightarrow>
   find_clear get_bitmap b 0 n = Ok (first_of (filter (\<lambda>j. \<not> bm_bit b j) [0..<n]))"
  using bm.find_clear_eq [of 0 n b] by (simp add: bm_cap_length)

lemma find_clear2_data:
  "n \<le> 32 \<Longrightarrow> length b = 1 \<Longrightarrow> find_clear2 get_bitmap b 0 n (- 1) (- 1) =
   (let l = filter (\<lambda>j. \<not> bm_bit b j) [0..<n] in Ok (first_of l, first_of (tl l)))"
  using bm.find_clear2_eq [of 0 n b] by (simp add: bm_cap_length)

section \<open>The parent's blocks\<close>

lemma empty_idx_none: "\<forall>e \<in> set es. de_inum e \<noteq> - 1 \<Longrightarrow> empty_idx j es = - 1"
  by (induction es arbitrary: j) auto

lemma empty_idx_first:
  "k < length es \<Longrightarrow> de_inum (es ! k) = - 1 \<Longrightarrow> \<forall>i < k. de_inum (es ! i) \<noteq> - 1 \<Longrightarrow>
   empty_idx j es = int (j + k)"
proof (induction es arbitrary: j k)
  case (Cons e es)
  show ?case
  proof (cases k)
    case 0
    with Cons.prems show ?thesis by simp
  next
    case (Suc k')
    have "\<forall>i < k'. de_inum (es ! i) \<noteq> - 1"
      using Cons.prems(3) Suc by (metis Suc_mono nth_Cons_Suc)
    moreover have "de_inum e \<noteq> - 1"
      using Cons.prems(3) Suc by (metis nth_Cons_0 zero_less_Suc)
    ultimately show ?thesis
      using Cons.IH [of k' "Suc j"] Cons.prems Suc by simp
  qed
qed simp

lemma set_first_free_eq:
  "k < length ps \<Longrightarrow> ps ! k = - 1 \<Longrightarrow> \<forall>i < k. ps ! i \<noteq> - 1 \<Longrightarrow> set_first_free ps a = ps[k := a]"
proof (induction ps arbitrary: k)
  case (Cons p ps)
  show ?case
  proof (cases k)
    case 0
    with Cons.prems show ?thesis by simp
  next
    case (Suc k')
    have "\<forall>i < k'. ps ! i \<noteq> - 1" "p \<noteq> - 1"
      using Cons.prems(3) Suc by (metis Suc_mono nth_Cons_Suc, metis nth_Cons_0 zero_less_Suc)
    then show ?thesis using Cons.IH [of k'] Cons.prems Suc by simp
  qed
qed simp


lemma list_ex_block:
  "list_ex P (dec_dir_block (rd c (b * UFS_BLOCK_SIZE) UFS_BLOCK_SIZE)) \<longleftrightarrow> (\<exists>j < 128. P (ent_at c b j))"
  by (auto simp: dec_dir_block_rd list_ex_iff)

context disk_reader
begin

lemma Read_block:
  assumes "dok d" and "blk_ok (lim d) p"
  obtains d' where
    "Read drv (blk_addr p 0) UFS_BLOCK_SIZE d = Ok (Some (rd (bytes d) (unat p * UFS_BLOCK_SIZE) UFS_BLOCK_SIZE), d')"
    "same d d'"
proof -
  have "blk_addr p 0 = int (unat p * 4096)"
    using blk_ok_addr(2) [OF assms(2), of 0] by simp
  moreover have "unat p * 4096 + 4096 \<le> lim d"
    using assms(2) by (simp add: blk_ok_def)
  ultimately show thesis
    using that Read_ok [OF assms(1)] by metis
qed

lemma pinode_full_ok:
  assumes "dok d" and "\<forall>p \<in> set ps. p \<noteq> - 1 \<longrightarrow> blk_ok (lim d) p"
  shows "\<exists>d'. pinode_full drv ps d = Ok (\<forall>p \<in> set ps. p \<noteq> - 1 \<longrightarrow>
      (\<forall>j < 128. de_inum (ent_at (bytes d) (unat p) j) \<noteq> - 1), d') \<and> same d d'"
  using assms
proof (induction ps arbitrary: d)
  case Nil
  then show ?case by (simp add: same_refl)
next
  case (Cons p ps)
  show ?case
  proof (cases "p = - 1")
    case True
    then show ?thesis using Cons.IH [of d] Cons.prems by simp
  next
    case False
    then obtain d1 where r: "Read drv (blk_addr p 0) 4096 d = Ok (Some (rd (bytes d) (unat p * 4096) 4096), d1)"
      "same d d1"
      using Read_block Cons.prems by (metis list.set_intros(1))
    have d1: "dok d1" "bytes d1 = bytes d" "lim d1 = lim d"
      using r(2) by (simp_all add: same_def)
    obtain d2 where ih: "pinode_full drv ps d1 = Ok (\<forall>p \<in> set ps. p \<noteq> - 1 \<longrightarrow>
      (\<forall>j < 128. de_inum (ent_at (bytes d) (unat p) j) \<noteq> - 1), d2)" "same d1 d2"
      using Cons.IH [of d1] Cons.prems d1 by auto
    show ?thesis
    proof (cases "\<exists>j < 128. de_inum (ent_at (bytes d) (unat p) j) = - 1")
      case True
      then show ?thesis using False r by (auto simp: list_ex_block)
    next
      case nex: False
      have "pinode_full drv (p # ps) d = pinode_full drv ps d1"
        using False r nex by (auto simp: list_ex_block)
      then show ?thesis
        using ih same_trans [OF r(2) ih(2)] nex False by auto
    qed
  qed
qed

end

section \<open>Platforms with a correct strcpy\<close>

locale c_platform =
  fixes pf :: platform
  assumes strcpy_law: "terminated src \<Longrightarrow> length (cstr src) < length dest \<Longrightarrow>
      \<exists>nm. pf_strcpy pf dest src = Ok nm \<and> length nm = length dest \<and> terminated nm \<and> cstr nm = cstr src"
    and size_law: "32 \<le> size_bits pf"
begin

lemma put_name_ok:
  assumes "terminated name" and "length (cstr name) \<le> 27" and "is_int32 k"
  obtains e where "put_name pf (junk_name junk m) name k = Ok e" "dir_ent_typed e"
    "de_inum e = k" "terminated (de_name e)" "cstr (de_name e) = cstr name"
proof -
  obtain nm where "pf_strcpy pf (junk_name junk m) name = Ok nm" "length nm = 28" "terminated nm"
    "cstr nm = cstr name"
    using strcpy_law [of name "junk_name junk m"] assms by (auto simp: junk_name_def)
  then show thesis
    using assms(3) by (intro that) (auto simp: put_name_def dir_ent_typed_def)
qed

end

interpretation host_c: c_platform host_platform
proof unfold_locales
  fix src dest :: "byte list"
  assume "terminated src" "length (cstr src) < length dest"
  then show "\<exists>nm. pf_strcpy host_platform dest src = Ok nm \<and> length nm = length dest \<and>
      terminated nm \<and> cstr nm = cstr src"
    by (auto simp: host_platform_def elim: std_strcpy_ok)
qed (simp add: host_platform_def)

lemma free_ents_typed: "\<forall>e \<in> set (free_ents junk i n). dir_ent_typed e \<and> de_inum e = - 1"
  by (auto simp: free_ents_def dir_ent_typed_def junk_name_def is_int32_def)

lemma length_free_ents [simp]: "length (free_ents junk i n) = n - i"
  by (simp add: free_ents_def)

text \<open>A block of entries that is written where it is read.\<close>

lemma ent_at_wr_block:
  assumes "\<forall>e \<in> set es. dir_ent_typed e" and "j < length es" and "length es \<le> 128"
  shows "ent_at (wr c (b * UFS_BLOCK_SIZE) (enc_dir_block es)) b j = es ! j"
proof -
  have len: "length (enc_dir_block es) = 32 * length es"
    using assms(1) by simp
  have "rd (wr c (b * 4096) (enc_dir_block es)) (b * 4096 + 32 * j) 32 = enc_dir_ent (es ! j)"
    using dir_block_ent [OF assms(1,2)] assms(2) len by (subst rd_wr_inside) auto
  then show ?thesis
    using assms by (simp add: ent_at_def)
qed

lemma ent_at_wr_ent:
  assumes "dir_ent_typed e" and "j < 128" and "k < 128"
  shows "ent_at (wr c (b * UFS_BLOCK_SIZE + 32 * j) (enc_dir_ent e)) b k = (if k = j then e else ent_at c b k)"
proof (cases "k = j")
  case False
  then have "32 * k + 32 \<le> 32 * j \<or> 32 * j + 32 \<le> 32 * k" by linarith
  then show ?thesis
    using False assms(1) by (auto simp: ent_at_def rd_wr_disjoint)
qed (use assms in \<open>simp add: ent_at_def\<close>)

section \<open>Creating an entry\<close>

locale ufs_rw = disk_store drv dok bytes lim pos + c_platform pf
  for drv :: "'d disk_driver" and dok bytes lim pos and pf :: platform
begin

lemma creat_insert_ok:
  assumes "dok d" and "\<forall>p \<in> set pre. blk_ok (lim d) p \<and> (\<forall>j < 128. de_inum (ent_at (bytes d) (unat p) j) \<noteq> - 1)"
    and "blk_ok (lim d) q" and "m < 128" and "de_inum (ent_at (bytes d) (unat q) m) = - 1"
    and "\<forall>j < m. de_inum (ent_at (bytes d) (unat q) j) \<noteq> - 1"
    and "terminated name" and "length (cstr name) \<le> 27" and "is_int32 ei"
  shows "\<exists>d' e. creat_insert pf drv junk name ei (pre @ q # post) d = Ok d' \<and>
      stored d (unat q * UFS_BLOCK_SIZE + 32 * m) (enc_dir_ent e) d' \<and> dir_ent_typed e \<and>
      de_inum e = ei \<and> terminated (de_name e) \<and> cstr (de_name e) = cstr name"
  using assms
proof (induction pre arbitrary: d)
  case Nil
  obtain d1 where r: "Read drv (blk_addr q 0) 4096 d = Ok (Some (rd (bytes d) (unat q * 4096) 4096), d1)" "same d d1"
    using Read_block Nil.prems(1,3) by metis
  have d1: "dok d1" "bytes d1 = bytes d" "lim d1 = lim d"
    using r(2) by (simp_all add: same_def)
  have idx: "empty_idx 0 (dec_dir_block (rd (bytes d) (unat q * 4096) 4096)) = int m"
    using empty_idx_first [of m "map (ent_at (bytes d) (unat q)) [0..<128]" 0] Nil.prems(4-6)
    by (simp add: dec_dir_block_rd)
  obtain e where e: "put_name pf (junk_name junk 256) name ei = Ok e" "dir_ent_typed e" "de_inum e = ei"
    "terminated (de_name e)" "cstr (de_name e) = cstr name"
    using put_name_ok Nil.prems(7-9) by metis
  have ad: "blk_addr q (int m * 32) = int (unat q * 4096 + 32 * m)"
    using blk_ok_addr(2) [OF Nil.prems(3), of "32 * m"] Nil.prems(4) by (simp add: mult.commute)
  have "unat q * 4096 + 32 * m + length (enc_dir_ent e) \<le> lim d1"
    using Nil.prems(3,4) d1(3) e(2) by (simp add: blk_ok_def)
  then obtain d2 where w: "Write drv (int (unat q * 4096 + 32 * m)) (enc_dir_ent e) d1 = Ok (0, d2)"
    "stored d1 (unat q * 4096 + 32 * m) (enc_dir_ent e) d2"
    using Write_ok d1(1) by blast
  have "stored d (unat q * 4096 + 32 * m) (enc_dir_ent e) d2"
    using w(2) d1 by (simp add: stored_def)
  then show ?case
    using r idx e ad w by (auto simp: Let_def)
next
  case (Cons p pre)
  have p: "blk_ok (lim d) p" "\<forall>j < 128. de_inum (ent_at (bytes d) (unat p) j) \<noteq> - 1"
    using Cons.prems(2) by simp_all
  obtain d1 where r: "Read drv (blk_addr p 0) 4096 d = Ok (Some (rd (bytes d) (unat p * 4096) 4096), d1)" "same d d1"
    using Read_block Cons.prems(1) p(1) by metis
  have d1: "dok d1" "bytes d1 = bytes d" "lim d1 = lim d"
    using r(2) by (simp_all add: same_def)
  have idx: "empty_idx 0 (dec_dir_block (rd (bytes d) (unat p * 4096) 4096)) = - 1"
    using p(2) by (intro empty_idx_none) (auto simp: dec_dir_block_rd)
  obtain d2 e where ih: "creat_insert pf drv junk name ei (pre @ q # post) d1 = Ok d2"
    "stored d1 (unat q * 4096 + 32 * m) (enc_dir_ent e) d2" "dir_ent_typed e"
    "de_inum e = ei" "terminated (de_name e)" "cstr (de_name e) = cstr name"
    using Cons.IH [of d1] Cons.prems d1 by auto
  have "stored d (unat q * 4096 + 32 * m) (enc_dir_ent e) d2"
    using ih(2) d1 by (simp add: stored_def)
  then show ?case
    using r idx ih by (auto simp: Let_def)
qed


end

text \<open>The address of a data block.\<close>

lemma data_block_addr:
  assumes "layout_ok s L" and "ed < nat (num_data s)"
  shows "int32 (int ed + data_region_addr s) = Ok (int (DR s + ed))"
    and "int32 (int (DR s + ed) * 4096) = Ok (int ((DR s + ed) * UFS_BLOCK_SIZE))"
    and "blk_addr (of_nat (DR s + ed)) 0 = int ((DR s + ed) * UFS_BLOCK_SIZE)"
    and "(DR s + ed) * UFS_BLOCK_SIZE + UFS_BLOCK_SIZE \<le> L"
    and "ed < 32"
proof -
  have *: "(DR s + nat (num_data s)) * 4096 \<le> L" "(DR s + nat (num_data s)) * 4096 < 2 ^ 31"
    using layout_positions(6,11) [OF assms(1), of 0 0] by simp_all
  have "(DR s + ed + 1) * 4096 \<le> (DR s + nat (num_data s)) * 4096"
    using assms(2) by (intro mult_le_mono1) simp
  with * have b: "(DR s + ed + 1) * 4096 \<le> L" "(DR s + ed + 1) * 4096 < 2 ^ 31"
    by linarith+
  show "(DR s + ed) * 4096 + 4096 \<le> L" using b(1) by simp
  have "int ed + data_region_addr s = int (DR s + ed)"
    using layout_counts(5) [OF assms(1)] by simp
  then show "int32 (int ed + data_region_addr s) = Ok (int (DR s + ed))"
    using b(2) by (simp add: is_int32_def)
  show "int32 (int (DR s + ed) * 4096) = Ok (int ((DR s + ed) * 4096))"
    using b(2) by (simp add: is_int32_def)
  have u: "unat (of_nat (DR s + ed) :: u32) = DR s + ed"
    by (rule data_ptr_unat [OF assms])
  have "blk_ok L (of_nat (DR s + ed))"
    using b unfolding blk_ok_def u by simp
  then show "blk_addr (of_nat (DR s + ed)) 0 = int ((DR s + ed) * 4096)"
    using blk_ok_addr(2) [of L "of_nat (DR s + ed)" 0] unfolding u by simp
  show "ed < 32" using layout_counts(2) [OF assms(1)] assms(2) by simp
qed

context ufs_rw
begin

lemma creat_new_block_ok:
  assumes "dok (fs_disk nfs)" and "layout_ok (fs_s nfs) (lim (fs_disk nfs))" and "tables_ok nfs"
    and "ed < nat (num_data (fs_s nfs))" and "i < length (inodes nfs)"
    and "terminated name" and "length (cstr name) \<le> 27" and "is_int32 ei"
  shows "\<exists>d' e. creat_new_block pf drv junk (int i) name ei (int ed) nfs =
      Ok (nfs\<lparr>fs_disk := d', data_bp := bm_set (data_bp nfs) ed, dirty_data_bp := bm_set (dirty_data_bp nfs) ed,
           inodes := (inodes nfs)[i := (inodes nfs ! i)\<lparr>i_direct :=
             set_first_free (i_direct (inodes nfs ! i)) (of_nat (DR (fs_s nfs) + ed))\<rparr>]\<rparr>) \<and>
      stored (fs_disk nfs) ((DR (fs_s nfs) + ed) * UFS_BLOCK_SIZE) (enc_dir_block (e # free_ents junk 129 256)) d' \<and>
      dir_ent_typed e \<and> de_inum e = ei \<and> terminated (de_name e) \<and> cstr (de_name e) = cstr name"
proof -
  let ?a = "(DR (fs_s nfs) + ed) * 4096"
  note ad = data_block_addr [OF assms(2,4)]
  obtain e where e: "put_name pf (junk_name junk 128) name ei = Ok e" "dir_ent_typed e" "de_inum e = ei"
    "terminated (de_name e)" "cstr (de_name e) = cstr name"
    using put_name_ok assms(6-8) by metis
  let ?es = "e # free_ents junk 129 256"
  have "length (enc_dir_block ?es) = 4096"
    using e(2) free_ents_typed [of junk 129 256] by simp
  then obtain d' where w: "Write drv (int ?a) (enc_dir_block ?es) (fs_disk nfs) = Ok (0, d')"
    "stored (fs_disk nfs) ?a (enc_dir_block ?es) d'"
    using Write_ok [OF assms(1), of ?a "enc_dir_block ?es"] ad(4) by auto
  have t: "tables_ok (nfs\<lparr>fs_disk := d'\<rparr>)"
    using assms(3) by (simp add: tables_ok_def)
  have "(of_int (int (DR (fs_s nfs) + ed)) :: u32) = of_nat (DR (fs_s nfs) + ed)"
    by (rule of_int_of_nat_eq)
  then show ?thesis
    using e w ad(1,2) take_data_eq [OF t ad(5)] assms(5)
    by (intro exI [of _ d'] exI [of _ e])
      (simp add: creat_new_block_def upd_inode_eq del: of_nat_add of_nat_mult of_int_of_nat_eq)
qed

lemma creat_dir_block_ok:
  assumes "dok (fs_disk nfs)" and "layout_ok (fs_s nfs) (lim (fs_disk nfs))" and "tables_ok nfs"
    and "ed < nat (num_data (fs_s nfs))" and "ei < length (inodes nfs)"
    and "is_int32 (int ei)" and "is_int32 pinum"
  shows "\<exists>d' e0 e1. creat_dir_block pf drv junk pinum (int ei) (int ed) nfs =
      Ok (nfs\<lparr>fs_disk := d', data_bp := bm_set (data_bp nfs) ed, dirty_data_bp := bm_set (dirty_data_bp nfs) ed,
           inodes := (inodes nfs)[ei := (inodes nfs ! ei)\<lparr>i_size := 64, i_direct :=
             (i_direct (inodes nfs ! ei))[0 := of_nat (DR (fs_s nfs) + ed)]\<rparr>]\<rparr>) \<and>
      stored (fs_disk nfs) ((DR (fs_s nfs) + ed) * UFS_BLOCK_SIZE) (enc_dir_block (e0 # e1 # free_ents junk 2 128)) d' \<and>
      dir_ent_typed e0 \<and> de_inum e0 = int ei \<and> terminated (de_name e0) \<and> cstr (de_name e0) = [46] \<and>
      dir_ent_typed e1 \<and> de_inum e1 = pinum \<and> terminated (de_name e1) \<and> cstr (de_name e1) = [46, 46]"
proof -
  let ?a = "(DR (fs_s nfs) + ed) * 4096"
  note ad = data_block_addr [OF assms(2,4)]
  have dots: "terminated dot" "terminated dotdot" "cstr dot = [46]" "cstr dotdot = [46, 46]"
    by (simp_all add: dot_def dotdot_def)
  obtain e0 where e0: "put_name pf (junk_name junk 0) dot (int ei) = Ok e0" "dir_ent_typed e0"
    "de_inum e0 = int ei" "terminated (de_name e0)" "cstr (de_name e0) = [46]"
    using put_name_ok [of dot "int ei" junk 0] dots assms(6) by auto
  obtain e1 where e1: "put_name pf (junk_name junk 1) dotdot pinum = Ok e1" "dir_ent_typed e1"
    "de_inum e1 = pinum" "terminated (de_name e1)" "cstr (de_name e1) = [46, 46]"
    using put_name_ok [of dotdot pinum junk 1] dots assms(7) by auto
  let ?es = "e0 # e1 # free_ents junk 2 128"
  have "length (enc_dir_block ?es) = 4096"
    using e0(2) e1(2) free_ents_typed [of junk 2 128] by simp
  then obtain d' where w: "Write drv (int ?a) (enc_dir_block ?es) (fs_disk nfs) = Ok (0, d')"
    "stored (fs_disk nfs) ?a (enc_dir_block ?es) d'"
    using Write_ok [OF assms(1), of ?a "enc_dir_block ?es"] ad(4) by auto
  let ?is = "(inodes nfs)[ei := (inodes nfs ! ei)\<lparr>i_size := 64, i_direct :=
             (i_direct (inodes nfs ! ei))[0 := of_nat (DR (fs_s nfs) + ed)]\<rparr>]"
  have td: "take_data (int ed) (nfs\<lparr>inodes := ?is\<rparr>) = Ok (nfs\<lparr>inodes := ?is,
      data_bp := bm_set (data_bp nfs) ed, dirty_data_bp := bm_set (dirty_data_bp nfs) ed\<rparr>)"
    using assms(3) ad(5) by (simp add: take_data_def set_bitmap_eq)
  have "(of_int (int (DR (fs_s nfs) + ed)) :: u32) = of_nat (DR (fs_s nfs) + ed)"
    by (rule of_int_of_nat_eq)
  then show ?thesis
    using e0 e1 w ad(1,3) td assms(5)
    by (intro exI [of _ d'] exI [of _ e0] exI [of _ e1])
      (simp add: creat_dir_block_def upd_inode_eq del: of_nat_add of_nat_mult of_int_of_nat_eq)
qed

end

end
