(* ===== verification/UfsCommit.thy ===== *)
theory UfsCommit
  imports UfsEntry
begin

text \<open>
  The commit at the end of every writing operation, on a well-formed file system: it keeps the
  abstract state. And what the invariant says of the blocks of a directory: which of them are
  full, and where the first free slot is.
\<close>

section \<open>Commit on a well-formed file system\<close>

lemma fs_tables_cong:
  assumes "fs_wf c L nfs" and "tables_ok nfs'" and "fs_s nfs' = fs_s nfs" and "inode_bp nfs' = inode_bp nfs"
    and "data_bp nfs' = data_bp nfs" and "inodes nfs' = inodes nfs"
    and "\<And>x. DR (fs_s nfs) * UFS_BLOCK_SIZE \<le> x \<Longrightarrow> x < L \<Longrightarrow> c' x = c x"
  shows "fs_wf c' L nfs'" and "fs_abs c' nfs' = fs_abs c nfs"
proof -
  have lay: "layout_ok (fs_s nfs) L"
    using assms(1) by (simp add: fs_wf_def)
  have al: "alloc nfs' j = alloc nfs j" for j
    using assms(3,4) by (simp add: alloc_def)
  have ag: "agree_ptrs c c' (inodes nfs ! j)" if "alloc nfs j" for j
  proof -
    have "DR (fs_s nfs) * 4096 \<le> b * 4096 + x" if "DR (fs_s nfs) \<le> b" for b x
      using mult_le_mono1 [OF that, of 4096] by simp
    then have "agree c c' b" if "DR (fs_s nfs) \<le> b" "(b + 1) * 4096 \<le> L" for b
      using that assms(7) by (simp add: agree_def)
    then show ?thesis
      using fs_wfD(2) [OF assms(1) that] data_ptr_ok(1,3) [OF lay] by (meson agree_ptrs_def blk_ok_def)
  qed
  have nd: "node_wf c' (nat (num_inodes (fs_s nfs))) (inode_bp nfs) (inodes nfs ! j)"
      "node_of c' (inodes nfs ! j) = node_of c (inodes nfs ! j)" if "alloc nfs j" for j
    using node_frame [OF fs_wfD(1) [OF assms(1) that] ag [OF that]] by auto
  have "ptrs_wf nfs'"
    using assms(1,3,5,6) by (simp add: fs_wf_def ptrs_wf_def al)
  then show "fs_wf c' L nfs'"
    using assms(1-6) nd al by (simp add: fs_wf_def)
  show "fs_abs c' nfs' = fs_abs c nfs"
    using assms(6) nd al by (auto simp: fs_abs_def fun_eq_iff)
qed

lemma clean_synced_upd:
  assumes "clean_synced c nfs" and "layout_ok (fs_s nfs) L" and "fs_s nfs' = fs_s nfs"
    and low: "\<And>x. x < DR (fs_s nfs) * UFS_BLOCK_SIZE \<Longrightarrow> c' x = c x"
    and "\<And>j. j < nat (num_inodes (fs_s nfs)) \<Longrightarrow> \<not> bm_bit (dirty_inode_bp nfs') j \<Longrightarrow>
        \<not> bm_bit (dirty_inode_bp nfs) j \<and> inodes nfs' ! j = inodes nfs ! j"
    and "\<forall>j < nat (num_inodes (fs_s nfs)). \<not> bm_bit (dirty_inode_bp nfs') j \<Longrightarrow> inode_bp nfs' = inode_bp nfs"
    and "\<And>k. k < nat (num_data (fs_s nfs)) \<Longrightarrow> \<not> bm_bit (dirty_data_bp nfs') k \<Longrightarrow> \<not> bm_bit (dirty_data_bp nfs) k"
    and "\<forall>k < nat (num_data (fs_s nfs)). \<not> bm_bit (dirty_data_bp nfs') k \<Longrightarrow> data_bp nfs' = data_bp nfs"
  shows "clean_synced c' nfs'"
proof -
  let ?s = "fs_s nfs"
  have n32: "nat (num_inodes ?s) \<le> 32" using layout_counts(1) [OF assms(2)] .
  note pos = layout_positions [OF assms(2), of 0 0]
  have low': "rd c' a k = rd c a k" if "a + k \<le> DR ?s * 4096" for a k
    using that low by (intro rd_cong) auto
  have "IT ?s j + 128 \<le> DR ?s * 4096" if "j < nat (num_inodes ?s)" for j
    using that n32 layout_positions(4) [OF assms(2), of j j] by auto
  moreover have "IB ?s + 4 \<le> DR ?s * 4096" "DB ?s + 4 \<le> DR ?s * 4096" "40 \<le> DR ?s * 4096"
    using pos by auto
  ultimately show ?thesis
    using assms(1,3,5-8) unfolding clean_synced_def Let_def by (auto simp: low')
qed

text \<open>An update of inode \<open>i\<close>, which is marked dirty, with block bits that are marked dirty.\<close>

lemma inode_synced:
  assumes cs: "clean_synced c nfs" and lay: "layout_ok (fs_s nfs) L"
    and i: "i < nat (num_inodes (fs_s nfs))" and upd: "fs_s nfs' = fs_s nfs" "inodes nfs' = (inodes nfs)[i := new]"
    and c: "\<And>x. x < DR (fs_s nfs) * UFS_BLOCK_SIZE \<Longrightarrow> c' x = c x"
    and dirty: "\<forall>j < 32. \<not> bm_bit (dirty_inode_bp nfs') j \<longrightarrow> j \<noteq> i \<and> \<not> bm_bit (dirty_inode_bp nfs) j"
    and db: "\<forall>k < 32. \<not> bm_bit (dirty_data_bp nfs') k \<longrightarrow> \<not> bm_bit (dirty_data_bp nfs) k"
      "\<forall>k < nat (num_data (fs_s nfs)). \<not> bm_bit (dirty_data_bp nfs') k \<Longrightarrow> data_bp nfs' = data_bp nfs"
  shows "clean_synced c' nfs'"
proof (rule clean_synced_upd [OF cs lay upd(1) c])
  show "\<not> bm_bit (dirty_inode_bp nfs) j \<and> inodes nfs' ! j = inodes nfs ! j"
    if "j < nat (num_inodes (fs_s nfs))" "\<not> bm_bit (dirty_inode_bp nfs') j" for j
    using that layout_counts(1) [OF lay] dirty [rule_format, of j] by (simp add: upd(2))
  show "\<not> bm_bit (dirty_data_bp nfs) k" if "k < nat (num_data (fs_s nfs))" "\<not> bm_bit (dirty_data_bp nfs') k" for k
    using that layout_counts(2) [OF lay] db(1) [rule_format, of k] by simp
  show "inode_bp nfs' = inode_bp nfs" if "\<forall>j < nat (num_inodes (fs_s nfs)). \<not> bm_bit (dirty_inode_bp nfs') j"
    using that i layout_counts(1) [OF lay] dirty [rule_format, of i] by simp
qed (use db(2) in simp_all)

context disk_store
begin

text \<open>A well-formed file system as it is between two operations: what is not dirty is on disk.\<close>

definition fs_ok :: "'a ufs \<Rightarrow> bool" where
  "fs_ok nfs \<longleftrightarrow> dok (fs_disk nfs) \<and> fs_wf (bytes (fs_disk nfs)) (lim (fs_disk nfs)) nfs \<and>
     clean_synced (bytes (fs_disk nfs)) nfs"

definition abs_of :: "'a ufs \<Rightarrow> nat \<rightharpoonup> node" where
  "abs_of nfs = fs_abs (bytes (fs_disk nfs)) nfs"

text \<open>The operation succeeded: the metadata is on disk and the abstract state is \<open>a\<close>.\<close>

definition done_with :: "'a ufs \<Rightarrow> (nat \<rightharpoonup> node) \<Rightarrow> 'a ufs \<Rightarrow> bool" where
  "done_with nfs a nfs' \<longleftrightarrow> fs_ok nfs' \<and> synced (bytes (fs_disk nfs')) nfs' \<and> fs_s nfs' = fs_s nfs \<and>
     lim (fs_disk nfs') = lim (fs_disk nfs) \<and> abs_of nfs' = a"

lemma commit_done:
  assumes "fs_ok nfs"
  shows "\<exists>nfs'. commit_and_sync drv nfs = Ok (0, nfs') \<and> done_with nfs (abs_of nfs) nfs' \<and>
    inode_bp nfs' = inode_bp nfs \<and> data_bp nfs' = data_bp nfs \<and> inodes nfs' = inodes nfs"
proof -
  have a: "dok (fs_disk nfs)" "fs_wf (bytes (fs_disk nfs)) (lim (fs_disk nfs)) nfs"
    "clean_synced (bytes (fs_disk nfs)) nfs"
    using assms by (simp_all add: fs_ok_def)
  then have b: "layout_ok (fs_s nfs) (lim (fs_disk nfs))" "tables_ok nfs"
    by (simp_all add: fs_wf_def)
  show ?thesis
  proof (rule commit_and_sync_ok [OF a(1) b a(3)])
    fix nfs' assume r: "commit_and_sync drv nfs = Ok (0, nfs')"
      and d: "dok (fs_disk nfs')" "lim (fs_disk nfs') = lim (fs_disk nfs)" and t: "tables_ok nfs'"
      and eq: "fs_s nfs' = fs_s nfs" "inode_bp nfs' = inode_bp nfs" "data_bp nfs' = data_bp nfs"
        "inodes nfs' = inodes nfs"
      and sy: "synced (bytes (fs_disk nfs')) nfs'" "clean_synced (bytes (fs_disk nfs')) nfs'"
      and fr: "\<And>x. DR (fs_s nfs) * 4096 \<le> x \<Longrightarrow> bytes (fs_disk nfs') x = bytes (fs_disk nfs) x"
    show ?thesis
      using r d t eq sy fs_tables_cong [OF a(2) t eq fr]
      by (auto simp: done_with_def fs_ok_def abs_of_def)
  qed
qed

end


section \<open>The parent directory\<close>

lemma dir_blocks_used:
  assumes "dir_wf c N ib ino" and "k < DIRECT_PTRS" and "128 * k + j < dir_size ino" and "j < 128"
  shows "de_inum (ent_at c (unat (i_direct ino ! k)) j) \<noteq> - 1"
proof -
  have "entry_wf N ib (slot c (i_direct ino) (128 * k + j))"
    using assms by (auto simp: dir_wf_def)
  then show ?thesis
    using assms(4) by (auto simp: slot_def entry_wf_def)
qed

lemma dir_first_free:
  assumes "dir_wf c N ib ino" and "n = dir_size ino" and "n mod 128 \<noteq> 0"
  shows "n div 128 < DIRECT_PTRS" and "i_direct ino ! (n div 128) \<noteq> - 1"
    and "\<And>j. n mod 128 \<le> j \<Longrightarrow> j < 128 \<Longrightarrow> de_inum (ent_at c (unat (i_direct ino ! (n div 128))) j) = - 1"
proof -
  have n: "128 * (n div 128) < n"
    using assms(3) by (metis gr0I mult_div_mod_eq less_add_same_cancel1)
  have le: "n \<le> 3840" using assms(1,2) by (simp add: dir_wf_def)
  show k: "n div 128 < 30" using n le by simp
  show "i_direct ino ! (n div 128) \<noteq> - 1"
    using assms(1,2) k n by (simp add: dir_wf_def)
  fix j assume j: "n mod 128 \<le> j" "j < 128"
  have "n \<le> 128 * (n div 128) + j" using j(1) by (metis add_le_cancel_left mult_div_mod_eq)
  moreover have "128 * (n div 128) + j < 3840" using k j(2) by linarith
  ultimately have "de_inum (slot c (i_direct ino) (128 * (n div 128) + j)) = - 1"
    using assms(1,2) n j(2) by (simp add: dir_wf_def)
  then show "de_inum (ent_at c (unat (i_direct ino ! (n div 128))) j) = - 1"
    using j(2) by (simp add: slot_def)
qed

lemma dir_full_iff:
  assumes "dir_wf c N ib ino" and "length (i_direct ino) = DIRECT_PTRS"
  shows "(\<forall>p \<in> set (i_direct ino). p \<noteq> - 1 \<longrightarrow> (\<forall>j < 128. de_inum (ent_at c (unat p) j) \<noteq> - 1))
    \<longleftrightarrow> dir_size ino mod 128 = 0"
proof (cases "dir_size ino mod 128 = 0")
  case True
  have "de_inum (ent_at c (unat (i_direct ino ! k)) j) \<noteq> - 1"
    if "k < 30" "i_direct ino ! k \<noteq> - 1" "j < 128" for k j
  proof -
    have "128 * k < dir_size ino"
      using assms(1) that by (simp add: dir_wf_def)
    then have "128 * k + 128 \<le> dir_size ino"
      using True by (auto elim!: dvdE simp: mod_eq_0_iff_dvd)
    then show ?thesis
      using dir_blocks_used [OF assms(1) that(1), of j] that(3) by simp
  qed
  then show ?thesis using True assms(2) by (metis in_set_conv_nth)
next
  case False
  then show ?thesis
    using dir_first_free [OF assms(1) refl False] assms(2)
    by (metis less_imp_le_nat mod_less_divisor nth_mem order_refl zero_less_numeral)
qed

lemma dir_wf_ok:
  assumes "fs_wf c L nfs" and "alloc nfs i" and "i_type (inodes nfs ! i) = UFS_DIRECTORY"
  shows "dir_wf c (nat (num_inodes (fs_s nfs))) (inode_bp nfs) (inodes nfs ! i)"
    and "dir_ok c L (inodes nfs ! i)"
    and "length (i_direct (inodes nfs ! i)) = DIRECT_PTRS"
    and "\<forall>p \<in> set (i_direct (inodes nfs ! i)). p \<noteq> - 1 \<longrightarrow> blk_ok L p"
proof -
  let ?ino = "inodes nfs ! i"
  show w: "dir_wf c (nat (num_inodes (fs_s nfs))) (inode_bp nfs) ?ino"
    using fs_wfD(1) [OF assms(1,2)] assms(3) by (simp add: node_wf_def)
  have lay: "layout_ok (fs_s nfs) L"
    using assms(1) by (simp add: fs_wf_def)
  show len: "length (i_direct ?ino) = 30"
    using fs_wfD(4) [OF assms(1,2)] by (simp add: inode_typed_def)
  have bk: "blk_ok L (i_direct ?ino ! k)" if "k < 30" "i_direct ?ino ! k \<noteq> - 1" for k
    using data_ptr_ok(1) [OF lay fs_wfD(2) [OF assms(1,2) that]] .
  then show "\<forall>p \<in> set (i_direct ?ino). p \<noteq> - 1 \<longrightarrow> blk_ok L p"
    using len by (metis in_set_conv_nth)
  have "blk_ok L (i_direct ?ino ! k)" if "128 * k < dir_size ?ino" for k
    using bk [of k] w that by (auto simp: dir_wf_def)
  moreover have "de_inum e \<noteq> - 1 \<and> terminated (de_name e)"
    if "e \<in> set (ents c (i_direct ?ino) (dir_size ?ino))" for e
  proof -
    obtain j where "j < dir_size ?ino" "e = slot c (i_direct ?ino) j"
      using \<open>e \<in> set (ents c (i_direct ?ino) (dir_size ?ino))\<close> by (auto simp: ents_slot)
    then have "entry_wf (nat (num_inodes (fs_s nfs))) (inode_bp nfs) e"
      using w by (simp add: dir_wf_def)
    then show ?thesis by (auto simp: entry_wf_def)
  qed
  ultimately show "dir_ok c L ?ino"
    using w assms(3) len by (auto simp: dir_ok_def dir_wf_def)
qed

end
