(* ===== verification/UfsCreat.thy ===== *)
theory UfsCreat
  imports UfsCommit
begin

text \<open>
  \<open>ufs_creat\<close> implements its specification on the abstract file system: a new node at the first
  free inode, and one more entry at the end of the parent directory. The proof is done once,
  for every disk that can be written and every platform with a correct \<open>strcpy\<close>.
\<close>

section \<open>Free inodes and blocks\<close>

definition free_inodes :: "'d ufs \<Rightarrow> nat list" where
  "free_inodes nfs = filter (\<lambda>j. \<not> bm_bit (inode_bp nfs) j) [0..<nat (num_inodes (fs_s nfs))]"

definition free_blocks :: "'d ufs \<Rightarrow> nat list" where
  "free_blocks nfs = filter (\<lambda>j. \<not> bm_bit (data_bp nfs) j) [0..<nat (num_data (fs_s nfs))]"

lemma free_inodes_mem: "k \<in> set (free_inodes nfs) \<Longrightarrow> k < nat (num_inodes (fs_s nfs)) \<and> \<not> alloc nfs k"
  by (simp add: free_inodes_def alloc_def)

lemma free_blocks_mem: "k \<in> set (free_blocks nfs) \<Longrightarrow> k < nat (num_data (fs_s nfs)) \<and> \<not> bm_bit (data_bp nfs) k"
  by (simp add: free_blocks_def)

lemma free_blocks_set:
  assumes "length (data_bp nfs) = 1" and "nat (num_data (fs_s nfs)) \<le> 32" and "e < 32"
    and "data_bp nfs' = bm_set (data_bp nfs) e" and "fs_s nfs' = fs_s nfs"
  shows "free_blocks nfs' = filter (\<lambda>j. j \<noteq> e) (free_blocks nfs)"
  unfolding free_blocks_def assms(4,5) filter_filter
  using assms(1-3) by (intro filter_cong) (auto simp: bm_bit_set bm_cap_length)

lemma free_blocks_take:
  assumes "length (data_bp nfs) = 1" and "nat (num_data (fs_s nfs)) \<le> 32" and "free_blocks nfs = e # rest"
    and "data_bp nfs' = bm_set (data_bp nfs) e" and "fs_s nfs' = fs_s nfs"
  shows "free_blocks nfs' = rest"
proof -
  have "e < 32" using free_blocks_mem [of e nfs] assms(2,3) by simp
  then have "free_blocks nfs' = filter (\<lambda>j. j \<noteq> e) (free_blocks nfs)"
    using free_blocks_set assms by blast
  moreover have "distinct (free_blocks nfs)" by (simp add: free_blocks_def)
  ultimately show ?thesis
    using assms(3) by (auto simp: filter_id_conv)
qed

lemma free_blocks_same:
  "data_bp nfs' = data_bp nfs \<Longrightarrow> fs_s nfs' = fs_s nfs \<Longrightarrow> free_blocks nfs' = free_blocks nfs"
  by (simp add: free_blocks_def)

section \<open>The entry in the parent\<close>

text \<open>
  What both ways of storing the entry achieve: \<open>q\<close> is the block that holds it, slot \<open>m\<close> of that
  block its place, and nothing outside the block has been written.
\<close>

definition entry_stored ::
    "(nat \<Rightarrow> byte) \<Rightarrow> (nat \<Rightarrow> byte) \<Rightarrow> super_t \<Rightarrow> u32 \<Rightarrow> nat \<Rightarrow> dir_ent_t \<Rightarrow> bool" where
  "entry_stored c c' s q m e \<longleftrightarrow> (\<forall>b. b \<noteq> unat q \<longrightarrow> agree c c' b) \<and>
     (\<forall>x < DR s * UFS_BLOCK_SIZE. c' x = c x) \<and> ent_at c' (unat q) m = e \<and>
     (\<forall>j < m. ent_at c' (unat q) j = ent_at c (unat q) j) \<and>
     (\<forall>j < 128. m < j \<longrightarrow> de_inum (ent_at c' (unat q) j) = - 1)"

lemma inode_upd_swap: "ino\<lparr>i_direct := a, i_size := b\<rparr> = ino\<lparr>i_size := b, i_direct := a\<rparr>"
  by (rule inode_t.equality) simp_all

text \<open>
  The block \<open>q\<close> at place \<open>k\<close> of inode \<open>i\<close>, its own or a fresh one, is no other block of any inode.
\<close>

lemma entry_blocks:
  assumes wf: "fs_wf c L nfs" and al: "alloc nfs i" and k: "k < 30"
    and mine: "q = i_direct (inodes nfs ! i) ! k \<and> q \<noteq> - 1 \<or> fresh_ptr (fs_s nfs) (data_bp nfs) q"
  shows "alloc nfs j \<Longrightarrow> l < 30 \<Longrightarrow> i_direct (inodes nfs ! j) ! l \<noteq> - 1 \<Longrightarrow> (j = i \<Longrightarrow> l \<noteq> k) \<Longrightarrow>
      unat (i_direct (inodes nfs ! j) ! l) \<noteq> unat q"
    and "q \<noteq> - 1 \<Longrightarrow> length (i_direct (inodes nfs ! i)) = 30 \<Longrightarrow> l < 30 \<Longrightarrow> l' < 30 \<Longrightarrow>
      (i_direct (inodes nfs ! i))[k := q] ! l \<noteq> - 1 \<Longrightarrow>
      (i_direct (inodes nfs ! i))[k := q] ! l = (i_direct (inodes nfs ! i))[k := q] ! l' \<Longrightarrow> l = l'"
proof -
  have lay: "layout_ok (fs_s nfs) L" using wf by (simp add: fs_wf_def)
  have ne: "unat (i_direct (inodes nfs ! j) ! l) \<noteq> unat q"
    if "alloc nfs j" "l < 30" "i_direct (inodes nfs ! j) ! l \<noteq> - 1" "j = i \<Longrightarrow> l \<noteq> k" for j l
  proof -
    have dp: "data_ptr (fs_s nfs) (data_bp nfs) (i_direct (inodes nfs ! j) ! l)"
      using fs_wfD(2) [OF wf that(1-3)] .
    have "i_direct (inodes nfs ! j) ! l \<noteq> i_direct (inodes nfs ! i) ! k"
      using fs_wfD(3) [OF wf that(1) al that(2) k that(3)] that(4) by blast
    then show ?thesis
      using mine fresh_not_data [OF lay _ dp] by (metis word_unat_eq_iff)
  qed
  then show "alloc nfs j \<Longrightarrow> l < 30 \<Longrightarrow> i_direct (inodes nfs ! j) ! l \<noteq> - 1 \<Longrightarrow> (j = i \<Longrightarrow> l \<noteq> k) \<Longrightarrow>
      unat (i_direct (inodes nfs ! j) ! l) \<noteq> unat q" .
  assume q1: "q \<noteq> - 1" and len: "length (i_direct (inodes nfs ! i)) = 30" and l: "l < 30" "l' < 30"
    "(i_direct (inodes nfs ! i))[k := q] ! l \<noteq> - 1"
    "(i_direct (inodes nfs ! i))[k := q] ! l = (i_direct (inodes nfs ! i))[k := q] ! l'"
  show "l = l'"
  proof (rule ccontr)
    assume "l \<noteq> l'"
    then consider "l = k" "l' \<noteq> k" | "l' = k" "l \<noteq> k" | "l \<noteq> k" "l' \<noteq> k" by blast
    then show False
    proof cases
      case 1 with l len ne [OF al, of l'] q1 show False by simp
    next
      case 2 with l len ne [OF al, of l] q1 show False by simp
    next
      case 3 with l len fs_wfD(3) [OF wf al al, of l l'] \<open>l \<noteq> l'\<close> show False by simp
    qed
  qed
qed

text \<open>The slots before the first free one are in use: the blocks before its block are full.\<close>

lemma used_before:
  assumes dw: "dir_wf c N ib ino" and n: "n = dir_size ino" "n div 128 < DIRECT_PTRS" and len: "length (i_direct ino) = DIRECT_PTRS"
  shows "p \<in> set (take (n div 128) (i_direct ino)) \<Longrightarrow> p \<noteq> - 1 \<and> (\<forall>j < 128. de_inum (ent_at c (unat p) j) \<noteq> - 1)"
    and "j < n mod 128 \<Longrightarrow> de_inum (ent_at c (unat (i_direct ino ! (n div 128))) j) \<noteq> - 1"
proof -
  assume "p \<in> set (take (n div 128) (i_direct ino))"
  then obtain l where l: "l < n div 128" "p = i_direct ino ! l"
    using n(2) len by (auto simp: in_set_conv_nth)
  have lt: "128 * l + j < dir_size ino" if "j < 128" for j
  proof -
    have "128 * Suc l \<le> 128 * (n div 128)" using l(1) by (intro mult_le_mono2) simp
    then show ?thesis using that n(1) times_div_less_eq_dividend [of 128 n] by (simp del: times_div_less_eq_dividend)
  qed
  have "p \<noteq> - 1"
    using dw l n(2) lt [of 0] by (auto simp: dir_wf_def)
  then show "p \<noteq> - 1 \<and> (\<forall>j < 128. de_inum (ent_at c (unat p) j) \<noteq> - 1)"
    using l n(2) lt dir_blocks_used [OF dw, of l] by auto
next
  assume j: "j < n mod 128"
  then have "j < 128" by (rule order.strict_trans) simp
  moreover have "128 * (n div 128) + j < dir_size ino"
    using j n(1) by (metis mult_div_mod_eq nat_add_left_cancel_less)
  ultimately show "de_inum (ent_at c (unat (i_direct ino ! (n div 128))) j) \<noteq> - 1"
    using dir_blocks_used [OF dw n(2)] by blast
qed

text \<open>An entry written to a slot of a block of the data region.\<close>

lemma entry_written:
  assumes q: "DR s \<le> unat q" and e: "dir_ent_typed e" and m: "m < 128"
    and free: "\<And>j. m < j \<Longrightarrow> j < 128 \<Longrightarrow> de_inum (ent_at c (unat q) j) = - 1"
    and c': "c' = wr c (unat q * UFS_BLOCK_SIZE + 32 * m) (enc_dir_ent e)"
  shows "entry_stored c c' s q m e"
proof -
  have at: "ent_at c' (unat q) j = (if j = m then e else ent_at c (unat q) j)" if "j < 128" for j
    using ent_at_wr_ent [OF e m that] c' by simp
  have "agree c c' b" if "b \<noteq> unat q" for b
    using that m e agree_wr [of "unat q" "unat q * 4096 + 32 * m" "enc_dir_ent e" b c] by (simp add: c')
  moreover have "c' x = c x" if "x < DR s * 4096" for x
    using that mult_le_mono1 [OF q, of 4096] by (simp add: c' wr_apply_out)
  ultimately show ?thesis
    using at free m unfolding entry_stored_def by auto
qed

context ufs_rw
begin

lemma creat_full_ok:
  assumes ok: "fs_ok nfs" and al: "alloc nfs i" and ty: "i_type (inodes nfs ! i) = UFS_DIRECTORY"
    and n: "n = dir_size (inodes nfs ! i)" "n < 128 * DIRECT_PTRS" "n mod 128 = 0"
    and name: "terminated name" "length (cstr name) \<le> 27" "is_int32 ei"
    and ed: "ed < nat (num_data (fs_s nfs))" and dib: "length dib = 1"
  shows "\<exists>d' e. creat_new_block pf drv junk (int i) name ei (int ed) (nfs\<lparr>dirty_inode_bp := dib\<rparr>) =
      Ok (nfs\<lparr>dirty_inode_bp := dib, fs_disk := d', data_bp := bm_set (data_bp nfs) ed,
           dirty_data_bp := bm_set (dirty_data_bp nfs) ed,
           inodes := (inodes nfs)[i := (inodes nfs ! i)\<lparr>i_direct :=
             (i_direct (inodes nfs ! i))[n div 128 := of_nat (DR (fs_s nfs) + ed)]\<rparr>]\<rparr>) \<and>
      dok d' \<and> lim d' = lim (fs_disk nfs) \<and> de_inum e = ei \<and> terminated (de_name e) \<and>
      cstr (de_name e) = cstr name \<and>
      entry_stored (bytes (fs_disk nfs)) (bytes d') (fs_s nfs) (of_nat (DR (fs_s nfs) + ed)) (n mod 128) e"
proof -
  let ?s = "fs_s nfs" and ?d = "fs_disk nfs" and ?ino = "inodes nfs ! i" and ?b = "DR (fs_s nfs) + ed"
  let ?k = "n div 128" and ?nfs = "nfs\<lparr>dirty_inode_bp := dib\<rparr>"
  have wf: "fs_wf (bytes ?d) (lim ?d) nfs" and dok: "dok (fs_disk ?nfs)"
    using ok by (simp_all add: fs_ok_def)
  then have lay: "layout_ok ?s (lim ?d)" and tab: "tables_ok ?nfs"
    using dib by (simp_all add: fs_wf_def tables_ok_def)
  have lay': "layout_ok (fs_s ?nfs) (lim (fs_disk ?nfs))" "ed < nat (num_data (fs_s ?nfs))" "i < length (inodes ?nfs)"
    using lay ed fs_wfD(5) [OF wf al] by simp_all
  note dw = dir_wf_ok [OF wf al ty]
  note u = data_ptr_unat [OF lay ed]
  have k: "?k < 30" "128 * ?k = n"
    using n(2,3) by auto
  have full: "?k < length (i_direct ?ino)" "i_direct ?ino ! ?k = - 1" "\<forall>j < ?k. i_direct ?ino ! j \<noteq> - 1"
    using dw(1,3) n(1) k by (auto simp: dir_wf_def)
  let ?es = "\<lambda>e. e # free_ents junk 129 256"
  obtain d' e where r: "creat_new_block pf drv junk (int i) name ei (int ed) ?nfs =
      Ok (?nfs\<lparr>fs_disk := d', data_bp := bm_set (data_bp nfs) ed, dirty_data_bp := bm_set (dirty_data_bp nfs) ed,
           inodes := (inodes nfs)[i := ?ino\<lparr>i_direct := (i_direct ?ino)[?k := of_nat ?b]\<rparr>]\<rparr>)"
    and st: "stored ?d (?b * 4096) (enc_dir_block (?es e)) d'"
    and e: "dir_ent_typed e" "de_inum e = ei" "terminated (de_name e)" "cstr (de_name e) = cstr name"
    using creat_new_block_ok [OF dok lay'(1) tab lay'(2,3) name, of junk] set_first_free_eq [OF full]
    by auto
  have ty: "\<forall>x \<in> set (?es e). dir_ent_typed x" "length (?es e) = 128"
    using e(1) free_ents_typed [of junk 129 256] by simp_all
  have d': "dok d'" "lim d' = lim ?d" "bytes d' = wr (bytes ?d) (?b * 4096) (enc_dir_block (?es e))"
    using st by (simp_all add: stored_def)
  have at: "ent_at (bytes d') ?b j = ?es e ! j" if "j < 128" for j
    unfolding d'(3) using ty that by (intro ent_at_wr_block) simp_all
  have "agree (bytes ?d) (bytes d') b" if "b \<noteq> ?b" for b
    using that ty agree_wr [of ?b "?b * 4096" "enc_dir_block (?es e)" b "bytes ?d"] by (simp add: d'(3))
  moreover have "bytes d' x = bytes ?d x" if "x < DR ?s * 4096" for x
    using that by (simp add: d'(3) wr_apply_out)
  moreover have "de_inum (ent_at (bytes d') ?b j) = - 1" if "0 < j" "j < 128" for j
    using that at [of j] free_ents_typed [of junk 129 256] nth_mem [of "j - 1" "free_ents junk 129 256"]
    by (cases j) auto
  ultimately have "entry_stored (bytes ?d) (bytes d') ?s (of_nat ?b) (n mod 128) e"
    using at [of 0] n(3) unfolding entry_stored_def u by simp
  then show ?thesis
    using r d' e by (intro exI [of _ d'] exI [of _ e]) simp
qed

lemma creat_free_ok:
  assumes ok: "fs_ok nfs" and al: "alloc nfs i" and ty: "i_type (inodes nfs ! i) = UFS_DIRECTORY"
    and n: "n = dir_size (inodes nfs ! i)" "n mod 128 \<noteq> 0"
    and name: "terminated name" "length (cstr name) \<le> 27" "is_int32 ei"
  shows "\<exists>d' e. creat_insert pf drv junk name ei (i_direct (inodes nfs ! i)) (fs_disk nfs) = Ok d' \<and>
      dok d' \<and> lim d' = lim (fs_disk nfs) \<and> de_inum e = ei \<and> terminated (de_name e) \<and>
      cstr (de_name e) = cstr name \<and>
      entry_stored (bytes (fs_disk nfs)) (bytes d') (fs_s nfs) (i_direct (inodes nfs ! i) ! (n div 128)) (n mod 128) e"
proof -
  let ?d = "fs_disk nfs" and ?ino = "inodes nfs ! i"
  let ?ps = "i_direct ?ino" and ?k = "n div 128" and ?m = "n mod 128"
  let ?q = "?ps ! ?k"
  have wf: "fs_wf (bytes ?d) (lim ?d) nfs" and dok: "dok ?d"
    using ok by (simp_all add: fs_ok_def)
  note dw = dir_wf_ok [OF wf al ty]
  have lay: "layout_ok (fs_s nfs) (lim ?d)" using wf by (simp add: fs_wf_def)
  note ff = dir_first_free [OF dw(1) n]
  note used = used_before [OF dw(1) n(1) ff(1) dw(3)]
  note qo = data_ptr_ok [OF lay fs_wfD(2) [OF wf al ff(1,2)]]
  have ps: "?ps = take ?k ?ps @ ?q # drop (Suc ?k) ?ps"
    using ff(1) dw(3) by (simp add: id_take_nth_drop)
  have pre: "\<forall>p \<in> set (take ?k ?ps). blk_ok (lim ?d) p \<and> (\<forall>j < 128. de_inum (ent_at (bytes ?d) (unat p) j) \<noteq> - 1)"
    using used(1) dw(4) by (meson in_set_takeD)
  have here: "\<forall>j < ?m. de_inum (ent_at (bytes ?d) (unat ?q) j) \<noteq> - 1"
    using used(2) by blast
  have m: "?m < 128" by simp
  obtain d' e where r: "creat_insert pf drv junk name ei ?ps ?d = Ok d'"
    and st: "stored ?d (unat ?q * 4096 + 32 * ?m) (enc_dir_ent e) d'"
    and e: "dir_ent_typed e" "de_inum e = ei" "terminated (de_name e)" "cstr (de_name e) = cstr name"
    using creat_insert_ok [OF dok pre qo(1) m ff(3) here name, of junk "drop (Suc ?k) ?ps"] ps m
    by (metis order_refl)
  have "entry_stored (bytes ?d) (bytes d') (fs_s nfs) ?q ?m e"
    using st ff(3) by (intro entry_written [OF qo(3) e(1) m]) (simp_all add: stored_def)
  then show ?thesis
    using r st e by (auto simp: stored_def)
qed


text \<open>The state before the commit: it is well-formed and has the entry.\<close>

lemma entry_state_ok:
  assumes ok: "fs_ok nfs" and al: "alloc nfs i" and ty: "i_type (inodes nfs ! i) = UFS_DIRECTORY"
    and n: "n = dir_size (inodes nfs ! i)" "n < 128 * DIRECT_PTRS"
    and new: "cstr (de_name e) \<notin> fst ` set (dir_list (bytes (fs_disk nfs)) (inodes nfs ! i))"
    and e: "entry_wf (nat (num_inodes (fs_s nfs))) (inode_bp nfs) e"
    and d': "dok d'" "lim d' = lim (fs_disk nfs)"
    and st: "entry_stored (bytes (fs_disk nfs)) (bytes d') (fs_s nfs) q (n mod 128) e"
    and q: "n mod 128 \<noteq> 0 \<Longrightarrow> i_direct (inodes nfs ! i) ! (n div 128) = q"
      "n mod 128 = 0 \<Longrightarrow> fresh_ptr (fs_s nfs) (data_bp nfs) q" "data_ptr (fs_s nfs) db q"
    and db: "\<And>k. k < 32 \<Longrightarrow> bm_bit (data_bp nfs) k \<Longrightarrow> bm_bit db k" "length db = 1" "length ddb = 1"
      "\<And>k. k < 32 \<Longrightarrow> \<not> bm_bit ddb k \<Longrightarrow> \<not> bm_bit (dirty_data_bp nfs) k"
      "\<forall>k < nat (num_data (fs_s nfs)). \<not> bm_bit ddb k \<Longrightarrow> db = data_bp nfs"
    and new': "nfs' = nfs\<lparr>fs_disk := d', dirty_inode_bp := bm_set (dirty_inode_bp nfs) i, data_bp := db,
        dirty_data_bp := ddb, inodes := (inodes nfs)[i := (inodes nfs ! i)\<lparr>i_size := int (32 * Suc n),
          i_direct := (i_direct (inodes nfs ! i))[n div 128 := q]\<rparr>]\<rparr>"
  shows "fs_ok nfs'" and "abs_of nfs' = (abs_of nfs)(i \<mapsto>
     Dir (dir_list (bytes (fs_disk nfs)) (inodes nfs ! i) @ [(cstr (de_name e), de_inum e)]))"
proof -
  let ?s = "fs_s nfs" and ?d = "fs_disk nfs" and ?ino = "inodes nfs ! i" and ?k = "n div 128"
  let ?new = "?ino\<lparr>i_size := int (32 * Suc n), i_direct := (i_direct ?ino)[?k := q]\<rparr>"
  have wf: "fs_wf (bytes ?d) (lim ?d) nfs" using ok by (simp add: fs_ok_def)
  then have tab: "tables_ok nfs" and lay: "layout_ok ?s (lim ?d)" by (simp_all add: fs_wf_def)
  note dw = dir_wf_ok [OF wf al ty] and i = fs_wfD [OF wf al]
  have k: "?k < 30" using n(2) by auto
  have q1: "q \<noteq> - 1" using data_ptr_ok(2) [OF lay q(3)] .
  have mine: "q = i_direct ?ino ! ?k \<and> q \<noteq> - 1 \<or> fresh_ptr ?s (data_bp nfs) q"
    using q(1,2) q1 by blast
  note ne = entry_blocks(1) [OF wf al k mine] and dist = entry_blocks(2) [OF wf al k mine q1 dw(3)]
  have ag: "agree (bytes ?d) (bytes d') (unat p)" if "unat p \<noteq> unat q" for p :: u32
    using st that by (simp add: entry_stored_def)
  have dir: "dir_wf (bytes d') (nat (num_inodes ?s)) (inode_bp nfs) ?new"
    "dir_list (bytes d') ?new = dir_list (bytes ?d) ?ino @ [(cstr (de_name e), de_inum e)]"
    using st q1 ag ne [OF al]
    by (intro dir_append [OF dw(1) i(4) n e new q(1)]; simp add: entry_stored_def)+
  have typed: "inode_typed ?new"
    using i(4) n(2) by (simp add: inode_typed_def is_int32_def)
  have tab': "tables_ok nfs'"
    using tab typed db(2,3) by (auto simp: new' tables_ok_def dest: set_update_subset_insert [THEN subsetD])
  have ib: "bm_bit (inode_bp nfs') j \<longleftrightarrow> j = i \<or> bm_bit (inode_bp nfs) j" for j
    using al by (auto simp: new' alloc_def)
  have ptr: "alloc nfs i \<and> i_direct ?new ! l = i_direct ?ino ! l \<or>
      fresh_ptr ?s (data_bp nfs) (i_direct ?new ! l) \<and> data_ptr ?s (data_bp nfs') (i_direct ?new ! l)"
    if "l < 30" for l
    using that mine al dw(3) q(3) by (cases "l = ?k") (auto simp: new')
  have frame: "agree_ptrs (bytes ?d) (bytes d') (inodes nfs ! j)" if "alloc nfs j" "j \<noteq> i" for j
    using that ag ne by (simp add: agree_ptrs_def)
  have nw: "node_wf (bytes d') (nat (num_inodes ?s)) (inode_bp nfs') ?new"
    using dir(1) ty by (simp add: node_wf_def new' UFS_DIRECTORY_def UFS_REGULAR_FILE_def)
  have al': "i < nat (num_inodes ?s)" using al by (simp add: alloc_def)
  have pn: "fs_wf (bytes d') (lim ?d) nfs'"
    "fs_abs (bytes d') nfs' = (fs_abs (bytes ?d) nfs)(i \<mapsto> node_of (bytes d') ?new)"
    using put_node [OF wf al' _ tab' _ ib _ ptr _ frame nw] dist db(1) by (simp_all add: new')
  have "clean_synced (bytes d') nfs'"
  proof (rule inode_synced [OF _ lay al'])
    show "clean_synced (bytes ?d) nfs" using ok by (simp add: fs_ok_def)
    show "bytes d' x = bytes ?d x" if "x < DR ?s * 4096" for x
      using st that by (simp add: entry_stored_def)
  qed (use tab al' layout_counts(1) [OF lay] db(4,5) in \<open>auto simp: new' bm_bit_set\<close>)
  then show "fs_ok nfs'"
    using pn d' by (simp add: fs_ok_def new')
  show "abs_of nfs' = (abs_of nfs)(i \<mapsto>
     Dir (dir_list (bytes ?d) ?ino @ [(cstr (de_name e), de_inum e)]))"
    using pn(2) dir(2) ty by (simp add: abs_of_def new' node_of_def)
qed

lemma done_with_trans:
  "fs_s nfs1 = fs_s nfs \<Longrightarrow> lim (fs_disk nfs1) = lim (fs_disk nfs) \<Longrightarrow> abs_of nfs1 = a \<Longrightarrow>
   done_with nfs1 (abs_of nfs1) nfs' \<Longrightarrow> done_with nfs a nfs'"
  by (simp add: done_with_def)

text \<open>What both cases of the parent's part need.\<close>

lemma parent_facts:
  assumes ok: "fs_ok nfs" and al: "alloc nfs i" and ty: "i_type (inodes nfs ! i) = UFS_DIRECTORY"
    and n: "n = dir_size (inodes nfs ! i)" "n < 128 * DIRECT_PTRS" and ei: "alloc nfs ei"
  shows "i_size (inodes nfs ! i) = 32 * int n" "to_int (i_size (inodes nfs ! i) + 32) = int (32 * Suc n)"
    "touch_inode (int i) nfs = Ok (nfs\<lparr>dirty_inode_bp := bm_set (dirty_inode_bp nfs) i\<rparr>)"
    "length (bm_set (dirty_inode_bp nfs) i) = 1" "is_int32 (int ei)" "i < length (inodes nfs)"
    "\<And>e. de_inum e = int ei \<Longrightarrow> terminated (de_name e) \<Longrightarrow> entry_wf (nat (num_inodes (fs_s nfs))) (inode_bp nfs) e"
proof -
  have wf: "fs_wf (bytes (fs_disk nfs)) (lim (fs_disk nfs)) nfs" using ok by (simp add: fs_ok_def)
  then have tab: "tables_ok nfs" by (simp add: fs_wf_def)
  show sz: "i_size (inodes nfs ! i) = 32 * int n"
    using dir_wf_ok(1) [OF wf al ty] n(1) by (auto simp: dir_wf_def dir_size_def)
  show "to_int (i_size (inodes nfs ! i) + 32) = int (32 * Suc n)"
    unfolding sz to_int_def using n(2) by (subst sint_of_int32) (simp_all add: is_int32_def)
  show "touch_inode (int i) nfs = Ok (nfs\<lparr>dirty_inode_bp := bm_set (dirty_inode_bp nfs) i\<rparr>)"
    by (rule touch_inode_eq [OF tab fs_wfD(6) [OF wf al]])
  show "length (bm_set (dirty_inode_bp nfs) i) = 1" using tab by (simp add: tables_ok_def)
  show "is_int32 (int ei)" using fs_wfD(6) [OF wf ei] by (simp add: is_int32_def)
  show "i < length (inodes nfs)" by (rule fs_wfD(5) [OF wf al])
  show "entry_wf (nat (num_inodes (fs_s nfs))) (inode_bp nfs) e"
    if "de_inum e = int ei" "terminated (de_name e)" for e
    using that ei by (simp add: entry_wf_def alloc_def)
qed

text \<open>The state that the parent's part commits.\<close>

definition entry_in :: "'d ufs \<Rightarrow> nat \<Rightarrow> byte list \<Rightarrow> nat \<Rightarrow> nat list \<Rightarrow> 'd ufs \<Rightarrow> bool" where
  "entry_in nfs i name ei fb nfs2 \<longleftrightarrow> fs_ok nfs2 \<and> fs_s nfs2 = fs_s nfs \<and> lim (fs_disk nfs2) = lim (fs_disk nfs) \<and>
     abs_of nfs2 = (abs_of nfs)(i \<mapsto> Dir (dir_list (bytes (fs_disk nfs)) (inodes nfs ! i) @ [(cstr name, int ei)])) \<and>
     free_blocks nfs2 = fb"

lemma creat_parent_full:
  assumes ok: "fs_ok nfs" and al: "alloc nfs i" and ty: "i_type (inodes nfs ! i) = UFS_DIRECTORY"
    and n: "n = dir_size (inodes nfs ! i)" "n < 128 * DIRECT_PTRS" "n mod 128 = 0"
    and name: "terminated name" "length (cstr name) \<le> 27"
    and new: "cstr name \<notin> fst ` set (dir_list (bytes (fs_disk nfs)) (inodes nfs ! i))"
    and ei: "alloc nfs ei" and ed: "ed < nat (num_data (fs_s nfs))" "\<not> bm_bit (data_bp nfs) ed"
  shows "\<exists>nfs2. creat_parent pf drv junk (int i) name (int ei) (int ed) True nfs = commit_and_sync drv nfs2 \<and>
     entry_in nfs i name ei (filter (\<lambda>j. j \<noteq> ed) (free_blocks nfs)) nfs2"
proof -
  let ?s = "fs_s nfs" and ?d = "fs_disk nfs" and ?ino = "inodes nfs ! i" and ?k = "n div 128"
  let ?dib = "bm_set (dirty_inode_bp nfs) i"
  let ?q = "of_nat (DR ?s + ed) :: u32" and ?db = "bm_set (data_bp nfs) ed" and ?ddb = "bm_set (dirty_data_bp nfs) ed"
  have wf: "fs_wf (bytes ?d) (lim ?d) nfs" using ok by (simp add: fs_ok_def)
  then have lay: "layout_ok ?s (lim ?d)" and tab: "tables_ok nfs" by (simp_all add: fs_wf_def)
  note pf = parent_facts [OF ok al ty n(1,2) ei]
  obtain d' e where r: "creat_new_block pf drv junk (int i) name (int ei) (int ed) (nfs\<lparr>dirty_inode_bp := ?dib\<rparr>) =
      Ok (nfs\<lparr>dirty_inode_bp := ?dib, fs_disk := d', data_bp := ?db, dirty_data_bp := ?ddb,
         inodes := (inodes nfs)[i := ?ino\<lparr>i_direct := (i_direct ?ino)[?k := ?q]\<rparr>]\<rparr>)"
    and d': "dok d'" "lim d' = lim ?d"
    and e: "de_inum e = int ei" "terminated (de_name e)" "cstr (de_name e) = cstr name"
    and st: "entry_stored (bytes ?d) (bytes d') ?s ?q (n mod 128) e"
    using creat_full_ok [OF ok al ty n name pf(5) ed(1) pf(4), of junk] by blast
  let ?st = "nfs\<lparr>fs_disk := d', dirty_inode_bp := ?dib, data_bp := ?db, dirty_data_bp := ?ddb,
      inodes := (inodes nfs)[i := ?ino\<lparr>i_size := int (32 * Suc n), i_direct := (i_direct ?ino)[?k := ?q]\<rparr>]\<rparr>"
  let ?r = "nfs\<lparr>dirty_inode_bp := ?dib, fs_disk := d', data_bp := ?db, dirty_data_bp := ?ddb, inodes :=
      (inodes nfs)[i := ?ino\<lparr>i_direct := (i_direct ?ino)[?k := ?q], i_size := int (32 * Suc n)\<rparr>]\<rparr>"
  have "?r = ?st" by (rule ufs.equality) (simp_all add: inode_upd_swap)
  moreover have "creat_parent pf drv junk (int i) name (int ei) (int ed) True nfs = commit_and_sync drv ?r"
    using pf(1-3,6) r n(2) by (simp add: creat_parent_def upd_inode_eq)
  ultimately have run: "creat_parent pf drv junk (int i) name (int ei) (int ed) True nfs = commit_and_sync drv ?st"
    by (simp only:)
  have new': "cstr (de_name e) \<notin> fst ` set (dir_list (bytes ?d) ?ino)" using new e(3) by simp
  have ed32: "ed < 32" using data_block_addr(5) [OF lay ed(1)] .
  have cap: "bm_cap (data_bp nfs) = 32" "bm_cap (dirty_data_bp nfs) = 32" using tab by simp_all
  have fr: "fresh_ptr ?s (data_bp nfs) ?q" using ed by (auto simp: fresh_ptr_def simp del: of_nat_add)
  have dp: "data_ptr ?s ?db ?q" using ed ed32 cap by (auto simp: data_ptr_def bm_bit_set simp del: of_nat_add)
  have db: "\<And>k. k < 32 \<Longrightarrow> bm_bit (data_bp nfs) k \<Longrightarrow> bm_bit ?db k" "length ?db = 1" "length ?ddb = 1"
    "\<And>k. k < 32 \<Longrightarrow> \<not> bm_bit ?ddb k \<Longrightarrow> \<not> bm_bit (dirty_data_bp nfs) k"
    "\<forall>k < nat (num_data ?s). \<not> bm_bit ?ddb k \<Longrightarrow> ?db = data_bp nfs"
    using ed ed32 cap tab by (auto simp: bm_bit_set tables_ok_def)
  have "fs_ok ?st \<and> abs_of ?st =
      (abs_of nfs)(i \<mapsto> Dir (dir_list (bytes ?d) ?ino @ [(cstr (de_name e), de_inum e)]))"
    using entry_state_ok [OF ok al ty n(1,2) new' pf(7) [OF e(1,2)] d' st _ fr dp db refl] n(3) by blast
  moreover have "free_blocks ?st = filter (\<lambda>j. j \<noteq> ed) (free_blocks nfs)"
    using free_blocks_set [OF _ layout_counts(2) [OF lay] ed32, of ?st] tab by (simp add: tables_ok_def)
  ultimately show ?thesis
    unfolding run entry_in_def using d' e by (intro exI [of _ ?st]) simp
qed

lemma creat_parent_free:
  assumes ok: "fs_ok nfs" and al: "alloc nfs i" and ty: "i_type (inodes nfs ! i) = UFS_DIRECTORY"
    and n: "n = dir_size (inodes nfs ! i)" "n < 128 * DIRECT_PTRS" "n mod 128 \<noteq> 0"
    and name: "terminated name" "length (cstr name) \<le> 27"
    and new: "cstr name \<notin> fst ` set (dir_list (bytes (fs_disk nfs)) (inodes nfs ! i))"
    and ei: "alloc nfs ei"
  shows "\<exists>nfs2. creat_parent pf drv junk (int i) name (int ei) edv False nfs = commit_and_sync drv nfs2 \<and>
     entry_in nfs i name ei (free_blocks nfs) nfs2"
proof -
  let ?s = "fs_s nfs" and ?d = "fs_disk nfs" and ?ino = "inodes nfs ! i" and ?k = "n div 128"
  let ?dib = "bm_set (dirty_inode_bp nfs) i" and ?q = "i_direct (inodes nfs ! i) ! (n div 128)"
  have wf: "fs_wf (bytes ?d) (lim ?d) nfs" using ok by (simp add: fs_ok_def)
  then have tab: "tables_ok nfs" by (simp add: fs_wf_def)
  note pf = parent_facts [OF ok al ty n(1,2) ei]
  obtain d' e where r: "creat_insert pf drv junk name (int ei) (i_direct ?ino) ?d = Ok d'"
    and d': "dok d'" "lim d' = lim ?d"
    and e: "de_inum e = int ei" "terminated (de_name e)" "cstr (de_name e) = cstr name"
    and st: "entry_stored (bytes ?d) (bytes d') ?s ?q (n mod 128) e"
    using creat_free_ok [OF ok al ty n(1,3) name pf(5), of junk] by blast
  let ?st = "nfs\<lparr>fs_disk := d', dirty_inode_bp := ?dib, data_bp := data_bp nfs, dirty_data_bp := dirty_data_bp nfs,
      inodes := (inodes nfs)[i := ?ino\<lparr>i_size := int (32 * Suc n), i_direct := (i_direct ?ino)[?k := ?q]\<rparr>]\<rparr>"
  let ?r = "nfs\<lparr>dirty_inode_bp := ?dib, fs_disk := d', inodes := (inodes nfs)[i := ?ino\<lparr>i_size := int (32 * Suc n)\<rparr>]\<rparr>"
  have "?r = ?st" by (rule ufs.equality) simp_all
  moreover have "creat_parent pf drv junk (int i) name (int ei) edv False nfs = commit_and_sync drv ?r"
    using pf(2,3,6) r by (simp add: creat_parent_def upd_inode_eq)
  ultimately have run: "creat_parent pf drv junk (int i) name (int ei) edv False nfs = commit_and_sync drv ?st"
    by (simp only:)
  have q: "data_ptr ?s (data_bp nfs) ?q"
    using fs_wfD(2) [OF wf al] dir_first_free(1,2) [OF dir_wf_ok(1) [OF wf al ty] n(1,3)] by blast
  have new': "cstr (de_name e) \<notin> fst ` set (dir_list (bytes ?d) ?ino)" using new e(3) by simp
  have fr: "n mod 128 = 0 \<Longrightarrow> fresh_ptr ?s (data_bp nfs) ?q" using n(3) by simp
  have db: "length (data_bp nfs) = 1" "length (dirty_data_bp nfs) = 1"
    using tab by (simp_all add: tables_ok_def)
  note es = entry_state_ok [OF ok al ty n(1,2) new' pf(7) [OF e(1,2)] d' st _ fr q _ db _ _ refl]
  have "fs_ok ?st" by (rule es(1)) (assumption | rule refl)+
  moreover have "abs_of ?st = (abs_of nfs)(i \<mapsto> Dir (dir_list (bytes ?d) ?ino @ [(cstr (de_name e), de_inum e)]))"
    by (rule es(2)) (assumption | rule refl)+
  moreover have "free_blocks ?st = free_blocks nfs" by (rule free_blocks_same) simp_all
  ultimately show ?thesis
    unfolding run entry_in_def using d' e by (intro exI [of _ ?st]) simp
qed

lemma creat_parent_ok:
  assumes ok: "fs_ok nfs" and al: "alloc nfs i" and ty: "i_type (inodes nfs ! i) = UFS_DIRECTORY"
    and n: "n = dir_size (inodes nfs ! i)" "n < 128 * DIRECT_PTRS"
    and name: "terminated name" "length (cstr name) \<le> 27"
    and new: "cstr name \<notin> fst ` set (dir_list (bytes (fs_disk nfs)) (inodes nfs ! i))"
    and ei: "alloc nfs ei"
    and sp: "n mod 128 = 0 \<Longrightarrow> edv = int ed \<and> ed < nat (num_data (fs_s nfs)) \<and> \<not> bm_bit (data_bp nfs) ed"
  shows "\<exists>nfs'. creat_parent pf drv junk (int i) name (int ei) edv (n mod 128 = 0) nfs = Ok (0, nfs') \<and>
     done_with nfs ((abs_of nfs)(i \<mapsto>
       Dir (dir_list (bytes (fs_disk nfs)) (inodes nfs ! i) @ [(cstr name, int ei)]))) nfs' \<and>
     free_blocks nfs' = (if n mod 128 = 0 then filter (\<lambda>j. j \<noteq> ed) (free_blocks nfs) else free_blocks nfs)"
proof -
  let ?fb = "if n mod 128 = 0 then filter (\<lambda>j. j \<noteq> ed) (free_blocks nfs) else free_blocks nfs"
  obtain nfs2 where 2: "creat_parent pf drv junk (int i) name (int ei) edv (n mod 128 = 0) nfs = commit_and_sync drv nfs2"
    "entry_in nfs i name ei ?fb nfs2"
    using creat_parent_full [OF ok al ty n _ name new ei, of ed junk] creat_parent_free [OF ok al ty n _ name new ei, of junk edv] sp
    by (cases "n mod 128 = 0") auto
  note en = 2(2) [unfolded entry_in_def]
  obtain nfs' where c: "commit_and_sync drv nfs2 = Ok (0, nfs')" "done_with nfs2 (abs_of nfs2) nfs'" "data_bp nfs' = data_bp nfs2"
    using commit_done [of nfs2] en by blast
  then have "free_blocks nfs' = ?fb"
    using en free_blocks_same [of nfs' nfs2] by (simp add: done_with_def)
  then show ?thesis
    using c(1,2) 2(1) done_with_trans [of nfs2 nfs] en by auto
qed

section \<open>The new node\<close>

lemma new_node_ok:
  assumes ok: "fs_ok nfs" and ei: "ei < nat (num_inodes (fs_s nfs))" "\<not> alloc nfs ei"
    and d': "dok d'" "lim d' = lim (fs_disk nfs)"
      "\<And>p. data_ptr (fs_s nfs) (data_bp nfs) p \<Longrightarrow> agree (bytes (fs_disk nfs)) (bytes d') (unat p)"
      "\<And>x. x < DR (fs_s nfs) * UFS_BLOCK_SIZE \<Longrightarrow> bytes d' x = bytes (fs_disk nfs) x"
    and new: "inode_typed new" "node_wf (bytes d') (nat (num_inodes (fs_s nfs))) (bm_set (inode_bp nfs) ei) new"
      "\<And>k. k < DIRECT_PTRS \<Longrightarrow> i_direct new ! k \<noteq> - 1 \<Longrightarrow>
         fresh_ptr (fs_s nfs) (data_bp nfs) (i_direct new ! k) \<and> data_ptr (fs_s nfs) db (i_direct new ! k)"
      "\<And>k l. k < DIRECT_PTRS \<Longrightarrow> l < DIRECT_PTRS \<Longrightarrow> i_direct new ! k \<noteq> - 1 \<Longrightarrow>
         i_direct new ! k = i_direct new ! l \<Longrightarrow> k = l"
    and db: "\<And>k. k < 32 \<Longrightarrow> bm_bit (data_bp nfs) k \<Longrightarrow> bm_bit db k" "length db = 1" "length ddb = 1"
      "\<And>k. k < 32 \<Longrightarrow> \<not> bm_bit ddb k \<Longrightarrow> \<not> bm_bit (dirty_data_bp nfs) k"
      "\<forall>k < nat (num_data (fs_s nfs)). \<not> bm_bit ddb k \<Longrightarrow> db = data_bp nfs"
    and nfs': "nfs' = nfs\<lparr>fs_disk := d', inode_bp := bm_set (inode_bp nfs) ei,
        dirty_inode_bp := bm_set (dirty_inode_bp nfs) ei, data_bp := db, dirty_data_bp := ddb,
        inodes := (inodes nfs)[ei := new]\<rparr>"
  shows "fs_ok nfs'" and "abs_of nfs' = (abs_of nfs)(ei \<mapsto> node_of (bytes d') new)"
proof -
  let ?s = "fs_s nfs" and ?d = "fs_disk nfs"
  have wf: "fs_wf (bytes ?d) (lim ?d) nfs" using ok by (simp add: fs_ok_def)
  then have lay: "layout_ok ?s (lim ?d)" and tab: "tables_ok nfs" by (simp_all add: fs_wf_def)
  have ei32: "ei < 32" using layout_counts(1) [OF lay] ei(1) by simp
  have cap: "bm_cap (dirty_inode_bp nfs) = 32" "bm_cap (inode_bp nfs) = 32" using tab by simp_all
  have tab': "tables_ok nfs'"
    using tab new(1) db(2,3) by (auto simp: nfs' tables_ok_def dest: set_update_subset_insert [THEN subsetD])
  have frame: "agree_ptrs (bytes ?d) (bytes d') (inodes nfs ! j)" if "alloc nfs j" for j
    using fs_wfD(2) [OF wf that] d'(3) by (simp add: agree_ptrs_def)
  have up: "fs_s nfs' = ?s" "inodes nfs' = (inodes nfs)[ei := new]"
    "node_wf (bytes d') (nat (num_inodes ?s)) (inode_bp nfs') new"
    using new(2) by (simp_all add: nfs')
  have bits: "\<And>j. j < 32 \<Longrightarrow> bm_bit (inode_bp nfs') j \<longleftrightarrow> j = ei \<or> bm_bit (inode_bp nfs) j"
    "\<And>k. k < 32 \<Longrightarrow> bm_bit (data_bp nfs) k \<Longrightarrow> bm_bit (data_bp nfs') k"
    using db(1) cap ei32 by (simp_all add: nfs' bm_bit_set)
  have ptr: "alloc nfs ei \<and> i_direct new ! k = i_direct (inodes nfs ! ei) ! k \<or>
      fresh_ptr ?s (data_bp nfs) (i_direct new ! k) \<and> data_ptr ?s (data_bp nfs') (i_direct new ! k)"
    if "k < 30" "i_direct new ! k \<noteq> - 1" for k
    using new(3) [OF that] by (simp add: nfs')
  note pn = put_node [OF wf ei(1) up(1) tab' up(2) bits ptr new(4) frame up(3)]
  have cs: "clean_synced (bytes d') nfs'"
  proof (rule inode_synced [OF _ lay ei(1) up(1,2)])
    show "clean_synced (bytes ?d) nfs" using ok by (simp add: fs_ok_def)
  qed (use d' db(4,5) ei32 cap in \<open>auto simp: nfs' bm_bit_set\<close>)
  show "fs_ok nfs'"
    using pn cs d' by (simp add: fs_ok_def nfs')
  show "abs_of nfs' = (abs_of nfs)(ei \<mapsto> node_of (bytes d') new)"
    using pn(2) by (simp add: abs_of_def nfs')
qed

end

text \<open>A block with two entries and nothing else is the directory of a new node.\<close>

lemma new_dir_wf:
  assumes "i_size new = 64" and "i_direct new = (replicate DIRECT_PTRS (- 1))[0 := q]" and "q \<noteq> - 1"
    and "ent_at c (unat q) 0 = e0" "ent_at c (unat q) 1 = e1"
    and "\<And>j. 1 < j \<Longrightarrow> j < 128 \<Longrightarrow> de_inum (ent_at c (unat q) j) = - 1"
    and "entry_wf n ib e0" "entry_wf n ib e1" "cstr (de_name e0) \<noteq> cstr (de_name e1)"
  shows "dir_wf c n ib new"
    and "dir_list c new = [(cstr (de_name e0), de_inum e0), (cstr (de_name e1), de_inum e1)]"
proof -
  have sz: "dir_size new = 2" by (simp add: dir_size_def assms(1))
  have sl: "slot c (i_direct new) j = ent_at c (unat q) j" if "j < 128" for j
    using that by (simp add: slot_def assms(2))
  have up: "[0..<2] = [0, Suc 0]" by (simp add: numeral_2_eq_2)
  show dl: "dir_list c new = [(cstr (de_name e0), de_inum e0), (cstr (de_name e1), de_inum e1)]"
    using assms(4,5) by (simp add: dir_list_slot sz up sl)
  have "i_direct new ! k \<noteq> - 1 \<longleftrightarrow> 128 * k < 2" if "k < 30" for k
    using that assms(3) by (cases k) (auto simp: assms(2))
  moreover have "entry_wf n ib (slot c (i_direct new) j)" if "j < 2" for j
    using that assms(4,5,7,8) sl by (auto simp: less_2_cases_iff)
  moreover have "de_inum (slot c (i_direct new) j) = - 1" if "2 \<le> j" "128 * (j div 128) < 2" for j
  proof -
    have "j div 128 = 0" using that(2) by (cases "j div 128") auto
    then have "j < 128" by (simp add: div_eq_0_iff)
    then show ?thesis using that(1) assms(6) sl by simp
  qed
  ultimately show "dir_wf c n ib new"
    using assms(9) by (simp add: dir_wf_def sz dl) (simp add: assms(1))
qed


text \<open>The node \<open>ufs_creat\<close> makes, and the blocks it needs for it and for the parent's entry.\<close>

definition new_node :: "int \<Rightarrow> nat \<Rightarrow> nat \<Rightarrow> node" where
  "new_node typ ei i = (if typ = UFS_DIRECTORY then Dir [([46], int ei), ([46, 46], int i)]
     else if typ = UFS_REGULAR_FILE then File [] else Other)"

definition blocks_needed :: "int \<Rightarrow> nat \<Rightarrow> nat" where
  "blocks_needed typ n = (if typ = UFS_DIRECTORY then 1 else 0) + (if n mod 128 = 0 then 1 else 0)"

text \<open>The inode \<open>ei\<close> after the allocation, with no block yet.\<close>

definition with_inode :: "nat \<Rightarrow> int \<Rightarrow> 'd ufs \<Rightarrow> 'd ufs" where
  "with_inode ei typ nfs = nfs\<lparr>inode_bp := bm_set (inode_bp nfs) ei, dirty_inode_bp := bm_set (dirty_inode_bp nfs) ei,
     inodes := (inodes nfs)[ei := (inodes nfs ! ei)\<lparr>i_type := typ, i_direct := replicate 30 (- 1)\<rparr>]\<rparr>"

lemma with_inode_simps [simp]:
  "fs_s (with_inode ei typ nfs) = fs_s nfs" "fs_disk (with_inode ei typ nfs) = fs_disk nfs"
  "data_bp (with_inode ei typ nfs) = data_bp nfs" "dirty_data_bp (with_inode ei typ nfs) = dirty_data_bp nfs"
  "inode_bp (with_inode ei typ nfs) = bm_set (inode_bp nfs) ei"
  "dirty_inode_bp (with_inode ei typ nfs) = bm_set (dirty_inode_bp nfs) ei"
  "inodes (with_inode ei typ nfs) = (inodes nfs)[ei := (inodes nfs ! ei)\<lparr>i_type := typ, i_direct := replicate 30 (- 1)\<rparr>]"
  by (simp_all add: with_inode_def)

lemma with_inode_disk: "(with_inode ei typ nfs)\<lparr>fs_disk := d\<rparr> = with_inode ei typ (nfs\<lparr>fs_disk := d\<rparr>)"
  by (rule ufs.equality) (simp_all add: with_inode_def)

lemma take_new_inode:
  assumes "tables_ok nfs" and "ei < 32" and "ei < length (inodes nfs)"
  shows "bindr (take_inode (int ei) nfs) (\<lambda>nfs. bindr (upd_inode (int ei) (\<lambda>ino.
      ino\<lparr>i_type := typ, i_direct := replicate DIRECT_PTRS (- 1)\<rparr>) nfs) f) = f (with_inode ei typ nfs)"
  using take_inode_eq [OF assms(1,2)] assms(3) by (simp add: upd_inode_eq with_inode_def)

lemma with_inode_tables:
  assumes "tables_ok nfs" and "ei < length (inodes nfs)" and "is_int32 typ"
  shows "tables_ok (with_inode ei typ nfs)"
proof -
  have "inode_typed (inodes nfs ! ei)" using assms(1,2) by (simp add: tables_ok_def)
  then show ?thesis
    using assms(1,3) by (auto simp: tables_ok_def inode_typed_def dest!: set_update_subset_insert [THEN subsetD])
qed

context ufs_rw
begin

lemma abs_dir:
  "alloc nfs i \<Longrightarrow> i_type (inodes nfs ! i) = UFS_DIRECTORY \<Longrightarrow>
   abs_of nfs i = Some (Dir (dir_list (bytes (fs_disk nfs)) (inodes nfs ! i)))"
  by (simp add: abs_of_def fs_abs_def node_of_def)

lemma abs_dirD:
  assumes "abs_of nfs i = Some (Dir l)"
  shows "alloc nfs i" "i_type (inodes nfs ! i) = UFS_DIRECTORY"
    "dir_list (bytes (fs_disk nfs)) (inodes nfs ! i) = l"
  using assms by (auto simp: abs_of_def fs_abs_def node_of_def split: if_splits)

lemma fs_ok_same:
  assumes "fs_ok nfs" and "same (fs_disk nfs) d'"
  shows "fs_ok (nfs\<lparr>fs_disk := d'\<rparr>)" and "abs_of (nfs\<lparr>fs_disk := d'\<rparr>) = abs_of nfs"
    and "done_with (nfs\<lparr>fs_disk := d'\<rparr>) a nfs' \<longleftrightarrow> done_with nfs a nfs'"
proof -
  have al: "alloc (nfs\<lparr>fs_disk := d'\<rparr>) j = alloc nfs j" for j
    by (simp add: alloc_def)
  show "fs_ok (nfs\<lparr>fs_disk := d'\<rparr>)"
    using assms by (simp add: fs_ok_def same_def fs_wf_def tables_ok_def ptrs_wf_def al clean_synced_def)
  show "abs_of (nfs\<lparr>fs_disk := d'\<rparr>) = abs_of nfs"
    using assms by (intro ext) (simp add: abs_of_def same_def fs_abs_def al)
  show "done_with (nfs\<lparr>fs_disk := d'\<rparr>) a nfs' \<longleftrightarrow> done_with nfs a nfs'"
    using assms(2) by (simp add: done_with_def same_def)
qed

text \<open>The block that the directory case writes: two entries and 126 free ones.\<close>

lemma new_dir_stored:
  assumes lay: "layout_ok s L" and ed: "ed < nat (num_data s)" "\<not> bm_bit db ed"
    and e: "dir_ent_typed e0" "dir_ent_typed e1"
    and st: "stored d ((DR s + ed) * 4096) (enc_dir_block (e0 # e1 # free_ents junk 2 128)) d'"
  shows "ent_at (bytes d') (DR s + ed) 0 = e0" "ent_at (bytes d') (DR s + ed) 1 = e1"
    "\<And>j. 1 < j \<Longrightarrow> j < 128 \<Longrightarrow> de_inum (ent_at (bytes d') (DR s + ed) j) = - 1"
    "\<And>p. data_ptr s db p \<Longrightarrow> agree (bytes d) (bytes d') (unat p)"
    "\<And>x. x < DR s * 4096 \<Longrightarrow> bytes d' x = bytes d x"
proof -
  let ?es = "e0 # e1 # free_ents junk 2 128" and ?b = "DR s + ed"
  have es: "\<forall>x \<in> set ?es. dir_ent_typed x" "length ?es = 128"
    using e free_ents_typed [of junk 2 128] by simp_all
  have d': "bytes d' = wr (bytes d) (?b * 4096) (enc_dir_block ?es)"
    using st by (simp add: stored_def)
  have at: "ent_at (bytes d') ?b j = ?es ! j" if "j < 128" for j
    unfolding d' using es that by (intro ent_at_wr_block) simp_all
  show "ent_at (bytes d') ?b 0 = e0" "ent_at (bytes d') ?b 1 = e1"
    using at [of 0] at [of 1] by simp_all
  show "de_inum (ent_at (bytes d') ?b j) = - 1" if "1 < j" "j < 128" for j
    using that at [of j] free_ents_typed [of junk 2 128] nth_mem [of "j - 2" "free_ents junk 2 128"]
    by (simp add: nth_Cons')
  have fr: "fresh_ptr s db (of_nat ?b)" using ed by (auto simp: fresh_ptr_def simp del: of_nat_add)
  show "agree (bytes d) (bytes d') (unat p)" if "data_ptr s db p" for p
    using fresh_not_data [OF lay fr that] data_ptr_unat [OF lay ed(1)] es
      agree_wr [of ?b "?b * 4096" "enc_dir_block ?es" "unat p" "bytes d"] by (simp add: d')
  show "bytes d' x = bytes d x" if "x < DR s * 4096" for x
    using that by (simp add: d' wr_apply_out)
qed

text \<open>The directory case up to the parent: a directory block for \<open>ei\<close>.\<close>

lemma new_dir_state:
  assumes ok: "fs_ok nfs" and ei: "ei < nat (num_inodes (fs_s nfs))" "\<not> alloc nfs ei" and i: "alloc nfs i"
    and ed: "ed < nat (num_data (fs_s nfs))" "\<not> bm_bit (data_bp nfs) ed"
    and q: "q = (of_nat (DR (fs_s nfs) + ed) :: u32)"
    and st: "stored (fs_disk nfs) ((DR (fs_s nfs) + ed) * 4096) (enc_dir_block (e0 # e1 # free_ents junk 2 128)) d'"
    and e0: "dir_ent_typed e0" "de_inum e0 = int ei" "terminated (de_name e0)" "cstr (de_name e0) = [46]"
    and e1: "dir_ent_typed e1" "de_inum e1 = int i" "terminated (de_name e1)" "cstr (de_name e1) = [46, 46]"
    and new: "new = (inodes nfs ! ei)\<lparr>i_type := UFS_DIRECTORY, i_size := 64, i_direct := (replicate 30 (- 1))[0 := q]\<rparr>"
    and nfs2: "nfs2 = nfs\<lparr>fs_disk := d', inode_bp := bm_set (inode_bp nfs) ei, dirty_inode_bp := bm_set (dirty_inode_bp nfs) ei,
      data_bp := bm_set (data_bp nfs) ed, dirty_data_bp := bm_set (dirty_data_bp nfs) ed, inodes := (inodes nfs)[ei := new]\<rparr>"
  shows "fs_ok nfs2 \<and> abs_of nfs2 = (abs_of nfs)(ei \<mapsto> new_node UFS_DIRECTORY ei i)"
proof -
  let ?s = "fs_s nfs" and ?d = "fs_disk nfs"
  have wf: "fs_wf (bytes ?d) (lim ?d) nfs" using ok by (simp add: fs_ok_def)
  then have lay: "layout_ok ?s (lim ?d)" and tab: "tables_ok nfs" by (simp_all add: fs_wf_def)
  have ei32: "ei < 32" and eil: "ei < length (inodes nfs)"
    using layout_counts(1) [OF lay] ei(1) tab by (auto simp: tables_ok_def)
  have ed32: "ed < 32" using data_block_addr(5) [OF lay ed(1)] .
  have cap: "bm_cap (data_bp nfs) = 32" "bm_cap (dirty_data_bp nfs) = 32" "bm_cap (inode_bp nfs) = 32"
    using tab by simp_all
  have d': "dok d'" "lim d' = lim ?d" using st by (simp_all add: stored_def)
  note blk = new_dir_stored [OF lay ed e0(1) e1(1) st]
  have fr: "fresh_ptr ?s (data_bp nfs) q" using ed by (auto simp: q fresh_ptr_def simp del: of_nat_add)
  have dp: "data_ptr ?s (bm_set (data_bp nfs) ed) q"
    using ed ed32 cap by (auto simp: q data_ptr_def bm_bit_set simp del: of_nat_add)
  have ib: "bm_bit (bm_set (inode_bp nfs) ei) j \<longleftrightarrow> j = ei \<or> bm_bit (inode_bp nfs) j" if "j < 32" for j
    using ei32 that cap by (simp add: bm_bit_set)
  have iN: "i < nat (num_inodes ?s)" "bm_bit (inode_bp nfs) i" using i by (simp_all add: alloc_def)
  have ew: "entry_wf (nat (num_inodes ?s)) (bm_set (inode_bp nfs) ei) e0"
    "entry_wf (nat (num_inodes ?s)) (bm_set (inode_bp nfs) ei) e1"
    using e0 e1 ei iN ib [of ei] ib [of i] ei32 fs_wfD(6) [OF wf i] by (simp_all add: entry_wf_def)
  have dir: "dir_wf (bytes d') (nat (num_inodes ?s)) (bm_set (inode_bp nfs) ei) new"
    "dir_list (bytes d') new = [([46], int ei), ([46, 46], int i)]"
    using new_dir_wf [of new q "bytes d'" e0 e1, OF _ _ data_ptr_ok(2) [OF lay dp] _ _ _ ew] blk(1-3) e0 e1
      data_ptr_unat [OF lay ed(1)] by (simp_all add: new q)
  have a: "inode_typed new"
    using tab eil by (auto simp: new tables_ok_def inode_typed_def is_int32_def UFS_DIRECTORY_def)
  have b: "node_wf (bytes d') (nat (num_inodes ?s)) (bm_set (inode_bp nfs) ei) new"
    using dir(1) by (simp add: new node_wf_def UFS_DIRECTORY_def UFS_REGULAR_FILE_def)
  have c: "fresh_ptr ?s (data_bp nfs) (i_direct new ! k) \<and> data_ptr ?s (bm_set (data_bp nfs) ed) (i_direct new ! k)"
    if "k < 30" "i_direct new ! k \<noteq> - 1" for k
    using that fr dp by (cases k) (auto simp: new)
  have e: "k = l" if "k < 30" "l < 30" "i_direct new ! k \<noteq> - 1" "i_direct new ! k = i_direct new ! l" for k l
    using that by (cases k; cases l) (auto simp: new)
  have db: "\<And>k. k < 32 \<Longrightarrow> bm_bit (data_bp nfs) k \<Longrightarrow> bm_bit (bm_set (data_bp nfs) ed) k"
    "length (bm_set (data_bp nfs) ed) = 1" "length (bm_set (dirty_data_bp nfs) ed) = 1"
    "\<And>k. k < 32 \<Longrightarrow> \<not> bm_bit (bm_set (dirty_data_bp nfs) ed) k \<Longrightarrow> \<not> bm_bit (dirty_data_bp nfs) k"
    "\<forall>k < nat (num_data ?s). \<not> bm_bit (bm_set (dirty_data_bp nfs) ed) k \<Longrightarrow> bm_set (data_bp nfs) ed = data_bp nfs"
    using ed ed32 cap tab by (auto simp: bm_bit_set tables_ok_def)
  have "node_of (bytes d') new = new_node UFS_DIRECTORY ei i"
    using dir(2) by (simp add: new node_of_def new_node_def)
  then show ?thesis
    using new_node_ok [OF ok ei d' blk(4,5) a b c e db nfs2] by simp
qed

lemma creat_new_dir:
  assumes ok: "fs_ok nfs" and ei: "ei < nat (num_inodes (fs_s nfs))" "\<not> alloc nfs ei" and i: "alloc nfs i"
    and ed: "ed < nat (num_data (fs_s nfs))" "\<not> bm_bit (data_bp nfs) ed"
  shows "\<exists>nfs'. creat_dir_block pf drv junk (int i) (int ei) (int ed) (with_inode ei UFS_DIRECTORY nfs) = Ok nfs' \<and>
      fs_ok nfs' \<and> abs_of nfs' = (abs_of nfs)(ei \<mapsto> new_node UFS_DIRECTORY ei i) \<and> fs_s nfs' = fs_s nfs \<and>
      lim (fs_disk nfs') = lim (fs_disk nfs) \<and> data_bp nfs' = bm_set (data_bp nfs) ed"
proof -
  let ?s = "fs_s nfs" and ?d = "fs_disk nfs" and ?nfs1 = "with_inode ei UFS_DIRECTORY nfs"
  let ?new = "(inodes nfs ! ei)\<lparr>i_type := UFS_DIRECTORY, i_size := 64, i_direct := (replicate 30 (- 1))[0 := of_nat (DR ?s + ed)]\<rparr>"
  have wf: "fs_wf (bytes ?d) (lim ?d) nfs" and dok: "dok ?d" using ok by (simp_all add: fs_ok_def)
  then have lay: "layout_ok ?s (lim ?d)" and tab: "tables_ok nfs" by (simp_all add: fs_wf_def)
  have ei32: "ei < 32" and eil: "ei < length (inodes nfs)"
    using layout_counts(1) [OF lay] ei(1) tab by (auto simp: tables_ok_def)
  have tab1: "tables_ok ?nfs1" by (rule with_inode_tables [OF tab eil]) (simp add: is_int32_def UFS_DIRECTORY_def)
  obtain d' e0 e1 where r: "creat_dir_block pf drv junk (int i) (int ei) (int ed) ?nfs1 =
      Ok (?nfs1\<lparr>fs_disk := d', data_bp := bm_set (data_bp nfs) ed, dirty_data_bp := bm_set (dirty_data_bp nfs) ed,
         inodes := (inodes nfs)[ei := ?new]\<rparr>)"
    and st: "stored ?d ((DR ?s + ed) * 4096) (enc_dir_block (e0 # e1 # free_ents junk 2 128)) d'"
    and e: "dir_ent_typed e0" "de_inum e0 = int ei" "terminated (de_name e0)" "cstr (de_name e0) = [46]"
      "dir_ent_typed e1" "de_inum e1 = int i" "terminated (de_name e1)" "cstr (de_name e1) = [46, 46]"
    using creat_dir_block_ok [of ?nfs1 ed ei "int i" junk] tab1 dok lay ed(1) eil ei32 fs_wfD(6) [OF wf i]
    by (auto simp: is_int32_def simp del: of_nat_add)
  note 2 = new_dir_state [OF ok ei i ed refl st e refl refl]
  moreover have "nfs\<lparr>fs_disk := d', inode_bp := bm_set (inode_bp nfs) ei, dirty_inode_bp := bm_set (dirty_inode_bp nfs) ei,
      data_bp := bm_set (data_bp nfs) ed, dirty_data_bp := bm_set (dirty_data_bp nfs) ed, inodes := (inodes nfs)[ei := ?new]\<rparr> =
      ?nfs1\<lparr>fs_disk := d', data_bp := bm_set (data_bp nfs) ed, dirty_data_bp := bm_set (dirty_data_bp nfs) ed,
         inodes := (inodes nfs)[ei := ?new]\<rparr>"
    by (rule ufs.equality) (simp_all add: with_inode_def)
  ultimately show ?thesis
    using r st by (auto simp: stored_def)
qed

text \<open>The file case up to the parent.\<close>

lemma creat_new_file:
  assumes ok: "fs_ok nfs" and ei: "ei < nat (num_inodes (fs_s nfs))" "\<not> alloc nfs ei"
    and ty: "typ \<noteq> UFS_DIRECTORY" "is_int32 typ"
  shows "\<exists>nfs'. upd_inode (int ei) (\<lambda>ino. ino\<lparr>i_size := 0\<rparr>) (with_inode ei typ nfs) = Ok nfs' \<and>
      fs_ok nfs' \<and> abs_of nfs' = (abs_of nfs)(ei \<mapsto> new_node typ ei i) \<and> fs_s nfs' = fs_s nfs \<and>
      lim (fs_disk nfs') = lim (fs_disk nfs) \<and> data_bp nfs' = data_bp nfs"
proof -
  let ?s = "fs_s nfs" and ?d = "fs_disk nfs"
  have wf: "fs_wf (bytes ?d) (lim ?d) nfs" and dok: "dok ?d" using ok by (simp_all add: fs_ok_def)
  then have lay: "layout_ok ?s (lim ?d)" and tab: "tables_ok nfs" by (simp_all add: fs_wf_def)
  have ei32: "ei < 32" and eil: "ei < length (inodes nfs)"
    using layout_counts(1) [OF lay] ei(1) tab by (auto simp: tables_ok_def)
  let ?new = "(inodes nfs ! ei)\<lparr>i_type := typ, i_direct := replicate 30 (- 1), i_size := 0\<rparr>"
  let ?nfs2 = "nfs\<lparr>fs_disk := ?d, inode_bp := bm_set (inode_bp nfs) ei, dirty_inode_bp := bm_set (dirty_inode_bp nfs) ei,
      data_bp := data_bp nfs, dirty_data_bp := dirty_data_bp nfs, inodes := (inodes nfs)[ei := ?new]\<rparr>"
  have typed: "inode_typed (inodes nfs ! ei)" using tab eil by (simp add: tables_ok_def)
  have a: "inode_typed ?new" using typed ty by (simp add: inode_typed_def is_int32_def)
  have b: "node_wf (bytes ?d) (nat (num_inodes ?s)) (bm_set (inode_bp nfs) ei) ?new"
    using ty by (simp add: node_wf_def file_wf_def)
  have c: "fresh_ptr ?s (data_bp nfs) (i_direct ?new ! k) \<and> data_ptr ?s (data_bp nfs) (i_direct ?new ! k)"
    if "k < 30" "i_direct ?new ! k \<noteq> - 1" for k
    using that by simp
  have e: "k = l" if "k < 30" "l < 30" "i_direct ?new ! k \<noteq> - 1" "i_direct ?new ! k = i_direct ?new ! l" for k l
    using that by simp
  have db: "length (data_bp nfs) = 1" "length (dirty_data_bp nfs) = 1"
    using tab by (simp_all add: tables_ok_def)
  have ag: "agree (bytes ?d) (bytes ?d) (unat p)" for p :: u32 by (simp add: agree_def)
  note nn = new_node_ok [OF ok ei dok refl ag refl a b c e _ db _ _ refl]
  have "fs_ok ?nfs2" by (rule nn(1)) (assumption | rule refl)+
  moreover have "abs_of ?nfs2 = (abs_of nfs)(ei \<mapsto> node_of (bytes ?d) ?new)"
    by (rule nn(2)) (assumption | rule refl)+
  moreover have "node_of (bytes ?d) ?new = new_node typ ei i"
    using ty by (simp add: node_of_def new_node_def file_bytes_def)
  moreover have "?nfs2 = nfs\<lparr>inode_bp := bm_set (inode_bp nfs) ei, dirty_inode_bp := bm_set (dirty_inode_bp nfs) ei,
      inodes := (inodes nfs)[ei := ?new]\<rparr>"
    by (rule ufs.equality) simp_all
  ultimately show ?thesis
    using eil by (intro exI [of _ ?nfs2]) (simp add: upd_inode_eq with_inode_def)
qed


section \<open>The whole operation\<close>

text \<open>The tests before the allocation, on a well-formed file system.\<close>

lemma lookup_wf:
  assumes ok: "fs_ok nfs" and dir: "abs_of nfs i = Some (Dir l)" and name: "terminated name"
  shows "\<exists>d'. ufs_lookup pf drv nfs (int i) name =
      Ok (case map_of l (cstr name) of Some k \<Rightarrow> k | None \<Rightarrow> - 1, nfs\<lparr>fs_disk := d'\<rparr>) \<and> same (fs_disk nfs) d'"
proof -
  note al = abs_dirD [OF dir]
  have wf: "fs_wf (bytes (fs_disk nfs)) (lim (fs_disk nfs)) nfs" and dok: "dok (fs_disk nfs)"
    using ok by (simp_all add: fs_ok_def)
  then have tab: "tables_ok nfs" by (simp add: fs_wf_def)
  note i = fs_wfD [OF wf al(1)]
  have b: "int i < num_inodes (fs_s nfs)" "bm_bit (inode_bp nfs) i" "i < bm_cap (inode_bp nfs)"
    using al(1) tab i(6) by (auto simp: alloc_def)
  show ?thesis
    using ufs_lookup_ok [OF dok b(1,3,2) i(5) dir_wf_ok(2) [OF wf al(1,2)] name size_law]
    unfolding al(3) .
qed

text \<open>The last part: the entry in the parent.\<close>

lemma creat_finish:
  assumes dir: "abs_of nfs i = Some (Dir l)" and len: "length l < 128 * DIRECT_PTRS" and ne: "ei \<noteq> i"
    and name: "terminated name" "length (cstr name) \<le> 27" "cstr name \<notin> fst ` set l"
    and ok2: "fs_ok nfs2" "abs_of nfs2 = (abs_of nfs)(ei \<mapsto> nd)" "fs_s nfs2 = fs_s nfs"
      "lim (fs_disk nfs2) = lim (fs_disk nfs)"
    and edv: "length l mod 128 = 0 \<Longrightarrow> edv = int ed \<and> ed < nat (num_data (fs_s nfs)) \<and> \<not> bm_bit (data_bp nfs2) ed"
  shows "\<exists>nfs'. creat_parent pf drv junk (int i) name (int ei) edv (length l mod 128 = 0) nfs2 = Ok (0, nfs') \<and>
     done_with nfs ((abs_of nfs)(ei \<mapsto> nd, i \<mapsto> Dir (l @ [(cstr name, int ei)]))) nfs' \<and>
     free_blocks nfs' = (if length l mod 128 = 0 then filter (\<lambda>j. j \<noteq> ed) (free_blocks nfs2) else free_blocks nfs2)"
proof -
  have "abs_of nfs2 i = Some (Dir l)" using ok2(2) dir ne by simp
  note al2 = abs_dirD [OF this]
  have e2: "alloc nfs2 ei"
    using ok2(2) by (metis abs_of_def fs_abs_def fun_upd_same option.distinct(1))
  have n2: "length l = dir_size (inodes nfs2 ! i)" using al2(3) length_dir_list by metis
  have "done_with nfs2 a nfs' \<longleftrightarrow> done_with nfs a nfs'" for a nfs'
    using ok2(3,4) by (simp add: done_with_def)
  moreover have "\<exists>nfs'. creat_parent pf drv junk (int i) name (int ei) edv (length l mod 128 = 0) nfs2 = Ok (0, nfs') \<and>
      done_with nfs2 ((abs_of nfs2)(i \<mapsto> Dir (dir_list (bytes (fs_disk nfs2)) (inodes nfs2 ! i) @ [(cstr name, int ei)]))) nfs' \<and>
      free_blocks nfs' = (if length l mod 128 = 0 then filter (\<lambda>j. j \<noteq> ed) (free_blocks nfs2) else free_blocks nfs2)"
    using name al2(3) edv ok2(3) len by (intro creat_parent_ok [OF ok2(1) al2(1,2) n2 _ _ _ _ e2]) auto
  ultimately show ?thesis
    unfolding al2(3) ok2(2) by blast
qed

text \<open>What the allocation does before it distinguishes the types.\<close>

lemma creat_alloc_head:
  assumes ok: "fs_ok nfs" and dir: "abs_of nfs i = Some (Dir l)" and len: "length l < 128 * DIRECT_PTRS"
    and ei: "ei < nat (num_inodes (fs_s nfs))" "\<not> alloc nfs ei"
  shows "\<exists>d1. same (fs_disk nfs) d1 \<and> (\<forall>edv edv2. creat_alloc pf drv junk (int i) typ name (int ei) edv edv2 nfs =
      (let nfs1 = with_inode ei typ (nfs\<lparr>fs_disk := d1\<rparr>) in
       if typ = UFS_DIRECTORY then
        (if edv = - 1 \<or> length l mod 128 = 0 \<and> edv2 = - 1 then Ok (- 1, nfs1)
         else bindr (creat_dir_block pf drv junk (int i) (int ei) edv nfs1) (\<lambda>nfs.
             creat_parent pf drv junk (int i) name (int ei) edv2 (length l mod 128 = 0) nfs))
       else bindr (upd_inode (int ei) (\<lambda>ino. ino\<lparr>i_size := 0\<rparr>) nfs1) (\<lambda>nfs.
         creat_parent pf drv junk (int i) name (int ei) edv (length l mod 128 = 0) nfs)))"
proof -
  let ?s = "fs_s nfs" and ?d = "fs_disk nfs"
  note al = abs_dirD [OF dir]
  have wf: "fs_wf (bytes ?d) (lim ?d) nfs" and dok: "dok ?d" using ok by (simp_all add: fs_ok_def)
  then have lay: "layout_ok ?s (lim ?d)" and tab: "tables_ok nfs" by (simp_all add: fs_wf_def)
  note i = fs_wfD [OF wf al(1)] and dw = dir_wf_ok [OF wf al(1,2)]
  have ei32: "ei < 32" and eil: "ei < length (inodes nfs)" and ne: "ei \<noteq> i"
    using layout_counts(1) [OF lay] ei tab al(1) by (auto simp: tables_ok_def)
  have n: "dir_size (inodes nfs ! i) = length l" using al(3) length_dir_list by metis
  have sz: "i_size (inodes nfs ! i) \<noteq> 122880"
    using dw(1) n len by (auto simp: dir_wf_def dir_size_def)
  obtain d1 where "pinode_full drv (i_direct (inodes nfs ! i)) ?d = Ok (length l mod 128 = 0, d1)" "same ?d d1"
    using pinode_full_ok [OF dok dw(4)] unfolding dir_full_iff [OF dw(1,3)] n by blast
  then show ?thesis
    using ne i(5) sz by (intro exI [of _ d1])
      (simp add: creat_alloc_def take_new_inode [OF tab ei32 eil] Let_def flip: with_inode_disk)
qed

lemma first_of_free:
  assumes "free_blocks nfs \<noteq> []"
  shows "first_of (free_blocks nfs) = int (hd (free_blocks nfs))"
    "hd (free_blocks nfs) < nat (num_data (fs_s nfs))" "\<not> bm_bit (data_bp nfs) (hd (free_blocks nfs))"
    "filter (\<lambda>j. j \<noteq> hd (free_blocks nfs)) (free_blocks nfs) = tl (free_blocks nfs)"
proof -
  obtain b r where f: "free_blocks nfs = b # r" using assms by (cases "free_blocks nfs") auto
  moreover have "distinct (free_blocks nfs)" by (simp add: free_blocks_def)
  ultimately show "first_of (free_blocks nfs) = int (hd (free_blocks nfs))"
    "hd (free_blocks nfs) < nat (num_data (fs_s nfs))" "\<not> bm_bit (data_bp nfs) (hd (free_blocks nfs))"
    "filter (\<lambda>j. j \<noteq> hd (free_blocks nfs)) (free_blocks nfs) = tl (free_blocks nfs)"
    using free_blocks_mem [of b nfs] by (auto simp: filter_id_conv)
qed

lemma creat_alloc_ok:
  assumes ok: "fs_ok nfs" and dir: "abs_of nfs i = Some (Dir l)" and len: "length l < 128 * DIRECT_PTRS"
    and name: "terminated name" "length (cstr name) \<le> 27" "cstr name \<notin> fst ` set l"
    and ei: "ei < nat (num_inodes (fs_s nfs))" "\<not> alloc nfs ei" and typ32: "is_int32 typ"
    and sp: "blocks_needed typ (length l) \<le> length (free_blocks nfs)"
  shows "\<exists>nfs'. creat_alloc pf drv junk (int i) typ name (int ei)
        (first_of (free_blocks nfs)) (first_of (tl (free_blocks nfs))) nfs = Ok (0, nfs') \<and>
     done_with nfs ((abs_of nfs)(ei \<mapsto> new_node typ ei i, i \<mapsto> Dir (l @ [(cstr name, int ei)]))) nfs' \<and>
     free_blocks nfs' = drop (blocks_needed typ (length l)) (free_blocks nfs)"
proof -
  let ?s = "fs_s nfs" and ?fb = "free_blocks nfs" and ?full = "length l mod 128 = 0"
  obtain d1 where d1: "same (fs_disk nfs) d1" and head: "\<forall>edv edv2. creat_alloc pf drv junk (int i) typ name (int ei) edv edv2 nfs =
      (let nfs1 = with_inode ei typ (nfs\<lparr>fs_disk := d1\<rparr>) in
       if typ = UFS_DIRECTORY then
        (if edv = - 1 \<or> ?full \<and> edv2 = - 1 then Ok (- 1, nfs1)
         else bindr (creat_dir_block pf drv junk (int i) (int ei) edv nfs1) (\<lambda>nfs.
             creat_parent pf drv junk (int i) name (int ei) edv2 ?full nfs))
       else bindr (upd_inode (int ei) (\<lambda>ino. ino\<lparr>i_size := 0\<rparr>) nfs1) (\<lambda>nfs.
         creat_parent pf drv junk (int i) name (int ei) edv ?full nfs))"
    using creat_alloc_head [OF ok dir len ei, of junk "typ" name] by blast
  define nfsd where "nfsd = nfs\<lparr>fs_disk := d1\<rparr>"
  note same = fs_ok_same [OF ok d1, folded nfsd_def]
  have eid: "ei < nat (num_inodes (fs_s nfsd))" "\<not> alloc nfsd ei" "alloc nfsd i" "fs_s nfsd = ?s" "data_bp nfsd = data_bp nfs"
    "ei \<noteq> i" "abs_of nfsd i = Some (Dir l)"
    using ei abs_dirD(1) [OF dir] dir same(2) by (auto simp: nfsd_def alloc_def)
  note fin = creat_finish [OF eid(7) len eid(6) name, unfolded same(2,3) eid(4)]
  show ?thesis
  proof (cases "typ = UFS_DIRECTORY")
    case True
    have bn: "?fb \<noteq> []" "?full \<Longrightarrow> tl ?fb \<noteq> []"
      using sp True by (cases ?fb; auto simp: blocks_needed_def)+
    note f = first_of_free [OF bn(1)]
    obtain nfs2 where 2: "creat_dir_block pf drv junk (int i) (int ei) (int (hd ?fb)) (with_inode ei typ nfsd) = Ok nfs2"
      "fs_ok nfs2" "abs_of nfs2 = (abs_of nfs)(ei \<mapsto> new_node typ ei i)" "fs_s nfs2 = ?s"
      "lim (fs_disk nfs2) = lim (fs_disk nfsd)" "data_bp nfs2 = bm_set (data_bp nfs) (hd ?fb)"
      using creat_new_dir [OF same(1) eid(1-3), of "hd ?fb" junk] f(2,3) True eid(4,5) same(2) by auto
    have "length (data_bp nfs) = 1" "nat (num_data ?s) \<le> 32"
      using ok layout_counts(2) by (auto simp: fs_ok_def fs_wf_def tables_ok_def)
    then have fb2: "free_blocks nfs2 = tl ?fb"
      using bn(1) by (intro free_blocks_take [OF _ _ _ 2(6,4)]) simp_all
    have edv: "first_of (tl ?fb) = int (hd (tl ?fb)) \<and> hd (tl ?fb) < nat (num_data ?s) \<and> \<not> bm_bit (data_bp nfs2) (hd (tl ?fb))" if ?full
      using first_of_free [of nfs2] bn(2) that fb2 2(4) by simp
    have "(if ?full then filter (\<lambda>j. j \<noteq> hd (tl ?fb)) (tl ?fb) else tl ?fb) = drop (blocks_needed typ (length l)) ?fb"
      using first_of_free(4) [of nfs2] bn(2) fb2 by (simp add: blocks_needed_def True drop_Suc)
    moreover have "\<not> (?full \<and> first_of (tl ?fb) = - 1)" using edv by auto
    ultimately show ?thesis
      using fin [OF 2(2-5) edv] 2(1) True f(1) unfolding head [rule_format] fb2 nfsd_def [symmetric] by (simp add: Let_def)
  next
    case False
    obtain nfs2 where 2: "upd_inode (int ei) (\<lambda>ino. ino\<lparr>i_size := 0\<rparr>) (with_inode ei typ nfsd) = Ok nfs2"
      "fs_ok nfs2" "abs_of nfs2 = (abs_of nfs)(ei \<mapsto> new_node typ ei i)" "fs_s nfs2 = ?s"
      "lim (fs_disk nfs2) = lim (fs_disk nfsd)" "data_bp nfs2 = data_bp nfs"
      using creat_new_file [OF same(1) eid(1,2) False typ32, of i] eid(4,5) same(2) by auto
    have fb2: "free_blocks nfs2 = ?fb" by (rule free_blocks_same [OF 2(6,4)])
    have ne: "?full \<Longrightarrow> ?fb \<noteq> []" using sp False by (auto simp: blocks_needed_def)
    have edv: "first_of ?fb = int (hd ?fb) \<and> hd ?fb < nat (num_data ?s) \<and> \<not> bm_bit (data_bp nfs2) (hd ?fb)" if ?full
      using first_of_free [OF ne [OF that]] 2(6) by simp
    have "(if ?full then filter (\<lambda>j. j \<noteq> hd ?fb) ?fb else ?fb) = drop (blocks_needed typ (length l)) ?fb"
      using ne first_of_free(4) [of nfs] False by (cases "?full") (simp_all add: blocks_needed_def drop_Suc)
    then show ?thesis
      using fin [OF 2(2-5) edv] 2(1) False unfolding head [rule_format] fb2 nfsd_def [symmetric] by (simp add: Let_def)
  qed
qed

lemma ufs_creat_tests:
  assumes ok: "fs_ok nfs" and dir: "abs_of nfs i = Some (Dir l)"
    and name: "terminated name" "length (cstr name) \<le> 27" "cstr name \<notin> fst ` set l"
    and ei: "free_inodes nfs = ei # rest"
  shows "\<exists>d0. same (fs_disk nfs) d0 \<and> ufs_creat pf drv junk nfs (int i) typ name =
     creat_alloc pf drv junk (int i) typ name (int ei) (first_of (free_blocks nfs)) (first_of (tl (free_blocks nfs)))
       (nfs\<lparr>fs_disk := d0\<rparr>)"
proof -
  let ?s = "fs_s nfs"
  note al = abs_dirD [OF dir]
  have wf: "fs_wf (bytes (fs_disk nfs)) (lim (fs_disk nfs)) nfs" using ok by (simp add: fs_ok_def)
  then have lay: "layout_ok ?s (lim (fs_disk nfs))" and tab: "tables_ok nfs" by (simp_all add: fs_wf_def)
  note i = fs_wfD [OF wf al(1)]
  have "map_of l (cstr name) = None" using name(3) by (simp add: map_of_eq_None_iff)
  then obtain d0 where lk: "ufs_lookup pf drv nfs (int i) name = Ok (- 1, nfs\<lparr>fs_disk := d0\<rparr>)" "same (fs_disk nfs) d0"
    using lookup_wf [OF ok dir name(1)] by auto
  have n32: "nat (num_inodes ?s) \<le> 32" "nat (num_data ?s) \<le> 32" using layout_counts [OF lay] by simp_all
  have ln: "length (inode_bp nfs) = 1" "length (data_bp nfs) = 1" using tab by (simp_all add: tables_ok_def)
  have f1: "find_clear get_bitmap (inode_bp nfs) 0 (nat (num_inodes ?s)) = Ok (int ei)"
    using find_clear_inodes [OF n32(1) ln(1)] ei by (simp add: free_inodes_def)
  have f2: "find_clear2 get_bitmap (data_bp nfs) 0 (nat (num_data ?s)) (- 1) (- 1) =
      Ok (first_of (free_blocks nfs), first_of (tl (free_blocks nfs)))"
    using find_clear2_data [OF n32(2) ln(2)] by (simp add: free_blocks_def Let_def)
  have g: "get_bitmap (inode_bp nfs) (int i) = Ok 1"
    using al(1) tab i(6) by (simp add: get_bitmap_eq alloc_def)
  have "int i < num_inodes ?s" using al(1) by (auto simp: alloc_def)
  then show ?thesis
    using g i(5) al(2) name(1,2) lk f1 f2 by (intro exI [of _ d0]) (simp add: ufs_creat_def arr_strlen_eq)
qed

lemma ufs_creat_ok:
  assumes ok: "fs_ok nfs" and dir: "abs_of nfs i = Some (Dir l)" and len: "length l < 128 * DIRECT_PTRS"
    and name: "terminated name" "length (cstr name) \<le> 27" "cstr name \<notin> fst ` set l"
    and ei: "free_inodes nfs = ei # rest" and typ32: "is_int32 typ"
    and sp: "blocks_needed typ (length l) \<le> length (free_blocks nfs)"
  shows "\<exists>nfs'. ufs_creat pf drv junk nfs (int i) typ name = Ok (0, nfs') \<and>
     done_with nfs ((abs_of nfs)(ei \<mapsto> new_node typ ei i, i \<mapsto> Dir (l @ [(cstr name, int ei)]))) nfs' \<and>
     free_blocks nfs' = drop (blocks_needed typ (length l)) (free_blocks nfs)"
proof -
  obtain d0 where d0: "same (fs_disk nfs) d0" "ufs_creat pf drv junk nfs (int i) typ name =
     creat_alloc pf drv junk (int i) typ name (int ei) (first_of (free_blocks nfs)) (first_of (tl (free_blocks nfs)))
       (nfs\<lparr>fs_disk := d0\<rparr>)"
    using ufs_creat_tests [OF ok dir name ei] by blast
  let ?nfs0 = "nfs\<lparr>fs_disk := d0\<rparr>"
  note s0 = fs_ok_same [OF ok d0(1)]
  have fr: "free_blocks ?nfs0 = free_blocks nfs" "alloc ?nfs0 ei = alloc nfs ei"
    by (simp_all add: free_blocks_def alloc_def)
  have e: "ei < nat (num_inodes (fs_s nfs))" "\<not> alloc nfs ei" using free_inodes_mem [of ei nfs] ei by simp_all
  have "\<exists>nfs'. creat_alloc pf drv junk (int i) typ name (int ei)
        (first_of (free_blocks ?nfs0)) (first_of (tl (free_blocks ?nfs0))) ?nfs0 = Ok (0, nfs') \<and>
     done_with ?nfs0 ((abs_of ?nfs0)(ei \<mapsto> new_node typ ei i, i \<mapsto> Dir (l @ [(cstr name, int ei)]))) nfs' \<and>
     free_blocks nfs' = drop (blocks_needed typ (length l)) (free_blocks ?nfs0)"
    using dir s0(2) e fr sp by (intro creat_alloc_ok [OF s0(1) _ len name _ _ typ32]) simp_all
  then show ?thesis
    unfolding s0(2,3) fr d0(2) by simp
qed

end

end
