(* ===== verification/UfsMount.thy ===== *)
theory UfsMount
  imports UfsCreat
begin

text \<open>
  Mounting: \<open>ufs_init\<close> reads the tables that the disk holds, so a file system that was committed
  is the same after a remount, whatever the uncleared dirty bitmaps contain.
\<close>

section \<open>Bytes that are decoded and encoded again\<close>

lemma enc_dec_int [simp]: "length bs = 4 \<Longrightarrow> enc_int (dec_int bs) = bs"
  by (simp add: enc_int_def dec_int_def le32_un_le32)

lemma concat_chunks:
  "length bs = w * n \<Longrightarrow> concat (map (\<lambda>k. take w (drop (w * k) bs)) [0..<n]) = bs"
proof (induction n arbitrary: bs)
  case (Suc n)
  have "map (\<lambda>k. take w (drop (w * k) bs)) [0..<Suc n] =
      take w bs # map (\<lambda>k. take w (drop (w * k) (drop w bs))) [0..<n]"
    by (simp add: map_upt_Suc algebra_simps del: upt_Suc)
  then show ?case
    using Suc.IH [of "drop w bs"] Suc.prems by (simp del: upt_Suc)
qed simp

lemma enc_dec_words [simp]:
  assumes "length bs = 4 * n"
  shows "enc_words (dec_words n bs) = bs"
proof -
  have "map le32 (dec_words n bs) = map (\<lambda>k. take 4 (drop (4 * k) bs)) [0..<n]"
    using assms by (simp add: dec_words_def le32_un_le32)
  then show ?thesis
    using concat_chunks [OF assms] by (simp add: enc_words_def)
qed

lemma enc_dec_inode [simp]:
  assumes "length bs = 128"
  shows "enc_inode (dec_inode bs) = bs"
proof -
  have "bs = take 4 bs @ take 4 (drop 4 bs) @ drop 8 bs"
    by (metis add_One_commute append_take_drop_id drop_drop numeral_Bit0)
  then show ?thesis
    using assms by (simp add: enc_inode_def dec_inode_def)
qed

lemma enc_dec_super [simp]:
  assumes "length bs = 40"
  shows "enc_super (dec_super bs) = bs"
proof -
  have "map enc_int (super_words (dec_super bs)) = map (\<lambda>k. take 4 (drop (4 * k) bs)) [0..<10]"
    using assms by (simp add: super_words_def dec_super_def Let_def upt_rec)
  then show ?thesis
    using concat_chunks [of bs 4 10] assms by (simp add: enc_super_def)
qed

section \<open>ufs_init\<close>

text \<open>
  \<open>ufs_init\<close> only reads, and only below the data region: the layout has to fit some bound \<open>L\<close>, not
  the bound of the driver.
\<close>

text \<open>The sizes of the bitmaps in memory follow from the super block.\<close>

lemma ufs_init_sizes:
  assumes "ufs_init pf drv junk1 junk2 d = Ok fs"
  shows "get_bitmap_sz (num_inodes (fs_s fs)) = Ok (inode_bp_sz fs)" "get_bitmap_sz (num_data (fs_s fs)) = Ok (data_bp_sz fs)"
  using assms by (auto simp: ufs_init_def Let_def split: if_splits)

context disk_reader
begin

lemma seek_read_ok:
  assumes "dok d" and "int a = blk * 4096" and "a < 2 ^ 31" and "a + n \<le> lim d" and "n < 2 ^ size_bits pf"
  shows "\<exists>d'. seek_read pf drv blk (int n) d = Ok (rd (bytes d) a n, d') \<and> same d d'"
proof -
  have i: "int32 (blk * 4096) = Ok (int a)"
    using assms(2,3) by (simp add: is_int32_def)
  obtain rc d1 where s: "dd_lseek drv (int a) d = Ok (rc, d1)" "rc \<noteq> - 1" "same d d1" "pos d1 = a"
    using seek_same [OF assms(1), of a] assms(4) by auto
  then have d1: "dok d1" "bytes d1 = bytes d" "pos d1 + n \<le> lim d1"
    using assms(4) by (simp_all add: same_def)
  obtain d2 where r: "dd_read drv n d1 = Ok (rd (bytes d1) (pos d1) n, d2)" "same d1 d2"
    using read_same [OF d1(1,3)] by blast
  have u: "nat (usize pf (int n)) = n"
    using assms(5) by (simp add: usize_def)
  show ?thesis
    using i s r d1 u same_trans [OF s(3) r(2)] by (simp add: seek_read_def)
qed

lemma ufs_init_ok:
  assumes "dok d" and "pos d = 0" and "layout_ok (dec_super (rd (bytes d) 0 sizeof_super)) L"
    and "DR (dec_super (rd (bytes d) 0 sizeof_super)) * UFS_BLOCK_SIZE \<le> lim d" and "32 \<le> size_bits pf"
  shows "\<exists>nfs. ufs_init pf drv junk1 junk2 d = Ok nfs \<and> same d (fs_disk nfs) \<and> tables_ok nfs \<and>
     synced (bytes d) nfs \<and> fs_s nfs = dec_super (rd (bytes d) 0 sizeof_super) \<and>
     inode_bp nfs = [un_le32 (rd (bytes d) (IB (fs_s nfs)) 4)] \<and>
     data_bp nfs = [un_le32 (rd (bytes d) (DB (fs_s nfs)) 4)] \<and>
     inodes nfs = map (\<lambda>k. dec_inode (rd (bytes d) (IT (fs_s nfs) k) 128)) [0..<nat (num_inodes (fs_s nfs))]"
proof -
  define s where "s = dec_super (rd (bytes d) 0 40)"
  let ?c = "bytes d" and ?n = "nat (num_inodes s)"
  have lay: "layout_ok s L" and low: "DR s * 4096 \<le> lim d" using assms(3,4) by (simp_all add: s_def)
  note pos = layout_positions(1-4,8-10) [OF lay, of 0 0] low
  have n: "?n \<le> 32" "int ?n = num_inodes s" "0 < num_inodes s" "num_inodes s \<le> 32" "0 < num_data s" "num_data s \<le> 32"
    using lay layout_counts [OF lay] by (simp_all add: layout_ok_def)
  have bsz: "get_bitmap_sz (num_inodes s) = Ok 1" "get_bitmap_sz (num_data s) = Ok 1"
    using n by (simp_all add: get_bitmap_sz_def is_int32_def)
  have big: "(2 :: nat) ^ 32 \<le> 2 ^ size_bits pf" using assms(5) by (intro power_increasing) simp_all
  have blk: "int (IB s) = inode_bitmap_addr s * 4096" "int (DB s) = data_bitmap_addr s * 4096"
    "int (IT s 0) = inode_region_addr s * 4096"
    using lay by (simp_all add: IB_def DB_def IT_def layout_ok_def)
  have end0: "IT s 0 + 128 * ?n \<le> lim d"
  proof -
    have "?n = Suc (?n - 1)" using n by simp
    moreover have "IT s (?n - 1) + 128 \<le> DR s * 4096"
      using layout_positions(4) [OF lay, of "?n - 1" 0] n by simp
    ultimately show ?thesis using pos by (simp add: IT_def)
  qed
  have p40: "pos d + 40 \<le> lim d" using assms(2) pos by simp
  obtain d1 where r1: "dd_read drv 40 d = Ok (rd ?c 0 40, d1)" "same d d1"
    using read_same [OF assms(1) p40] assms(2) by auto
  have s1: "dok d1" "bytes d1 = ?c" "lim d1 = lim d" using r1(2) by (simp_all add: same_def)
  obtain d2 where r2: "seek_read pf drv (inode_bitmap_addr s) 4 d1 = Ok (rd ?c (IB s) 4, d2)" "same d1 d2"
    using seek_read_ok [OF s1(1) blk(1), of 4 pf] s1 pos big by auto
  have s2: "dok d2" "bytes d2 = ?c" "lim d2 = lim d" using r2(2) s1 by (simp_all add: same_def)
  obtain d3 where r3: "seek_read pf drv (data_bitmap_addr s) 4 d2 = Ok (rd ?c (DB s) 4, d3)" "same d2 d3"
    using seek_read_ok [OF s2(1) blk(2), of 4 pf] s2 pos big by auto
  have s3: "dok d3" "bytes d3 = ?c" "lim d3 = lim d" using r3(2) s2 by (simp_all add: same_def)
  obtain d4 where r4: "seek_read pf drv (inode_region_addr s) (int (128 * ?n)) d3 = Ok (rd ?c (IT s 0) (128 * ?n), d4)"
    "same d3 d4"
    using seek_read_ok [OF s3(1) blk(3), of "128 * ?n" pf] s3 pos big end0 n(1) by auto
  have s4: "same d d4" using r4(2) s3 by (simp add: same_def)
  let ?nfs = "\<lparr>fs_disk = d4, fs_s = s, inode_bp = [un_le32 (rd ?c (IB s) 4)], inode_bp_sz = 1,
      data_bp = [un_le32 (rd ?c (DB s) 4)], data_bp_sz = 1,
      inodes = map (\<lambda>k. dec_inode (rd ?c (IT s k) 128)) [0..<?n],
      dirty_inode_bp = [junk1 0], dirty_data_bp = [junk2 0]\<rparr>"
  have chunk: "take 128 (drop (128 * k) (rd ?c (IT s 0) (128 * ?n))) = rd ?c (IT s k) 128" if "k < ?n" for k
    using that by (simp add: drop_rd take_rd) (simp add: IT_def add.assoc)
  have run: "ufs_init pf drv junk1 junk2 d = Ok ?nfs"
    using r1(1) r2(1) r3(1) r4(1) bsz n(2) chunk
    by (simp add: ufs_init_def Let_def dec_words_def flip: s_def)
  show ?thesis
    using run s4 n(1) by (intro exI [of _ ?nfs])
      (auto simp: tables_ok_def synced_def Let_def le32_un_le32 s_def)
qed

end

context ufs_rw
begin

text \<open>A committed file system is the same after a remount.\<close>

lemma remount_ok:
  assumes ok: "fs_ok nfs" and sy: "synced (bytes (fs_disk nfs)) nfs"
    and d: "dok d" "pos d = 0" "bytes d = bytes (fs_disk nfs)" "lim d = lim (fs_disk nfs)"
  shows "\<exists>nfs'. ufs_init pf drv junk1 junk2 d = Ok nfs' \<and> fs_ok nfs' \<and> fs_s nfs' = fs_s nfs \<and>
    inodes nfs' = inodes nfs \<and> inode_bp nfs' = inode_bp nfs \<and> data_bp nfs' = data_bp nfs \<and>
    lim (fs_disk nfs') = lim (fs_disk nfs) \<and> synced (bytes (fs_disk nfs')) nfs' \<and> abs_of nfs' = abs_of nfs"
proof -
  let ?c = "bytes (fs_disk nfs)"
  have wf: "fs_wf ?c (lim (fs_disk nfs)) nfs" using ok by (simp add: fs_ok_def)
  then have lay: "layout_ok (fs_s nfs) (lim (fs_disk nfs))" and tab: "tables_ok nfs" by (simp_all add: fs_wf_def)
  have s: "dec_super (rd ?c 0 40) = fs_s nfs"
    using sy tab by (simp add: synced_def Let_def tables_ok_def)
  obtain nfs' where r: "ufs_init pf drv junk1 junk2 d = Ok nfs'" "same d (fs_disk nfs')" "tables_ok nfs'"
    "synced (bytes d) nfs'" "fs_s nfs' = fs_s nfs"
    and t: "inode_bp nfs' = [un_le32 (rd ?c (IB (fs_s nfs)) 4)]"
      "data_bp nfs' = [un_le32 (rd ?c (DB (fs_s nfs)) 4)]"
      "inodes nfs' = map (\<lambda>k. dec_inode (rd ?c (IT (fs_s nfs) k) 128)) [0..<nat (num_inodes (fs_s nfs))]"
    using ufs_init_ok [OF d(1,2) _ _ size_law, of "lim (fs_disk nfs)" junk1 junk2] lay layout_positions(7) [OF lay, of 0 0]
    unfolding d(3,4) s by auto
  have one: "xs = [xs ! 0]" if "length xs = 1" for xs :: "u32 list"
    using that by (cases xs) auto
  have ib: "inode_bp nfs' = inode_bp nfs" "data_bp nfs' = data_bp nfs"
    using sy tab t(1,2) one [of "inode_bp nfs"] one [of "data_bp nfs"]
    by (auto simp: synced_def Let_def tables_ok_def)
  have ino: "inodes nfs' = inodes nfs"
    using sy tab t(3) by (intro nth_equalityI) (auto simp: synced_def Let_def tables_ok_def)
  have b: "bytes (fs_disk nfs') = ?c" "lim (fs_disk nfs') = lim (fs_disk nfs)" "dok (fs_disk nfs')"
    using r(2) d(3,4) by (simp_all add: same_def)
  have "clean_synced (bytes (fs_disk nfs')) nfs'"
    using r(4) b(1) d(3) by (simp add: synced_def clean_synced_def Let_def)
  moreover have "fs_wf ?c (lim (fs_disk nfs)) nfs'" "fs_abs ?c nfs' = fs_abs ?c nfs"
    using fs_tables_cong [OF wf r(3,5) ib ino] by simp_all
  ultimately show ?thesis
    using r ino ib b d(3) by (intro exI [of _ nfs']) (simp add: fs_ok_def abs_of_def)
qed

end

end
