(* ===== verification/UfsBoot.thy ===== *)
theory UfsBoot
  imports UfsMount
begin

text \<open>
  The file system behind a driver that can only read, as the kernel uses it on the initial
  ramdisk: mounting the image of a committed file system, looking up names, and reading files and
  directory entries. The layout may end beyond what the driver can read, as long as the blocks
  in use do not.
\<close>

context disk_reader
begin

definition boot_wf :: "nat \<Rightarrow> 'd ufs \<Rightarrow> bool" where
  "boot_wf L nfs \<longleftrightarrow> dok (fs_disk nfs) \<and> fs_wf (bytes (fs_disk nfs)) L nfs \<and>
     (\<forall>p. data_ptr (fs_s nfs) (data_bp nfs) p \<longrightarrow> blk_ok (lim (fs_disk nfs)) p)"

definition boot_abs :: "'d ufs \<Rightarrow> nat \<rightharpoonup> node" where
  "boot_abs nfs = fs_abs (bytes (fs_disk nfs)) nfs"

lemma boot_mount:
  fixes nfs :: "'h ufs"
  assumes wf: "fs_wf c L nfs" and sy: "synced c nfs"
    and d: "dok d" "pos d = 0" "\<And>x. x < L \<Longrightarrow> bytes d x = c x"
    and low: "DR (fs_s nfs) * UFS_BLOCK_SIZE \<le> lim d"
    and used: "\<And>p. data_ptr (fs_s nfs) (data_bp nfs) p \<Longrightarrow> blk_ok (lim d) p"
    and pf: "32 \<le> size_bits pf"
  shows "\<exists>nfs'. ufs_init pf drv junk1 junk2 d = Ok nfs' \<and> boot_wf L nfs' \<and> boot_abs nfs' = fs_abs c nfs"
proof -
  have lay: "layout_ok (fs_s nfs) L" and tab: "tables_ok nfs" using wf by (simp_all add: fs_wf_def)
  note pos = layout_positions [OF lay, of 0 0]
  have n32: "nat (num_inodes (fs_s nfs)) \<le> 32" using layout_counts(1) [OF lay] .
  have eq: "rd (bytes d) a k = rd c a k" if "a + k \<le> L" for a k
    using that d(3) by (intro rd_cong) simp
  have it: "IT (fs_s nfs) i + 128 \<le> L" if "i < nat (num_inodes (fs_s nfs))" for i
    using layout_positions(4,7) [OF lay, of i i] that n32 by simp
  have sup: "rd (bytes d) 0 40 = rd c 0 40" "rd (bytes d) (IB (fs_s nfs)) 4 = rd c (IB (fs_s nfs)) 4"
    "rd (bytes d) (DB (fs_s nfs)) 4 = rd c (DB (fs_s nfs)) 4"
    using pos by (simp_all add: eq)
  have s: "dec_super (rd (bytes d) 0 40) = fs_s nfs"
    using sy tab sup(1) by (simp add: synced_def Let_def tables_ok_def)
  obtain nfs' where r: "ufs_init pf drv junk1 junk2 d = Ok nfs'" "same d (fs_disk nfs')" "tables_ok nfs'"
    "synced (bytes d) nfs'" "fs_s nfs' = fs_s nfs"
    and t: "inode_bp nfs' = [un_le32 (rd (bytes d) (IB (fs_s nfs)) 4)]"
      "data_bp nfs' = [un_le32 (rd (bytes d) (DB (fs_s nfs)) 4)]"
      "inodes nfs' = map (\<lambda>k. dec_inode (rd (bytes d) (IT (fs_s nfs) k) 128)) [0..<nat (num_inodes (fs_s nfs))]"
    using ufs_init_ok [OF d(1,2) _ _ pf, of L junk1 junk2] lay low unfolding s by auto
  have one: "xs = [xs ! 0]" if "length xs = 1" for xs :: "u32 list"
    using that by (cases xs) auto
  have ib: "inode_bp nfs' = inode_bp nfs" "data_bp nfs' = data_bp nfs"
    using sy tab t(1,2) one [of "inode_bp nfs"] one [of "data_bp nfs"]
    by (auto simp: synced_def Let_def tables_ok_def sup)
  have ino: "inodes nfs' = inodes nfs"
    using sy tab t(3) it by (intro nth_equalityI) (auto simp: synced_def Let_def tables_ok_def eq)
  have b: "bytes (fs_disk nfs') = bytes d" "lim (fs_disk nfs') = lim d" "dok (fs_disk nfs')"
    using r(2) by (simp_all add: same_def)
  have "fs_wf (bytes d) L nfs'" "fs_abs (bytes d) nfs' = fs_abs c nfs"
    using fs_tables_cong [OF wf r(3,5) ib ino] d(3) by simp_all
  then show ?thesis
    using r(1,5) ib(2) b used by (intro exI [of _ nfs']) (simp add: boot_wf_def boot_abs_def)
qed

text \<open>Reading leaves the file system as it is.\<close>

lemma boot_same:
  assumes "boot_wf L nfs" and "same (fs_disk nfs) d'"
  shows "boot_wf L (nfs\<lparr>fs_disk := d'\<rparr>)" and "boot_abs (nfs\<lparr>fs_disk := d'\<rparr>) = boot_abs nfs"
proof -
  have al: "alloc (nfs\<lparr>fs_disk := d'\<rparr>) j = alloc nfs j" for j
    by (simp add: alloc_def)
  show "boot_wf L (nfs\<lparr>fs_disk := d'\<rparr>)"
    using assms by (simp add: boot_wf_def same_def fs_wf_def tables_ok_def ptrs_wf_def al)
  show "boot_abs (nfs\<lparr>fs_disk := d'\<rparr>) = boot_abs nfs"
    using assms by (intro ext) (simp add: boot_abs_def same_def fs_abs_def al)
qed

lemma boot_inode:
  assumes "boot_wf L nfs" and "alloc nfs i"
  shows "int i < num_inodes (fs_s nfs)" "i < bm_cap (inode_bp nfs)" "bm_bit (inode_bp nfs) i" "i < length (inodes nfs)"
    "length (i_direct (inodes nfs ! i)) = 30" "is_int32 (i_size (inodes nfs ! i))"
    "k < 30 \<Longrightarrow> i_direct (inodes nfs ! i) ! k \<noteq> - 1 \<Longrightarrow> blk_ok (lim (fs_disk nfs)) (i_direct (inodes nfs ! i) ! k)"
proof -
  have wf: "fs_wf (bytes (fs_disk nfs)) L nfs" using assms(1) by (simp add: boot_wf_def)
  note i = fs_wfD [OF wf assms(2)]
  show "int i < num_inodes (fs_s nfs)" "i < bm_cap (inode_bp nfs)" "bm_bit (inode_bp nfs) i" "i < length (inodes nfs)"
    using assms(2) wf i(5,6) by (auto simp: alloc_def fs_wf_def tables_ok_def bm_cap_length)
  show "length (i_direct (inodes nfs ! i)) = 30" "is_int32 (i_size (inodes nfs ! i))"
    using i(4) by (simp_all add: inode_typed_def)
  show "k < 30 \<Longrightarrow> i_direct (inodes nfs ! i) ! k \<noteq> - 1 \<Longrightarrow> blk_ok (lim (fs_disk nfs)) (i_direct (inodes nfs ! i) ! k)"
    using i(2) assms(1) by (simp add: boot_wf_def)
qed

lemma boot_dirD:
  assumes "boot_wf L nfs" and "boot_abs nfs i = Some (Dir l)"
  shows "alloc nfs i" "dir_ok (bytes (fs_disk nfs)) (lim (fs_disk nfs)) (inodes nfs ! i)"
    "dir_list (bytes (fs_disk nfs)) (inodes nfs ! i) = l" "i_size (inodes nfs ! i) = 32 * int (length l)"
proof -
  let ?c = "bytes (fs_disk nfs)" and ?ino = "inodes nfs ! i"
  have wf: "fs_wf ?c L nfs" using assms(1) by (simp add: boot_wf_def)
  show al: "alloc nfs i" and l: "dir_list ?c ?ino = l"
    using assms(2) by (auto simp: boot_abs_def fs_abs_def node_of_def split: if_splits)
  have ty: "i_type ?ino = UFS_DIRECTORY"
    using assms(2) al by (auto simp: boot_abs_def fs_abs_def node_of_def split: if_splits)
  note d = dir_wf_ok [OF wf al ty]
  have "blk_ok (lim (fs_disk nfs)) (i_direct ?ino ! k)" if "128 * k < dir_size ?ino" for k
  proof -
    have "k < 30" using that d(1) by (auto simp: dir_wf_def)
    then show ?thesis using that d(1) boot_inode(7) [OF assms(1) al] by (simp add: dir_wf_def)
  qed
  then show "dir_ok ?c (lim (fs_disk nfs)) ?ino"
    using d(2) by (simp add: dir_ok_def)
  have "length l = dir_size ?ino" using l by auto
  then show "i_size ?ino = 32 * int (length l)"
    using d(1) by (auto simp: dir_wf_def dir_size_def)
qed

lemma boot_lookup:
  assumes "boot_wf L nfs" and "boot_abs nfs i = Some (Dir l)" and "terminated name" and "32 \<le> size_bits pf"
  shows "\<exists>d'. ufs_lookup pf drv nfs (int i) name =
      Ok (case map_of l (cstr name) of Some k \<Rightarrow> k | None \<Rightarrow> - 1, nfs\<lparr>fs_disk := d'\<rparr>) \<and> same (fs_disk nfs) d'"
proof -
  note D = boot_dirD [OF assms(1,2)]
  have "dok (fs_disk nfs)" using assms(1) by (simp add: boot_wf_def)
  from ufs_lookup_ok [OF this boot_inode(1-4) [OF assms(1) D(1)] D(2) assms(3,4)] show ?thesis
    unfolding D(3) .
qed

text \<open>Entry \<open>j\<close> of a directory, as the kernel reads it, and the end of the directory.\<close>

lemma boot_read_entry:
  assumes "boot_wf L nfs" and "boot_abs nfs i = Some (Dir l)" and "j < length l"
  shows "\<exists>bs d'. ufs_read drv nfs (int i) (int (32 * j)) 32 = Ok (0, bs, nfs\<lparr>fs_disk := d'\<rparr>) \<and> same (fs_disk nfs) d' \<and> length bs = 32 \<and>
    cstr (de_name (dec_dir_ent bs)) = fst (l ! j) \<and> de_inum (dec_dir_ent bs) = snd (l ! j) \<and>
    terminated (de_name (dec_dir_ent bs)) \<and> snd (l ! j) \<noteq> - 1"
proof -
  let ?c = "bytes (fs_disk nfs)" and ?ino = "inodes nfs ! i"
  note D = boot_dirD [OF assms(1,2)]
  note I = boot_inode [OF assms(1) D(1)]
  have dok: "dok (fs_disk nfs)" using assms(1) by (simp add: boot_wf_def)
  have dsz: "dir_size ?ino = length l" using D(3) by auto
  have x: "(32 * j + y) div 4096 = j div 128" "(32 * j + y) mod 4096 = j mod 128 * 32 + y" if "y < 32" for y
  proof -
    have e: "32 * j + y = (j mod 128 * 32 + y) + (j div 128) * 4096"
      using div_mult_mod_eq [of j 128] by linarith
    have lt: "j mod 128 * 32 + y < 4096" using that mod_less_divisor [of 128 j] by linarith
    have "(32 * j + y) div 4096 = j div 128 + (j mod 128 * 32 + y) div 4096"
      unfolding e by (rule div_mult_self1) simp
    then show "(32 * j + y) div 4096 = j div 128" using lt by simp
    have "(32 * j + y) mod 4096 = (j mod 128 * 32 + y) mod 4096"
      unfolding e by (rule mod_mult_self1)
    then show "(32 * j + y) mod 4096 = j mod 128 * 32 + y" using lt by simp
  qed
  have jk: "128 * (j div 128) < dir_size ?ino"
    using assms(3) dsz order_le_less_trans times_div_less_eq_dividend by metis
  have bk: "x div 4096 < length (i_direct ?ino) \<and> blk_ok (lim (fs_disk nfs)) (i_direct ?ino ! (x div 4096))"
    if "32 * j \<le> x" "x < 32 * j + 32" for x
  proof -
    have "x div 4096 = j div 128" using x(1) [of "x - 32 * j"] that by simp
    moreover have "j div 128 < 30" using jk D(2) by (simp add: dir_ok_def)
    ultimately show ?thesis using jk D(2) I(5) by (simp add: dir_ok_def)
  qed
  obtain d' where r: "ufs_read drv nfs (int i) (int (32 * j)) (int 32) =
      Ok (0, map (file_byte ?c (i_direct ?ino)) [32 * j..<32 * j + 32], nfs\<lparr>fs_disk := d'\<rparr>)" "same (fs_disk nfs) d'"
    using ufs_read_ok [OF dok I(1-4,6), of 32 "32 * j"] bk D(4) assms(3) by auto
  have "map (file_byte ?c (i_direct ?ino)) [32 * j..<32 * j + 32] = rd ?c (unat (i_direct ?ino ! (j div 128)) * 4096 + j mod 128 * 32) 32"
    by (rule nth_equalityI) (simp_all add: file_byte_def x add.assoc del: upt_Suc)
  then have sl: "dec_dir_ent (map (file_byte ?c (i_direct ?ino)) [32 * j..<32 * j + 32]) = slot ?c (i_direct ?ino) j"
    by (simp add: slot_def ent_at_def mult.commute)
  have lj: "l ! j = (cstr (de_name (slot ?c (i_direct ?ino) j)), de_inum (slot ?c (i_direct ?ino) j))"
    using assms(3) dsz by (subst D(3) [symmetric]) (simp add: dir_list_slot)
  have "slot ?c (i_direct ?ino) j \<in> set (ents ?c (i_direct ?ino) (dir_size ?ino))"
    using assms(3) dsz by (simp add: ents_slot)
  then have "de_inum (slot ?c (i_direct ?ino) j) \<noteq> - 1 \<and> terminated (de_name (slot ?c (i_direct ?ino) j))"
    using D(2) by (simp add: dir_ok_def)
  moreover have "length (map (file_byte ?c (i_direct ?ino)) [32 * j..<32 * j + 32]) = 32" by simp
  ultimately show ?thesis
    using r sl lj by fastforce
qed

lemma boot_read_end:
  assumes "boot_wf L nfs" and "boot_abs nfs i = Some (Dir l)"
  shows "ufs_read drv nfs (int i) (int (32 * length l)) 32 = Ok (- 1, [], nfs)"
proof -
  note D = boot_dirD [OF assms]
  note I = boot_inode [OF assms(1) D(1)]
  have "dir_size (inodes nfs ! i) \<le> 3840" using D(2) by (simp add: dir_ok_def)
  moreover have "dir_size (inodes nfs ! i) = length l" using D(3) by auto
  ultimately have "is_int32 (32 * int (length l) + 32)" by (simp add: is_int32_def)
  then show ?thesis
    using I(1-4) D(4) by (simp add: ufs_read_def get_bitmap_eq)
qed

text \<open>Reading a file.\<close>

lemma boot_fileD:
  assumes "boot_wf L nfs" and "boot_abs nfs i = Some (File l)"
  shows "alloc nfs i" "i_type (inodes nfs ! i) = UFS_REGULAR_FILE" "i_size (inodes nfs ! i) = int (length l)"
    "file_bytes (bytes (fs_disk nfs)) (inodes nfs ! i) = l" "file_wf (inodes nfs ! i)"
proof -
  have wf: "fs_wf (bytes (fs_disk nfs)) L nfs" using assms(1) by (simp add: boot_wf_def)
  show al: "alloc nfs i" "i_type (inodes nfs ! i) = UFS_REGULAR_FILE"
    "file_bytes (bytes (fs_disk nfs)) (inodes nfs ! i) = l"
    using assms(2) by (auto simp: boot_abs_def fs_abs_def node_of_def split: if_splits)
  show "file_wf (inodes nfs ! i)" using fs_wfD(1) [OF wf al(1)] al(2) by (simp add: node_wf_def)
  then show "i_size (inodes nfs ! i) = int (length l)"
    using arg_cong [OF al(3), of length] by (auto simp: file_bytes_def file_wf_def)
qed

lemma boot_read_byte:
  assumes "boot_wf L nfs" and "boot_abs nfs i = Some (File l)" and "x < length l"
  shows "\<exists>d'. ufs_read drv nfs (int i) (int x) 1 = Ok (0, [l ! x], nfs\<lparr>fs_disk := d'\<rparr>) \<and> same (fs_disk nfs) d'"
proof -
  let ?c = "bytes (fs_disk nfs)" and ?ino = "inodes nfs ! i"
  note F = boot_fileD [OF assms(1,2)]
  note I = boot_inode [OF assms(1) F(1)]
  have dok: "dok (fs_disk nfs)" using assms(1) by (simp add: boot_wf_def)
  have "x < 30 * 4096" using assms(3) F(3,5) by (simp add: file_wf_def)
  then have k: "x div 4096 < 30" by (rule less_mult_imp_div_less)
  have "x div 4096 * 4096 < length l" using assms(3) order_le_less_trans [of "x div 4096 * 4096" x] by simp
  then have "i_direct ?ino ! (x div 4096) \<noteq> - 1" using F(3,5) k by (simp add: file_wf_def)
  then have bk: "blk_ok (lim (fs_disk nfs)) (i_direct ?ino ! (x div 4096))" using I(7) [OF k] by simp
  have "l ! x = file_byte ?c (i_direct ?ino) x"
    using assms(3) F(3) by (subst F(4) [symmetric]) (simp add: file_bytes_def)
  moreover have "\<forall>y. x \<le> y \<and> y < x + 1 \<longrightarrow> y div 4096 < length (i_direct ?ino) \<and>
      blk_ok (lim (fs_disk nfs)) (i_direct ?ino ! (y div 4096))"
    using bk k I(5) by (metis Suc_eq_plus1 le_antisym less_Suc_eq_le)
  moreover have "i_type ?ino = UFS_DIRECTORY \<longrightarrow> x mod 32 = 0"
    using F(2) by (simp add: UFS_DIRECTORY_def UFS_REGULAR_FILE_def)
  ultimately show ?thesis
    using ufs_read_ok [OF dok I(1-4,6), of 1 x] F(3) assms(3) by simp
qed

lemma boot_read_eof:
  assumes "boot_wf L nfs" and "boot_abs nfs i = Some (File l)"
  shows "ufs_read drv nfs (int i) (int (length l)) 1 = Ok (- 1, [], nfs)"
proof -
  note F = boot_fileD [OF assms]
  note I = boot_inode [OF assms(1) F(1)]
  have "length l \<le> 30 * 4096" using F(3,5) by (simp add: file_wf_def)
  then have "is_int32 (int (length l) + 1)" by (simp add: is_int32_def)
  then show ?thesis
    using I(1-4) F(3) by (simp add: ufs_read_def get_bitmap_eq)
qed

end

end
