(* ===== verification/KernelFs.thy ===== *)
theory KernelFs
  imports Interrupt UfsBoot
begin

text \<open>
  The printing of the file system at the boot, \<open>print_file\<close> and \<open>print_fs_contents\<close> of
  kernel/kernel/kernel.c, and its refinement of the text that the abstract file system stands for.
\<close>

section \<open>Code that may fail or not return\<close>

definition bindo :: "'a res option \<Rightarrow> ('a \<Rightarrow> 'b res option) \<Rightarrow> 'b res option" where
  "bindo m f = Option.bind m (\<lambda>r. case r of Ok x \<Rightarrow> f x | Err e \<Rightarrow> Some (Err e))"

lemma bindo_simps [simp]:
  "bindo (Some (Ok x)) f = f x" "bindo (Some (Err e)) f = Some (Err e)" "bindo None f = None"
  by (simp_all add: bindo_def)

lemma bindo_Ok_iff: "bindo m f = Some (Ok y) \<longleftrightarrow> (\<exists>x. m = Some (Ok x) \<and> f x = Some (Ok y))"
proof (cases m)
  case (Some r)
  then show ?thesis by (cases r) simp_all
qed simp

lemma bindo_mono [partial_function_mono]:
  assumes "mono_option B" and "\<And>y. mono_option (\<lambda>f. C y f)"
  shows "mono_option (\<lambda>f. bindo (B f) (\<lambda>y. C y f))"
proof -
  have "mono_option (\<lambda>f. case r of Ok x \<Rightarrow> C x f | Err e \<Rightarrow> Some (Err e))" for r
    using assms(2) by (cases r) (simp_all add: monotone_def fun_ord_def flat_ord_def)
  then show ?thesis unfolding bindo_def by (intro bind_mono assms(1))
qed

section \<open>print_file\<close>

text \<open>\<open>malloc\<close> on the kernel's memory.\<close>

definition kernel_malloc :: "u32 \<Rightarrow> kernel \<Rightarrow> (u32 \<times> kernel) res option" where
  "kernel_malloc sz k = bindo (malloc sz (k_vmm k)) (\<lambda>(p, v). Some (Ok (p, k\<lparr>k_vmm := v\<rparr>)))"

text \<open>What \<open>ufs_read\<close> stores at the start of a buffer.\<close>

definition buf_store :: "byte list \<Rightarrow> byte list \<Rightarrow> byte list" where
  "buf_store bs buf = bs @ drop (length bs) buf"

text \<open>The loop over the bytes; \<open>c\<close> is the allocated byte. It ends since \<open>offset\<close> grows up to the largest \<open>int\<close>.\<close>

function print_bytes ::
    "'x fpu \<Rightarrow> 'd disk_driver \<Rightarrow> int \<Rightarrow> byte list \<Rightarrow> int \<Rightarrow> 'd ufs \<Rightarrow> kernel \<Rightarrow> ('d ufs \<times> kernel) res" where
  "print_bytes fpu drv inode_num c offset fs k =
     bindr (int32 (offset + 1)) (\<lambda>offset'.
     bindr (ufs_read drv fs inode_num offset 1) (\<lambda>(rc, bs, fs).
     if rc = 0
     then bindr (arr_get (buf_store bs c) 0) (\<lambda>b.
       bindr (kprintf fpu (cbytes ''%c'') [Word32 (scast b)] k) (\<lambda>k.
       print_bytes fpu drv inode_num (buf_store bs c) offset' fs k))
     else Ok (fs, k)))"
  by pat_completeness auto
termination
  by (relation "measure (\<lambda>(fpu, drv, i, c, offset, fs, k). nat (2 ^ 31 - offset))") (auto simp: int32_def is_int32_def split: if_splits)

declare print_bytes.simps [simp del]

definition print_file ::
    "'x fpu \<Rightarrow> 'd disk_driver \<Rightarrow> (nat \<Rightarrow> byte) \<Rightarrow> 'd ufs \<Rightarrow> int \<Rightarrow> kernel \<Rightarrow> ('d ufs \<times> kernel) res option" where
  "print_file fpu drv junk fs inode_num k =
     bindo (Some (kprintf fpu (cbytes [CHR 0x0A]) [] k)) (\<lambda>k.
     bindo (Some (kprintf fpu (cbytes (''contents of file (inode no. %d): '' @ [CHR 0x0A] @ ''    '')) [Word32 (of_int inode_num)] k)) (\<lambda>k.
     bindo (kernel_malloc 1 k) (\<lambda>(p, k).
     bindo (Some (print_bytes fpu drv inode_num (rd junk 0 1) 0 fs k)) (\<lambda>(fs, k).
     bindo (Some (kprintf fpu (cbytes [CHR 0x0A]) [] k)) (\<lambda>k.
     Some (Ok (fs, k)))))))"

section \<open>print_fs_contents\<close>

text \<open>
  The first loop. \<open>et\<close> is the local struct, as its bytes, and \<open>at\<close> its address.
\<close>

function print_entries ::
    "'x fpu \<Rightarrow> 'd disk_driver \<Rightarrow> u32 \<Rightarrow> int \<Rightarrow> byte list \<Rightarrow> int \<Rightarrow> 'd ufs \<Rightarrow> kernel \<Rightarrow> (byte list \<times> 'd ufs \<times> kernel) res" where
  "print_entries fpu drv at inode_num et offset fs k =
     bindr (ufs_read drv fs inode_num offset 32) (\<lambda>(rc, bs, fs).
     let et = buf_store bs et in
     if rc = 0
     then bindr (int32 (offset + 32)) (\<lambda>offset'.
       if de_inum (dec_dir_ent et) = - 1 then Ok (et, fs, k)
       else bindr (kprintf fpu (cbytes ''(%d, %s),  '') [Word32 (of_int (de_inum (dec_dir_ent et))), Str at (de_name (dec_dir_ent et))] k) (\<lambda>k.
         print_entries fpu drv at inode_num et offset' fs k))
     else Ok (et, fs, k))"
  by pat_completeness auto
termination
  by (relation "measure (\<lambda>(fpu, drv, at, i, et, offset, fs, k). nat (2 ^ 31 - offset))") (auto simp: int32_def is_int32_def split: if_splits)

declare print_entries.simps [simp del]

text \<open>The function up to the second loop.\<close>

definition print_listing ::
    "'x fpu \<Rightarrow> 'd disk_driver \<Rightarrow> u32 \<Rightarrow> (nat \<Rightarrow> byte) \<Rightarrow> 'd ufs \<Rightarrow> int \<Rightarrow> kernel \<Rightarrow> (byte list \<times> 'd ufs \<times> kernel) res" where
  "print_listing fpu drv at junk fs inode_num k =
     bindr (kprintf fpu (cbytes [CHR 0x0A]) [] k) (\<lambda>k.
     bindr (kprintf fpu (cbytes (''contents of directory (inode no. %d) [fmt: (inode no., name)]: '' @ [CHR 0x0A] @ ''    ''))
       [Word32 (of_int inode_num)] k) (\<lambda>k.
     bindr (print_entries fpu drv at inode_num (rd junk 0 32) 0 fs k) (\<lambda>(et, fs, k).
     bindr (kprintf fpu (cbytes [CHR 0x0A]) [] k) (\<lambda>k. Ok (et, fs, k)))))"

text \<open>
  The second loop, which calls the function for every entry whose name begins with a d. A cycle of
  such directories makes it run forever.
\<close>

partial_function (option) print_children ::
    "'x fpu \<Rightarrow> 'd disk_driver \<Rightarrow> u32 \<Rightarrow> (nat \<Rightarrow> byte) \<Rightarrow> int \<Rightarrow> byte list \<Rightarrow> int \<Rightarrow> 'd ufs \<Rightarrow> kernel \<Rightarrow> ('d ufs \<times> kernel) res option" where
  "print_children fpu drv at junk inode_num et offset fs k =
     bindo (Some (ufs_read drv fs inode_num offset 32)) (\<lambda>(rc, bs, fs).
     let et = buf_store bs et; e = dec_dir_ent et in
     if rc = 0
     then bindo (Some (int32 (offset + 32))) (\<lambda>offset.
       if de_inum e = - 1 then Some (Ok (fs, k))
       else bindo (Some (arr_get (de_name e) 0)) (\<lambda>c.
         if c = ch CHR ''d''
         then bindo (Some (print_listing fpu drv at junk fs (de_inum e) k)) (\<lambda>(et', fs, k).
           bindo (print_children fpu drv at junk (de_inum e) et' 0 fs k) (\<lambda>(fs, k).
           print_children fpu drv at junk inode_num et offset fs k))
         else bindo (Some (arr_strcmp (de_name e) dot)) (\<lambda>c1.
           bindo (if c1 = 0 then Some (Ok (0 :: int)) else Some (arr_strcmp (de_name e) dotdot)) (\<lambda>c2.
           bindo (if c1 \<noteq> 0 \<and> c2 \<noteq> 0 then print_file fpu drv junk fs (de_inum e) k else Some (Ok (fs, k))) (\<lambda>(fs, k).
           print_children fpu drv at junk inode_num et offset fs k)))))
     else Some (Ok (fs, k)))"

definition print_fs_contents ::
    "'x fpu \<Rightarrow> 'd disk_driver \<Rightarrow> u32 \<Rightarrow> (nat \<Rightarrow> byte) \<Rightarrow> 'd ufs \<Rightarrow> int \<Rightarrow> kernel \<Rightarrow> ('d ufs \<times> kernel) res option" where
  "print_fs_contents fpu drv at junk fs inode_num k =
     bindo (Some (print_listing fpu drv at junk fs inode_num k)) (\<lambda>(et, fs, k).
     print_children fpu drv at junk inode_num et 0 fs k)"

section \<open>The text of an abstract file system\<close>

definition num_text :: "int \<Rightarrow> byte list" where
  "num_text i = text_of (Conv_d (of_int i))"

definition file_text :: "int \<Rightarrow> byte list \<Rightarrow> byte list" where
  "file_text i b = map of_char ([CHR 0x0A] @ ''contents of file (inode no. '') @ num_text i @
     map of_char (''): '' @ [CHR 0x0A] @ ''    '') @ b @ [10]"

definition entry_text :: "byte list \<times> int \<Rightarrow> byte list" where
  "entry_text = (\<lambda>(nm, i). map of_char ''('' @ num_text i @ map of_char '', '' @ nm @ map of_char ''),  '')"

definition listing_text :: "int \<Rightarrow> (byte list \<times> int) list \<Rightarrow> byte list" where
  "listing_text i l = map of_char ([CHR 0x0A] @ ''contents of directory (inode no. '') @ num_text i @
     map of_char ('') [fmt: (inode no., name)]: '' @ [CHR 0x0A] @ ''    '') @ concat (map entry_text l) @ [10]"

definition d_name :: "byte list \<Rightarrow> bool" where
  "d_name nm \<longleftrightarrow> take 1 nm = map of_char ''d''"

text \<open>
  The text, and the number of files in it: None when a name that begins with a d is not a
  directory or another one is not a file, or the directories are more than \<open>n\<close> deep.
\<close>

definition child_text ::
    "(nat \<Rightarrow> (byte list \<times> nat) option) \<Rightarrow> (nat \<rightharpoonup> node) \<Rightarrow> byte list \<times> int \<Rightarrow> (byte list \<times> nat) option" where
  "child_text tx fs = (\<lambda>(nm, k).
     if d_name nm then tx (nat k)
     else if nm = cstr dot \<or> nm = cstr dotdot then Some ([], 0)
     else (case fs (nat k) of Some (File b) \<Rightarrow> Some (file_text k b, 1) | _ \<Rightarrow> None))"

primrec dir_text :: "nat \<Rightarrow> (nat \<rightharpoonup> node) \<Rightarrow> nat \<Rightarrow> (byte list \<times> nat) option" where
  "dir_text 0 fs i = None"
| "dir_text (Suc n) fs i = (case fs i of Some (Dir l) \<Rightarrow>
       if list_all (\<lambda>(nm, k). 0 \<le> k \<and> k < 2 ^ 31) l
       then (case those (map (child_text (dir_text n fs) fs) l) of
           None \<Rightarrow> None
         | Some ts \<Rightarrow> Some (listing_text (int i) l @ concat (map fst ts), sum_list (map snd ts)))
       else None
     | _ \<Rightarrow> None)"

section \<open>Output with growth of the heap\<close>

definition heap_pages :: "nat \<Rightarrow> kernel \<Rightarrow> bool" where
  "heap_pages n k \<longleftrightarrow> (\<exists>t. heap_ok t n (k_vmm k))"

text \<open>\<open>k'\<close> is \<open>k\<close> after the output of \<open>s\<close> and the allocation of \<open>j\<close> pages.\<close>

definition outputs :: "byte list \<Rightarrow> nat \<Rightarrow> kernel \<Rightarrow> kernel \<Rightarrow> bool" where
  "outputs s j k k' \<longleftrightarrow> k' = k\<lparr>k_tty := k_tty k', k_vmm := k_vmm k'\<rparr> \<and> shown s (k_tty k) (k_tty k') \<and>
     (\<forall>n. heap_pages n k \<longrightarrow> heap_pages (n + j) k')"

lemma outputs_ok: "outputs s j k k' \<Longrightarrow> term_ok (k_tty k')"
  by (auto simp: outputs_def dest: shown_ok)

lemma outputs_heap: "outputs s j k k' \<Longrightarrow> heap_pages n k \<Longrightarrow> heap_pages (n + j) k'"
  by (simp add: outputs_def)

lemma outputs_prints:
  assumes "prints s k k'"
  shows "outputs s 0 k k'"
proof -
  obtain t where "k' = k\<lparr>k_tty := t\<rparr>" using assms unfolding prints_def by blast
  then show ?thesis using assms by (simp add: outputs_def prints_def heap_pages_def)
qed

lemma outputs_append:
  assumes "outputs s i k k'" and "outputs u j k' k''"
  shows "outputs (s @ u) (i + j) k k''"
proof -
  obtain t v t' v' where "k' = k\<lparr>k_tty := t, k_vmm := v\<rparr>" "k'' = k'\<lparr>k_tty := t', k_vmm := v'\<rparr>"
    using assms unfolding outputs_def by blast
  then show ?thesis using assms by (auto simp: outputs_def add.assoc [symmetric] intro: shown_append)
qed

lemma kernel_malloc_page:
  assumes "heap_pages n k" and "n < 1024" and "0 < sz" and "sz \<le> 4096" and "term_ok (k_tty k)"
  shows "\<exists>p k'. kernel_malloc (of_nat sz) k = Some (Ok (p, k')) \<and> outputs [] 1 k k'"
proof -
  obtain t where t: "heap_ok t n (k_vmm k)" using assms(1) by (auto simp: heap_pages_def)
  have sz: "unat (of_nat sz :: u32) = sz" using assms(4) by (simp add: unat_of_nat)
  obtain v m where v: "malloc (of_nat sz) (k_vmm k) = Some (Ok (of_nat (n * 4096), v))" "heap_ok t m v" "m * 4096 = page_up (n * 4096 + sz)"
    using malloc_heap [OF t, of "of_nat sz"] assms(2,4) sz by auto
  have "m = n + 1"
    using v(3) page_up_bounds [of "n * 4096 + sz"] assms(3,4) by linarith
  moreover have "n' = n" if "heap_pages n' k" for n'
    using that t by (auto simp: heap_pages_def heap_ok_def)
  ultimately show ?thesis
    using v(1,2) assms(5) by (auto simp: kernel_malloc_def outputs_def heap_pages_def shown_Nil)
qed

section \<open>The pieces of the output\<close>

lemma length_num_text: "length (num_text i) \<le> 12"
proof -
  have "length (raw_text (sint (of_int i :: u32)) 10 False False) \<le> 12"
    by (intro length_raw_text) (simp_all add: a_base_def)
  then show ?thesis
    using length_takeWhile_le [of "\<lambda>c. c \<noteq> 0" "raw_text (sint (of_int i :: u32)) 10 False False"] by (simp add: num_text_def cstr_def)
qed

lemma number_ok: "0 \<le> i \<Longrightarrow> i < 2 ^ 31 \<Longrightarrow> piece_ok (Conv_d (of_int i))"
  by (simp add: sint_of_int32 is_int32_def)

lemma prints_char:
  assumes "term_ok (k_tty k)"
  shows "\<exists>k'. kprintf fpu (cbytes ''%c'') [Word32 (scast b)] k = Ok k' \<and> prints [b] k k'"
proof -
  have "(ucast (scast b :: u32) :: byte) = b"
  proof (rule bit_eqI)
    fix n assume "possible_bit TYPE(byte) n"
    then consider "n < 7" | "n = 7" by fastforce
    then show "bit (ucast (scast b :: u32) :: byte) n = bit b n" by cases (simp_all add: bit_simps)
  qed
  then show ?thesis
    using kprintf_pieces [OF assms, of "[Conv_c (scast b)]" "cbytes ''%c''" "[Word32 (scast b)]" fpu]
    by (simp add: cbytes_def)
qed

text \<open>A message with one number.\<close>

lemma prints_number:
  assumes "term_ok (k_tty k)" and "0 \<le> i" and "i < 2 ^ 31"
    and "length s + length u < 2 ^ 30" and "0 \<notin> set s \<union> set u" and "37 \<notin> set s \<union> set u"
    and "fmt = s @ map of_char ''%d'' @ u @ [0]"
  shows "\<exists>k'. kprintf fpu fmt [Word32 (of_int i)] k = Ok k' \<and> prints (s @ num_text i @ u) k k'"
  using kprintf_pieces [OF assms(1), of "[Lit s, Conv_d (of_int i), Lit u]" fmt "[Word32 (of_int i)]" fpu]
    number_ok [OF assms(2,3)] length_num_text [of i] assms(4-)
  by (simp add: num_text_def)

lemma prints_entry:
  assumes "term_ok (k_tty k)" and "0 \<le> i" and "i < 2 ^ 31" and "terminated nm" and "length nm \<le> 28"
  shows "\<exists>k'. kprintf fpu (cbytes ''(%d, %s),  '') [Word32 (of_int i), Str at nm] k = Ok k' \<and> prints (entry_text (cstr nm, i)) k k'"
proof -
  let ?ps = "[Lit (map of_char ''(''), Conv_d (of_int i), Lit (map of_char '', ''), Conv_s at nm, Lit (map of_char ''),  '')]"
  have "length (cstr nm) \<le> 28" using assms(5) length_takeWhile_le [of "\<lambda>c. c \<noteq> 0" nm] by (simp add: cstr_def)
  then have "length (concat (map text_of ?ps)) < 2 ^ 31" using length_num_text [of i] by (simp add: num_text_def)
  moreover have "\<forall>p \<in> set ?ps. piece_ok p" using assms(4) number_ok [OF assms(2,3)] by simp
  ultimately show ?thesis
    using kprintf_pieces [OF assms(1), of ?ps "cbytes ''(%d, %s),  ''" "[Word32 (of_int i), Str at nm]" fpu]
    by (simp add: cbytes_def entry_text_def num_text_def)
qed

section \<open>Reading from a mounted file system\<close>

context disk_reader
begin

text \<open>The file system after some reads.\<close>

definition boot_read :: "nat \<Rightarrow> 'd ufs \<Rightarrow> 'd ufs \<Rightarrow> bool" where
  "boot_read L fs fs' \<longleftrightarrow> boot_wf L fs' \<and> boot_abs fs' = boot_abs fs"

lemma print_bytes_ok:
  assumes "boot_wf L fs" and "boot_abs fs i = Some (File b)" and "x \<le> length b" and "term_ok (k_tty k)"
  shows "\<exists>fs' k'. print_bytes fpu drv (int i) c (int x) fs k = Ok (fs', k') \<and> boot_read L fs fs' \<and> prints (drop x b) k k'"
  using assms
proof (induction "length b - x" arbitrary: x c fs k)
  case 0
  then have x: "x = length b" by simp
  note F = boot_fileD [OF 0(2,3)]
  have "length b \<le> 30 * 4096" using F(3,5) by (simp add: file_wf_def)
  then have "is_int32 (int (length b) + 1)" by (simp add: is_int32_def)
  then show ?case
    using 0 boot_read_eof [OF 0(2,3)] x
    by (subst print_bytes.simps) (simp add: boot_read_def prints_def shown_Nil)
next
  case (Suc m)
  then have x: "x < length b" and m: "m = length b - Suc x" by simp_all
  note F = boot_fileD [OF Suc.prems(1,2)]
  have "length b \<le> 30 * 4096" using F(3,5) by (simp add: file_wf_def)
  then have i32: "is_int32 (int x + 1)" using x by (simp add: is_int32_def)
  obtain d' where d': "ufs_read drv fs (int i) (int x) 1 = Ok (0, [b ! x], fs\<lparr>fs_disk := d'\<rparr>)" "same (fs_disk fs) d'"
    using boot_read_byte [OF Suc.prems(1,2) x] by blast
  note same = boot_same [OF Suc.prems(1) d'(2)]
  obtain k1 where k1: "kprintf fpu (cbytes ''%c'') [Word32 (scast (b ! x))] k = Ok k1" "prints [b ! x] k k1"
    using prints_char [OF Suc.prems(4)] by blast
  obtain fs' k' where r: "print_bytes fpu drv (int i) (buf_store [b ! x] c) (int (Suc x)) (fs\<lparr>fs_disk := d'\<rparr>) k1 = Ok (fs', k')"
    "boot_read L (fs\<lparr>fs_disk := d'\<rparr>) fs'" "prints (drop (Suc x) b) k1 k'"
    using Suc.hyps(1) [OF m same(1) _ _ prints_ok [OF k1(2)], of "buf_store [b ! x] c"] x same(2) Suc.prems(2) by auto
  have "drop x b = [b ! x] @ drop (Suc x) b" using x by (simp add: Cons_nth_drop_Suc)
  then have "prints (drop x b) k k'" using prints_append [OF k1(2) r(3)] by simp
  moreover have "print_bytes fpu drv (int i) c (int x) fs k = Ok (fs', k')"
    using i32 d'(1) k1(1) r(1) by (subst print_bytes.simps) (simp add: buf_store_def arr_get_def add.commute)
  ultimately show ?case using r(2) same(2) by (auto simp: boot_read_def)
qed

lemma print_file_ok:
  assumes "boot_wf L fs" and "boot_abs fs i = Some (File b)" and "i < 2 ^ 31" and "term_ok (k_tty k)"
    and "heap_pages n k" and "n < 1024"
  shows "\<exists>fs' k'. print_file fpu drv junk fs (int i) k = Some (Ok (fs', k')) \<and> boot_read L fs fs' \<and> outputs (file_text (int i) b) 1 k k'"
proof -
  obtain k1 where k1: "kprintf fpu (cbytes [CHR 0x0A]) [] k = Ok k1" "prints [10] k k1"
    using kprintf_message [OF assms(4), of "[CHR 0x0A]" fpu] by auto
  obtain k2 where k2: "kprintf fpu (cbytes (''contents of file (inode no. %d): '' @ [CHR 0x0A] @ ''    '')) [Word32 (of_int (int i))] k1 = Ok k2"
    "prints (map of_char ''contents of file (inode no. '' @ num_text (int i) @ map of_char (''): '' @ [CHR 0x0A] @ ''    '')) k1 k2"
    using prints_number [OF prints_ok [OF k1(2)], of "int i" "map of_char ''contents of file (inode no. ''"
        "map of_char (''): '' @ [CHR 0x0A] @ ''    '')" "cbytes (''contents of file (inode no. %d): '' @ [CHR 0x0A] @ ''    '')" fpu] assms(3)
    by (auto simp: cbytes_def)
  have h: "heap_pages n k2" using assms(5) prints_same [OF k1(2)] prints_same [OF k2(2)] by (simp add: heap_pages_def)
  obtain p k3 where k3: "kernel_malloc 1 k2 = Some (Ok (p, k3))" "outputs [] 1 k2 k3"
    using kernel_malloc_page [OF h assms(6), of 1] prints_ok [OF k2(2)] by auto
  obtain fs' k4 where k4: "print_bytes fpu drv (int i) (rd junk 0 1) (int 0) fs k3 = Ok (fs', k4)" "boot_read L fs fs'" "prints (drop 0 b) k3 k4"
    using print_bytes_ok [OF assms(1,2) _ outputs_ok [OF k3(2)], of 0] by blast
  obtain k5 where k5: "kprintf fpu (cbytes [CHR 0x0A]) [] k4 = Ok k5" "prints [10] k4 k5"
    using kprintf_message [OF prints_ok [OF k4(3)], of "[CHR 0x0A]" fpu] by auto
  have "print_file fpu drv junk fs (int i) k = Some (Ok (fs', k5))"
    using k1(1) k2(1) k3(1) k4(1) k5(1) by (simp add: print_file_def)
  moreover have "outputs (file_text (int i) b) 1 k k5"
    using outputs_append [OF outputs_prints [OF prints_append [OF k1(2) k2(2)]]
        outputs_append [OF k3(2) outputs_prints [OF prints_append [OF k4(3) k5(2)]]]]
    by (simp add: file_text_def)
  ultimately show ?thesis using k4(2) by blast
qed

text \<open>One step of either loop over the entries of a directory.\<close>

lemma read_entry:
  assumes "boot_wf L fs" and "boot_abs fs i = Some (Dir l)" and "j < length l" and "length et = 32"
  shows "\<exists>bs fs'. ufs_read drv fs (int i) (int (32 * j)) 32 = Ok (0, bs, fs') \<and> boot_read L fs fs' \<and> buf_store bs et = bs \<and>
    length bs = 32 \<and> l ! j = (cstr (de_name (dec_dir_ent bs)), de_inum (dec_dir_ent bs)) \<and>
    terminated (de_name (dec_dir_ent bs)) \<and> length (de_name (dec_dir_ent bs)) \<le> 28 \<and> de_inum (dec_dir_ent bs) \<noteq> - 1 \<and>
    is_int32 (int (32 * j) + 32)"
proof -
  obtain bs d' where r: "ufs_read drv fs (int i) (int (32 * j)) 32 = Ok (0, bs, fs\<lparr>fs_disk := d'\<rparr>)" "same (fs_disk fs) d'"
    "length bs = 32" "cstr (de_name (dec_dir_ent bs)) = fst (l ! j)" "de_inum (dec_dir_ent bs) = snd (l ! j)"
    "terminated (de_name (dec_dir_ent bs))" "snd (l ! j) \<noteq> - 1"
    using boot_read_entry [OF assms(1-3)] by blast
  note D = boot_dirD [OF assms(1,2)]
  have "length l \<le> 3840" using D(2,3) by (auto simp: dir_ok_def)
  then have "is_int32 (int (32 * j) + 32)" using assms(3) by (simp add: is_int32_def)
  moreover have "boot_read L fs (fs\<lparr>fs_disk := d'\<rparr>)"
    using boot_same [OF assms(1) r(2)] by (simp add: boot_read_def)
  ultimately show ?thesis
    using r assms(4) by (intro exI [of _ bs] exI [of _ "fs\<lparr>fs_disk := d'\<rparr>"])
      (simp add: buf_store_def dec_dir_ent_def prod_eq_iff)
qed

lemma print_entries_ok:
  assumes "boot_wf L fs" and "boot_abs fs i = Some (Dir l)" and "j \<le> length l" and "list_all (\<lambda>(nm, k). 0 \<le> k \<and> k < 2 ^ 31) l"
    and "length et = 32" and "term_ok (k_tty k)"
  shows "\<exists>et' fs' k'. print_entries fpu drv at (int i) et (int (32 * j)) fs k = Ok (et', fs', k') \<and> length et' = 32 \<and>
    boot_read L fs fs' \<and> prints (concat (map entry_text (drop j l))) k k'"
  using assms
proof (induction "length l - j" arbitrary: j et fs k)
  case 0
  then have "j = length l" by simp
  then show ?case
    using 0 boot_read_end [OF 0(2,3)]
    by (subst print_entries.simps) (simp add: boot_read_def prints_def shown_Nil buf_store_def)
next
  case (Suc m)
  then have j: "j < length l" and m: "m = length l - Suc j" by simp_all
  obtain bs fs1 where r: "ufs_read drv fs (int i) (int (32 * j)) 32 = Ok (0, bs, fs1)" "boot_read L fs fs1" "buf_store bs et = bs"
    "length bs = 32" "l ! j = (cstr (de_name (dec_dir_ent bs)), de_inum (dec_dir_ent bs))"
    "terminated (de_name (dec_dir_ent bs))" "length (de_name (dec_dir_ent bs)) \<le> 28" "de_inum (dec_dir_ent bs) \<noteq> - 1"
    "is_int32 (int (32 * j) + 32)"
    using read_entry [OF Suc.prems(1,2) j Suc.prems(5)] by blast
  have range: "0 \<le> de_inum (dec_dir_ent bs)" "de_inum (dec_dir_ent bs) < 2 ^ 31"
    using Suc.prems(4) j r(5) by (auto simp: list_all_length)
  obtain k1 where k1: "kprintf fpu (cbytes ''(%d, %s),  '') [Word32 (of_int (de_inum (dec_dir_ent bs))), Str at (de_name (dec_dir_ent bs))] k = Ok k1"
    "prints (entry_text (l ! j)) k k1"
    using prints_entry [OF Suc.prems(6) range r(6,7)] r(5) by auto
  have wf: "boot_wf L fs1" "boot_abs fs1 i = Some (Dir l)" using r(2) Suc.prems(2) by (simp_all add: boot_read_def)
  obtain et' fs' k' where q: "print_entries fpu drv at (int i) bs (int (32 * Suc j)) fs1 k1 = Ok (et', fs', k')" "length et' = 32"
    "boot_read L fs1 fs'" "prints (concat (map entry_text (drop (Suc j) l))) k1 k'"
    using Suc.hyps(1) [OF m wf _ Suc.prems(4) r(4) prints_ok [OF k1(2)]] j by auto
  have "drop j l = l ! j # drop (Suc j) l" using j by (simp add: Cons_nth_drop_Suc)
  then have "prints (concat (map entry_text (drop j l))) k k'" using prints_append [OF k1(2) q(4)] by simp
  moreover have "print_entries fpu drv at (int i) et (int (32 * j)) fs k = Ok (et', fs', k')"
    using r(1,3,8,9) k1(1) q(1) by (subst print_entries.simps) (simp add: Let_def add.commute)
  ultimately show ?case using q(2,3) r(2) by (auto simp: boot_read_def)
qed

lemma print_listing_ok:
  assumes "boot_wf L fs" and "boot_abs fs i = Some (Dir l)" and "list_all (\<lambda>(nm, k). 0 \<le> k \<and> k < 2 ^ 31) l"
    and "i < 2 ^ 31" and "term_ok (k_tty k)"
  shows "\<exists>et fs' k'. print_listing fpu drv at junk fs (int i) k = Ok (et, fs', k') \<and> length et = 32 \<and>
    boot_read L fs fs' \<and> prints (listing_text (int i) l) k k'"
proof -
  let ?h = "cbytes (''contents of directory (inode no. %d) [fmt: (inode no., name)]: '' @ [CHR 0x0A] @ ''    '')"
  obtain k1 where k1: "kprintf fpu (cbytes [CHR 0x0A]) [] k = Ok k1" "prints [10] k k1"
    using kprintf_message [OF assms(5), of "[CHR 0x0A]" fpu] by auto
  obtain k2 where k2: "kprintf fpu ?h [Word32 (of_int (int i))] k1 = Ok k2"
    "prints (map of_char ''contents of directory (inode no. '' @ num_text (int i) @
      map of_char ('') [fmt: (inode no., name)]: '' @ [CHR 0x0A] @ ''    '')) k1 k2"
    using prints_number [OF prints_ok [OF k1(2)], of "int i" "map of_char ''contents of directory (inode no. ''"
        "map of_char ('') [fmt: (inode no., name)]: '' @ [CHR 0x0A] @ ''    '')" ?h fpu] assms(4)
    by (auto simp: cbytes_def)
  obtain et fs' k3 where k3: "print_entries fpu drv at (int i) (rd junk 0 32) (int (32 * 0)) fs k2 = Ok (et, fs', k3)" "length et = 32"
    "boot_read L fs fs'" "prints (concat (map entry_text (drop 0 l))) k2 k3"
    using print_entries_ok [OF assms(1,2) _ assms(3) _ prints_ok [OF k2(2)], of 0 "rd junk 0 32"] by simp blast
  obtain k4 where k4: "kprintf fpu (cbytes [CHR 0x0A]) [] k3 = Ok k4" "prints [10] k3 k4"
    using kprintf_message [OF prints_ok [OF k3(4)], of "[CHR 0x0A]" fpu] by auto
  have "print_listing fpu drv at junk fs (int i) k = Ok (et, fs', k4)"
    using k1(1) k2(1) k3(1) k4(1) by (simp add: print_listing_def)
  moreover have "prints (listing_text (int i) l) k k4"
    using prints_append [OF prints_append [OF k1(2) k2(2)] prints_append [OF k3(4) k4(2)]]
    by (simp add: listing_text_def)
  ultimately show ?thesis using k3(2,3) by blast
qed

text \<open>
  The second loop, when the directories below print as their texts \<open>tx\<close>; \<open>h\<close> is the number of pages
  that are mapped.
\<close>

definition dirs_printed ::
    "'x fpu \<Rightarrow> u32 \<Rightarrow> (nat \<Rightarrow> byte) \<Rightarrow> nat \<Rightarrow> (nat \<rightharpoonup> node) \<Rightarrow> (nat \<Rightarrow> (byte list \<times> nat) option) \<Rightarrow> bool" where
  "dirs_printed fpu at junk L a tx \<longleftrightarrow> (\<forall>i fs k out f h. tx (nat i) = Some (out, f) \<longrightarrow> boot_wf L fs \<longrightarrow> boot_abs fs = a \<longrightarrow>
     term_ok (k_tty k) \<longrightarrow> heap_pages h k \<longrightarrow> h + f \<le> 1024 \<longrightarrow> 0 \<le> i \<longrightarrow> i < 2 ^ 31 \<longrightarrow>
     (\<exists>fs' k'. print_fs_contents fpu drv at junk fs i k = Some (Ok (fs', k')) \<and> boot_read L fs fs' \<and> outputs out f k k'))"

lemma name_compared:
  assumes "terminated nm"
  obtains c1 c2 where "arr_strcmp nm dot = Ok c1" "c1 = 0 \<longleftrightarrow> cstr nm = cstr dot"
    "arr_strcmp nm dotdot = Ok c2" "c2 = 0 \<longleftrightarrow> cstr nm = cstr dotdot"
  using arr_strcmp_terminated [OF assms, of dot] arr_strcmp_terminated [OF assms, of dotdot]
  by (auto simp: dot_def dotdot_def terminated_def)

text \<open>One turn of the loop.\<close>

lemma print_child_ok:
  assumes sub: "dirs_printed fpu at junk L a tx" and range: "list_all (\<lambda>(nm, k). 0 \<le> k \<and> k < 2 ^ 31) l"
    and wf: "boot_wf L fs" "boot_abs fs = a" and dir: "a i = Some (Dir l)" and j: "j < length l"
    and et: "length et = 32" and tk: "term_ok (k_tty k)" and t: "child_text tx a (l ! j) = Some t"
    and heap: "heap_pages h k" "h + snd t \<le> 1024"
  shows "\<exists>bs fs2 k2. print_children fpu drv at junk (int i) et (int (32 * j)) fs k =
      print_children fpu drv at junk (int i) bs (int (32 * Suc j)) fs2 k2 \<and>
    length bs = 32 \<and> boot_read L fs fs2 \<and> outputs (fst t) (snd t) k k2"
proof -
  obtain bs fs1 where r: "ufs_read drv fs (int i) (int (32 * j)) 32 = Ok (0, bs, fs1)" "boot_read L fs fs1" "buf_store bs et = bs"
    "length bs = 32" "l ! j = (cstr (de_name (dec_dir_ent bs)), de_inum (dec_dir_ent bs))"
    "terminated (de_name (dec_dir_ent bs))" "length (de_name (dec_dir_ent bs)) \<le> 28" "de_inum (dec_dir_ent bs) \<noteq> - 1"
    "is_int32 (int (32 * j) + 32)"
    using read_entry [OF wf(1) _ j et] wf(2) dir by blast
  let ?nm = "de_name (dec_dir_ent bs)" and ?k = "de_inum (dec_dir_ent bs)"
  have "(cstr ?nm, ?k) \<in> set l" using j r(5) by (metis nth_mem)
  then have range': "0 \<le> ?k" "?k < 2 ^ 31" using range by (auto simp: list_all_iff)
  have wf1: "boot_wf L fs1" "boot_abs fs1 = a" using r(2) wf(2) by (simp_all add: boot_read_def)
  have head: "arr_get ?nm 0 = Ok (hd ?nm)" "d_name (cstr ?nm) \<longleftrightarrow> hd ?nm = ch CHR ''d''"
    using r(6) by (cases ?nm; auto simp: arr_get_def d_name_def terminated_def)+
  note unf = print_children.simps [of fpu drv at junk "int i" et "int (32 * j)" fs k]
  obtain c1 c2 where c: "arr_strcmp ?nm dot = Ok c1" "c1 = 0 \<longleftrightarrow> cstr ?nm = cstr dot"
    "arr_strcmp ?nm dotdot = Ok c2" "c2 = 0 \<longleftrightarrow> cstr ?nm = cstr dotdot"
    by (rule name_compared [OF r(6)])
  consider (dir) "d_name (cstr ?nm)" "tx (nat ?k) = Some t"
    | (dots) "\<not> d_name (cstr ?nm)" "cstr ?nm = cstr dot \<or> cstr ?nm = cstr dotdot" "t = ([], 0)"
    | (reg) b where "\<not> d_name (cstr ?nm)" "cstr ?nm \<noteq> cstr dot" "cstr ?nm \<noteq> cstr dotdot" "a (nat ?k) = Some (File b)"
      "t = (file_text ?k b, 1)"
    using t unfolding child_text_def r(5) by (auto split: if_splits option.splits node.splits)
  then have "\<exists>fs2 k2. print_children fpu drv at junk (int i) et (int (32 * j)) fs k =
      print_children fpu drv at junk (int i) bs (int (32 * Suc j)) fs2 k2 \<and> boot_read L fs1 fs2 \<and> outputs (fst t) (snd t) k k2"
  proof cases
    case dir
    obtain fs2 k2 where s: "print_fs_contents fpu drv at junk fs1 ?k k = Some (Ok (fs2, k2))" "boot_read L fs1 fs2" "outputs (fst t) (snd t) k k2"
      using sub [unfolded dirs_printed_def, rule_format, of ?k "fst t" "snd t", OF _ wf1 tk heap range'] dir(2) by auto
    obtain et' fs3 k3 where q: "print_listing fpu drv at junk fs1 ?k k = Ok (et', fs3, k3)"
      "print_children fpu drv at junk ?k et' 0 fs3 k3 = Some (Ok (fs2, k2))"
      using s(1) by (auto simp: print_fs_contents_def bindo_Ok_iff)
    have "print_children fpu drv at junk (int i) et (int (32 * j)) fs k = print_children fpu drv at junk (int i) bs (int (32 * Suc j)) fs2 k2"
      using r(1,3,8,9) head q dir by (subst unf) (simp add: Let_def add.commute)
    then show ?thesis using s(2,3) by blast
  next
    case dots
    have "print_children fpu drv at junk (int i) et (int (32 * j)) fs k = print_children fpu drv at junk (int i) bs (int (32 * Suc j)) fs1 k"
      using r(1,3,8,9) head dots c by (subst unf) (auto simp: Let_def add.commute)
    moreover have "outputs (fst t) (snd t) k k" using dots(3) tk by (simp add: outputs_def shown_Nil)
    moreover have "boot_read L fs1 fs1" using wf1 by (simp add: boot_read_def)
    ultimately show ?thesis by blast
  next
    case reg
    have "h < 1024" "nat ?k < 2 ^ 31" using heap(2) reg(5) range'(2) by simp_all
    then obtain fs2 k2 where s: "print_file fpu drv junk fs1 ?k k = Some (Ok (fs2, k2))" "boot_read L fs1 fs2" "outputs (fst t) (snd t) k k2"
      using print_file_ok [OF wf1(1), of "nat ?k" b k h fpu junk] wf1(2) reg tk heap(1) range' by auto
    have "print_children fpu drv at junk (int i) et (int (32 * j)) fs k = print_children fpu drv at junk (int i) bs (int (32 * Suc j)) fs2 k2"
      using r(1,3,8,9) head reg c s(1) by (subst unf) (simp add: Let_def add.commute)
    then show ?thesis using s(2,3) by blast
  qed
  then show ?thesis using r(2,4) by (fastforce simp: boot_read_def)
qed

lemma print_children_ok:
  assumes sub: "dirs_printed fpu at junk L a tx" and range: "list_all (\<lambda>(nm, k). 0 \<le> k \<and> k < 2 ^ 31) l"
    and dir: "a i = Some (Dir l)" and wf: "boot_wf L fs" "boot_abs fs = a" and et: "length et = 32"
    and tk: "term_ok (k_tty k)" and j: "j \<le> length l"
    and ts: "those (map (child_text tx a) (drop j l)) = Some ts"
    and heap: "heap_pages h k" "h + sum_list (map snd ts) \<le> 1024"
  shows "\<exists>fs' k'. print_children fpu drv at junk (int i) et (int (32 * j)) fs k = Some (Ok (fs', k')) \<and> boot_read L fs fs' \<and>
    outputs (concat (map fst ts)) (sum_list (map snd ts)) k k'"
  using wf et tk j ts heap
proof (induction "length l - j" arbitrary: j et fs k ts h)
  case 0
  then have "j = length l" by simp
  moreover have "boot_abs fs i = Some (Dir l)" using dir 0 by simp
  ultimately show ?case
    using 0 boot_read_end [of L fs i l]
    by (subst print_children.simps) (auto simp: boot_read_def intro: outputs_prints simp: prints_def shown_Nil)
next
  case (Suc m)
  then have j: "j < length l" and m: "m = length l - Suc j" by simp_all
  have "drop j l = l ! j # drop (Suc j) l" using j by (simp add: Cons_nth_drop_Suc)
  then obtain t ts' where t: "ts = t # ts'" "child_text tx a (l ! j) = Some t"
    "those (map (child_text tx a) (drop (Suc j) l)) = Some ts'"
    using Suc.prems(6) by (auto split: option.splits)
  obtain bs fs2 k2 where s: "print_children fpu drv at junk (int i) et (int (32 * j)) fs k =
      print_children fpu drv at junk (int i) bs (int (32 * Suc j)) fs2 k2"
    "length bs = 32" "boot_read L fs fs2" "outputs (fst t) (snd t) k k2"
    using print_child_ok [OF sub range Suc.prems(1,2) dir j Suc.prems(3,4) t(2) Suc.prems(7)] Suc.prems(8) t(1) by auto
  have h2: "heap_pages (h + snd t) k2" using outputs_heap [OF s(4) Suc.prems(7)] .
  have wf2: "boot_wf L fs2" "boot_abs fs2 = a" using s(3) Suc.prems(2) by (simp_all add: boot_read_def)
  have "h + snd t + sum_list (map snd ts') \<le> 1024" using Suc.prems(8) t(1) by simp
  then obtain fs' k' where "print_children fpu drv at junk (int i) bs (int (32 * Suc j)) fs2 k2 = Some (Ok (fs', k'))" "boot_read L fs2 fs'"
    "outputs (concat (map fst ts')) (sum_list (map snd ts')) k2 k'"
    using Suc.hyps(1) [OF m wf2 s(2) outputs_ok [OF s(4)] _ t(3) h2] j by auto
  then show ?case
    unfolding s(1) using t(1) outputs_append [OF s(4)] s(3) by (fastforce simp: boot_read_def)
qed

lemma print_fs_contents_ok:
  assumes "dir_text n a i = Some (out, f)" and "boot_wf L fs" and "boot_abs fs = a" and "term_ok (k_tty k)"
    and "heap_pages h k" and "h + f \<le> 1024" and "i < 2 ^ 31"
  shows "\<exists>fs' k'. print_fs_contents fpu drv at junk fs (int i) k = Some (Ok (fs', k')) \<and> boot_read L fs fs' \<and> outputs out f k k'"
  using assms
proof (induction n arbitrary: i out f fs k h)
  case (Suc n)
  obtain l ts where l: "a i = Some (Dir l)" "list_all (\<lambda>(nm, k). 0 \<le> k \<and> k < 2 ^ 31) l"
    and ts: "those (map (child_text (dir_text n a) a) (drop 0 l)) = Some ts"
    "out = listing_text (int i) l @ concat (map fst ts)" "f = sum_list (map snd ts)"
    using Suc.prems(1) by (auto split: option.splits node.splits if_splits)
  obtain et fs1 k1 where p: "print_listing fpu drv at junk fs (int i) k = Ok (et, fs1, k1)" "length et = 32"
    "boot_read L fs fs1" "prints (listing_text (int i) l) k k1"
    using print_listing_ok [OF Suc.prems(2) _ l(2) Suc.prems(7,4)] l(1) Suc.prems(3) by blast
  have wf1: "boot_wf L fs1" "boot_abs fs1 = a" using p(3) Suc.prems(3) by (simp_all add: boot_read_def)
  have h: "heap_pages h k1" using Suc.prems(5) prints_same [OF p(4)] by (simp add: heap_pages_def)
  have "\<exists>fs' k'. print_children fpu drv at junk (int i) et (int (32 * 0)) fs1 k1 = Some (Ok (fs', k')) \<and> boot_read L fs1 fs' \<and>
    outputs (concat (map fst ts)) (sum_list (map snd ts)) k1 k'"
  proof -
    have "dirs_printed fpu at junk L a (dir_text n a)"
      unfolding dirs_printed_def
    proof (intro allI impI)
      fix j fs k out f h
      assume "dir_text n a (nat j) = Some (out, f)" "boot_wf L fs" "boot_abs fs = a" "term_ok (k_tty k)" "heap_pages h k"
        "h + f \<le> 1024" "0 \<le> j" "j < 2 ^ 31"
      then show "\<exists>fs' k'. print_fs_contents fpu drv at junk fs j k = Some (Ok (fs', k')) \<and> boot_read L fs fs' \<and> outputs out f k k'"
        using Suc.IH [of "nat j" out f fs k h] by simp
    qed
    then show ?thesis
      using Suc.prems(6) ts(3) by (intro print_children_ok [OF _ l(2,1) wf1 p(2) prints_ok [OF p(4)] _ ts(1) h]) simp_all
  qed
  then obtain fs2 k2 where q: "print_children fpu drv at junk (int i) et (int (32 * 0)) fs1 k1 = Some (Ok (fs2, k2))" "boot_read L fs1 fs2"
    "outputs (concat (map fst ts)) (sum_list (map snd ts)) k1 k2"
    by blast
  have "print_fs_contents fpu drv at junk fs (int i) k = Some (Ok (fs2, k2))"
    using p(1) q(1) by (simp add: print_fs_contents_def)
  moreover have "outputs out f k k2"
    using outputs_append [OF outputs_prints [OF p(4)] q(3)] ts(2,3) by simp
  ultimately show ?case using p(3) q(2) by (auto simp: boot_read_def)
qed simp

end

end
