(* ===== verification/UfsUnlink.thy ===== *)
theory UfsUnlink
  imports UfsCreat
begin

text \<open>
  What \<open>ufs_unlink\<close> does on a well-formed file system. The inode bit is cleared and the entry is
  overwritten with a hole, but the data bitmap is indexed with absolute block numbers, and
  \<open>ufs_lookup\<close> does not expect holes.
\<close>

section \<open>The loops\<close>

lemma unlink_data_ok:
  assumes "length (data_bp nfs) = 1" and "length (dirty_data_bp nfs) = 1"
    and "\<forall>p \<in> set ps. p \<noteq> - 1 \<longrightarrow> unat p < 32"
  shows "\<exists>db ddb. unlink_data ps nfs = Ok (nfs\<lparr>data_bp := db, dirty_data_bp := ddb\<rparr>) \<and> length db = 1 \<and> length ddb = 1 \<and>
     (\<forall>k < 32. bm_bit db k \<longleftrightarrow> bm_bit (data_bp nfs) k \<and> (\<forall>p \<in> set ps. p \<noteq> - 1 \<longrightarrow> unat p \<noteq> k)) \<and>
     (\<forall>k < 32. bm_bit ddb k \<longleftrightarrow> bm_bit (dirty_data_bp nfs) k \<or> (\<exists>p \<in> set ps. p \<noteq> - 1 \<and> unat p = k)) \<and>
     ((\<forall>p \<in> set ps. p = - 1) \<longrightarrow> db = data_bp nfs)"
  using assms
proof (induction ps arbitrary: nfs)
  case Nil
  then show ?case
    by (intro exI [of _ "data_bp nfs"] exI [of _ "dirty_data_bp nfs"]) simp
next
  case (Cons p ps)
  show ?case
  proof (cases "p = - 1")
    case True
    then show ?thesis using Cons.IH [of nfs] Cons.prems by auto
  next
    case False
    let ?b = "bm_reset (data_bp nfs) (unat p)" and ?d = "bm_set (dirty_data_bp nfs) (unat p)"
    have lt: "unat p < 32" using Cons.prems(3) False by simp
    then have sp: "sint p = int (unat p)"
      using sint_of_nat32 [of "unat p"] by simp
    have cap: "bm_cap (data_bp nfs) = 32" "bm_cap (dirty_data_bp nfs) = 32"
      using Cons.prems(1,2) by (simp_all add: bm_cap_length)
    have step: "unlink_data (p # ps) nfs = unlink_data ps (nfs\<lparr>data_bp := ?b, dirty_data_bp := ?d\<rparr>)"
      using False lt cap unfolding unlink_data.simps sp by (subst reset_bitmap_eq, simp, subst set_bitmap_eq, simp, simp)
    obtain db ddb where "unlink_data ps (nfs\<lparr>data_bp := ?b, dirty_data_bp := ?d\<rparr>) =
        Ok (nfs\<lparr>data_bp := db, dirty_data_bp := ddb\<rparr>)" "length db = 1" "length ddb = 1"
      "\<forall>k < 32. bm_bit db k \<longleftrightarrow> bm_bit ?b k \<and> (\<forall>p \<in> set ps. p \<noteq> - 1 \<longrightarrow> unat p \<noteq> k)"
      "\<forall>k < 32. bm_bit ddb k \<longleftrightarrow> bm_bit ?d k \<or> (\<exists>p \<in> set ps. p \<noteq> - 1 \<and> unat p = k)"
      using Cons.IH [of "nfs\<lparr>data_bp := ?b, dirty_data_bp := ?d\<rparr>"] Cons.prems by auto
    then show ?thesis
      unfolding step using False lt cap
      by (intro exI [of _ db] exI [of _ ddb]) (auto simp: bm_bit_set bm_bit_reset)
  qed
qed

lemma scan_block_append:
  "scan_block name j (xs @ ys) i c =
     bindr (scan_block name j xs i c) (\<lambda>(i, c). scan_block name (j + length xs) ys i c)"
proof (induction xs arbitrary: j i c)
  case (Cons x xs)
  then show ?case by (cases "arr_strcmp (de_name x) name") auto
qed simp

lemma scan_block_none:
  "terminated name \<Longrightarrow>
   \<forall>e \<in> set es. de_inum e \<noteq> - 1 \<longrightarrow> terminated (de_name e) \<and> cstr (de_name e) \<noteq> cstr name \<Longrightarrow>
   scan_block name j es i c = Ok (i, c + int (length (filter (\<lambda>e. de_inum e \<noteq> - 1) es)))"
proof (induction es arbitrary: j c)
  case (Cons e es)
  show ?case
  proof (cases "de_inum e = - 1")
    case False
    obtain v where "arr_strcmp (de_name e) name = Ok v" "v \<noteq> 0"
      using arr_strcmp_terminated [of "de_name e" name] Cons.prems False by auto
    then show ?thesis using Cons False by simp
  qed (use Cons in simp)
qed simp

lemma scan_block_one:
  assumes "terminated name" and "m < length es" and "de_inum (es ! m) \<noteq> - 1"
    and "terminated (de_name (es ! m))" "cstr (de_name (es ! m)) = cstr name"
    and "\<forall>j < length es. j \<noteq> m \<longrightarrow> de_inum (es ! j) \<noteq> - 1 \<longrightarrow>
      terminated (de_name (es ! j)) \<and> cstr (de_name (es ! j)) \<noteq> cstr name"
    and "\<exists>j < length es. j \<noteq> m \<and> de_inum (es ! j) \<noteq> - 1"
  shows "\<exists>c. scan_block name 0 es (- 1) 0 = Ok (int m, c) \<and> c \<noteq> 1"
proof -
  let ?xs = "take m es" and ?ys = "drop (Suc m) es" and ?u = "\<lambda>e. de_inum e \<noteq> - 1"
  have es: "es = ?xs @ es ! m # ?ys" using assms(2) by (rule id_take_nth_drop)
  have oth: "\<forall>e \<in> set ?xs. ?u e \<longrightarrow> terminated (de_name e) \<and> cstr (de_name e) \<noteq> cstr name"
    "\<forall>e \<in> set ?ys. ?u e \<longrightarrow> terminated (de_name e) \<and> cstr (de_name e) \<noteq> cstr name"
    using assms(2,6) by (auto simp: in_set_conv_nth)
  obtain j where j: "j < length es" "j \<noteq> m" "?u (es ! j)" using assms(7) by blast
  have "es ! j \<in> set ?xs \<or> es ! j \<in> set ?ys"
  proof (cases "j < m")
    case True
    then have "?xs ! j \<in> set ?xs" using j(1) by (intro nth_mem) simp
    then show ?thesis using True by simp
  next
    case False
    then have lt: "j - Suc m < length ?ys" and eq: "Suc m + (j - Suc m) = j" using j(1,2) by auto
    have "?ys ! (j - Suc m) = es ! j" using lt eq by simp
    then show ?thesis using nth_mem [OF lt] by simp
  qed
  then have ne: "filter ?u ?xs \<noteq> [] \<or> filter ?u ?ys \<noteq> []"
    using j(3) by (auto simp: filter_empty_conv)
  obtain v where "arr_strcmp (de_name (es ! m)) name = Ok v" "v = 0"
    using arr_strcmp_terminated [OF assms(4,1)] assms(5) by auto
  then have "scan_block name 0 (?xs @ es ! m # ?ys) (- 1) 0 =
      Ok (int m, int (length (filter ?u ?xs)) + 1 + int (length (filter ?u ?ys)))"
    using assms(2,3) scan_block_none [OF assms(1) oth(1)] scan_block_none [OF assms(1) oth(2)]
    by (simp add: scan_block_append)
  then show ?thesis
    using ne es by (intro exI conjI) (auto simp flip: length_greater_0_conv)
qed

section \<open>The entry of the parent\<close>

lemma dir_list_nth:
  "h < dir_size ino \<Longrightarrow> dir_list c ino ! h =
     (cstr (de_name (slot c (i_direct ino) h)), de_inum (slot c (i_direct ino) h))"
  by (simp add: dir_list_slot)

text \<open>
  What the parent's blocks look like from slot \<open>m\<close>: the name occurs there and nowhere else.
\<close>

lemma dir_slots:
  assumes wf: "dir_wf c N ib ino" and len: "length (i_direct ino) = DIRECT_PTRS"
    and m: "m < dir_size ino" and name: "cstr (de_name (slot c (i_direct ino) m)) = nm"
    and kj: "k < DIRECT_PTRS" "i_direct ino ! k \<noteq> - 1" "j < 128" "128 * k + j \<noteq> m"
    and used: "de_inum (ent_at c (unat (i_direct ino ! k)) j) \<noteq> - 1"
  shows "128 * k + j < dir_size ino" and "terminated (de_name (ent_at c (unat (i_direct ino ! k)) j))"
    and "cstr (de_name (ent_at c (unat (i_direct ino ! k)) j)) \<noteq> nm"
proof -
  have sl: "slot c (i_direct ino) (128 * k + j) = ent_at c (unat (i_direct ino ! k)) j"
    using kj(3) by (simp add: slot_def)
  have "128 * k < dir_size ino" using wf kj(1,2) by (simp add: dir_wf_def)
  moreover have "128 * k + j < 128 * DIRECT_PTRS" using kj(1,3) by linarith
  ultimately show lt: "128 * k + j < dir_size ino"
    using wf used sl kj(3) by (auto simp: dir_wf_def not_less [symmetric])
  then have "entry_wf N ib (slot c (i_direct ino) (128 * k + j))" using wf by (simp add: dir_wf_def)
  then show "terminated (de_name (ent_at c (unat (i_direct ino ! k)) j))" by (simp add: entry_wf_def sl)
  have "distinct (map fst (dir_list c ino))" using wf by (simp add: dir_wf_def)
  then have "map fst (dir_list c ino) ! (128 * k + j) \<noteq> map fst (dir_list c ino) ! m"
    using kj(4) lt m by (subst nth_eq_iff_index_eq) auto
  then show "cstr (de_name (ent_at c (unat (i_direct ino ! k)) j)) \<noteq> nm"
    using lt m name by (simp add: dir_list_slot sl)
qed

text \<open>What is written over the entry.\<close>

definition hole :: "(nat \<Rightarrow> byte) \<Rightarrow> dir_ent_t" where
  "hole junk = \<lparr>de_name = junk_name junk 0, de_inum = - 1\<rparr>"

lemma hole_typed [simp]: "dir_ent_typed (hole junk)" "de_inum (hole junk) = - 1"
  by (simp_all add: hole_def dir_ent_typed_def junk_name_def is_int32_def)

context ufs_rw
begin

lemma unlink_entry_ok:
  assumes "dok (fs_disk nfs)" and "terminated name"
    and "\<forall>p \<in> set pre. blk_ok (lim (fs_disk nfs)) p \<and> (\<forall>j < 128. de_inum (ent_at (bytes (fs_disk nfs)) (unat p) j) \<noteq> - 1 \<longrightarrow>
       terminated (de_name (ent_at (bytes (fs_disk nfs)) (unat p) j)) \<and>
       cstr (de_name (ent_at (bytes (fs_disk nfs)) (unat p) j)) \<noteq> cstr name)"
    and "blk_ok (lim (fs_disk nfs)) q" and "m < 128" and "e = (\<lambda>j. ent_at (bytes (fs_disk nfs)) (unat q) j)"
    and "de_inum (e m) \<noteq> - 1" "terminated (de_name (e m))" "cstr (de_name (e m)) = cstr name"
    and "\<forall>j < 128. j \<noteq> m \<longrightarrow> de_inum (e j) \<noteq> - 1 \<longrightarrow> terminated (de_name (e j)) \<and> cstr (de_name (e j)) \<noteq> cstr name"
    and "\<exists>j < 128. j \<noteq> m \<and> de_inum (e j) \<noteq> - 1"
  shows "\<exists>d'. unlink_entry drv junk pinum name i (pre @ q # post) nfs = Ok (nfs\<lparr>fs_disk := d'\<rparr>) \<and>
     stored (fs_disk nfs) (unat q * UFS_BLOCK_SIZE + 32 * m) (enc_dir_ent (hole junk)) d'"
  using assms
proof (induction pre arbitrary: nfs i)
  case Nil
  let ?d = "fs_disk nfs"
  obtain d1 where r: "Read drv (blk_addr q 0) 4096 ?d = Ok (Some (rd (bytes ?d) (unat q * 4096) 4096), d1)" "same ?d d1"
    using Read_block Nil.prems(1,4) by metis
  have d1: "dok d1" "bytes d1 = bytes ?d" "lim d1 = lim ?d"
    using r(2) by (simp_all add: same_def)
  let ?es = "dec_dir_block (rd (bytes ?d) (unat q * 4096) 4096)"
  have es: "?es = map e [0..<128]" "length ?es = 128" by (simp_all add: dec_dir_block_rd Nil.prems(6))
  have nth: "?es ! j = e j" if "j < 128" for j using that by (simp add: es(1))
  obtain c where c: "scan_block name 0 ?es (- 1) 0 = Ok (int m, c)" "c \<noteq> 1"
    using scan_block_one [OF Nil.prems(2), of m ?es] Nil.prems(5,7-11) nth unfolding es(2) by metis
  have ad: "blk_addr q (int m * 32) = int (unat q * 4096 + 32 * m)"
    using blk_ok_addr(2) [OF Nil.prems(4), of "32 * m"] Nil.prems(5) by (simp add: mult.commute)
  have "unat q * 4096 + 32 * m + length (enc_dir_ent (hole junk)) \<le> lim d1"
    using Nil.prems(4,5) d1(3) by (simp add: blk_ok_def)
  then obtain d2 where w: "Write drv (int (unat q * 4096 + 32 * m)) (enc_dir_ent (hole junk)) d1 = Ok (0, d2)"
    "stored d1 (unat q * 4096 + 32 * m) (enc_dir_ent (hole junk)) d2"
    using Write_ok d1(1) by blast
  have "stored ?d (unat q * 4096 + 32 * m) (enc_dir_ent (hole junk)) d2"
    using w(2) d1 by (simp add: stored_def)
  moreover have "unlink_entry drv junk pinum name i ([] @ q # post) nfs = Ok (nfs\<lparr>fs_disk := d2\<rparr>)"
    using r(1) c ad w(1) blk_ok_neq [OF Nil.prems(4)] by (simp add: hole_def Let_def)
  ultimately show ?case by blast
next
  case (Cons p pre)
  let ?d = "fs_disk nfs"
  have p: "blk_ok (lim ?d) p" using Cons.prems(3) by simp
  obtain d1 where r: "Read drv (blk_addr p 0) 4096 ?d = Ok (Some (rd (bytes ?d) (unat p * 4096) 4096), d1)" "same ?d d1"
    using Read_block Cons.prems(1) p by metis
  have d1: "dok d1" "bytes d1 = bytes ?d" "lim d1 = lim ?d"
    using r(2) by (simp_all add: same_def)
  let ?es = "dec_dir_block (rd (bytes ?d) (unat p * 4096) 4096)"
  obtain c where c: "scan_block name 0 ?es (- 1) 0 = Ok (- 1, c)"
    using scan_block_none [OF Cons.prems(2), of ?es 0 "- 1" 0] Cons.prems(3) by (auto simp: dec_dir_block_rd)
  have step: "unlink_entry drv junk pinum name i ((p # pre) @ q # post) nfs =
      unlink_entry drv junk pinum name (Suc i) (pre @ q # post) (nfs\<lparr>fs_disk := d1\<rparr>)"
    using r(1) c blk_ok_neq [OF p] by (simp add: Let_def)
  obtain d' where "unlink_entry drv junk pinum name (Suc i) (pre @ q # post) (nfs\<lparr>fs_disk := d1\<rparr>) = Ok (nfs\<lparr>fs_disk := d'\<rparr>)"
    "stored d1 (unat q * 4096 + 32 * m) (enc_dir_ent (hole junk)) d'"
    using Cons.IH [of "nfs\<lparr>fs_disk := d1\<rparr>" "Suc i"] Cons.prems d1 by auto
  then show ?case
    unfolding step using d1 by (auto simp: stored_def)
qed

section \<open>The run\<close>

text \<open>Before the block of the entry, the blocks are valid and hold other names.\<close>

lemma names_before:
  assumes wf: "dir_wf c N ib ino" and len: "length (i_direct ino) = DIRECT_PTRS"
    and m: "m < dir_size ino" "cstr (de_name (slot c (i_direct ino) m)) = cstr name"
    and blk: "\<forall>p \<in> set (i_direct ino). p \<noteq> - 1 \<longrightarrow> blk_ok L p" and p: "p \<in> set (take (m div 128) (i_direct ino))"
  shows "blk_ok L p \<and> (\<forall>j < 128. de_inum (ent_at c (unat p) j) \<noteq> - 1 \<longrightarrow>
       terminated (de_name (ent_at c (unat p) j)) \<and> cstr (de_name (ent_at c (unat p) j)) \<noteq> cstr name)"
proof -
  have k: "m div 128 < 30" using m(1) wf by (auto simp: dir_wf_def)
  obtain k' where k': "k' < m div 128" "p = i_direct ino ! k'"
    using p k len by (auto simp: in_set_conv_nth)
  have lt: "128 * k' + j < m" if "j < 128" for j
  proof -
    have "128 * Suc k' \<le> 128 * (m div 128)" using k'(1) by (intro mult_le_mono2) simp
    then show ?thesis using that times_div_less_eq_dividend [of 128 m] by (simp del: times_div_less_eq_dividend)
  qed
  have p1: "p \<noteq> - 1" using wf k' k lt [of 0] m(1) by (simp add: dir_wf_def)
  then have "blk_ok L p" using len blk k' k by auto
  then show ?thesis
    using dir_slots(2,3) [OF wf len m, of k'] k' k p1 lt by (simp add: less_imp_neq)
qed

text \<open>Another entry in the block of entry \<open>m\<close>, so that the block stays in use.\<close>

lemma other_entry:
  assumes wf: "dir_wf c N ib ino" and m: "m < dir_size ino" and k: "m div 128 < DIRECT_PTRS"
    and oth: "m mod 128 \<noteq> 0 \<or> Suc m < dir_size ino"
  shows "\<exists>j < 128. j \<noteq> m mod 128 \<and> de_inum (ent_at c (unat (i_direct ino ! (m div 128))) j) \<noteq> - 1"
proof -
  let ?r = "if m mod 128 = 0 then 1 else m mod 128 - 1"
  have "128 * (m div 128) + m mod 128 = m" by simp
  then have "128 * (m div 128) + ?r < dir_size ino" "?r < 128"
    using oth m by auto
  moreover have "?r \<noteq> m mod 128" by (cases "m mod 128") auto
  ultimately show ?thesis
    using dir_blocks_used [OF wf k, of ?r] by blast
qed

text \<open>The scan of the parent's blocks finds the entry and overwrites it, when its block has another one.\<close>

lemma unlink_parent_ok:
  assumes d: "fs_disk nfs = d" "dok d" and wf: "dir_wf (bytes d) N ib ino" and len: "length (i_direct ino) = DIRECT_PTRS"
    and blk: "\<forall>p \<in> set (i_direct ino). p \<noteq> - 1 \<longrightarrow> blk_ok (lim d) p"
    and m: "m < dir_size ino" "cstr (de_name (slot (bytes d) (i_direct ino) m)) = cstr name"
    and name: "terminated name" and oth: "m mod 128 \<noteq> 0 \<or> Suc m < dir_size ino"
  shows "\<exists>d'. unlink_entry drv junk pinum name 0 (i_direct ino) nfs = Ok (nfs\<lparr>fs_disk := d'\<rparr>) \<and>
    stored d (unat (i_direct ino ! (m div 128)) * UFS_BLOCK_SIZE + 32 * (m mod 128)) (enc_dir_ent (hole junk)) d'"
proof -
  let ?k = "m div 128" and ?m = "m mod 128"
  let ?q = "i_direct ino ! ?k" and ?e = "\<lambda>j. ent_at (bytes d) (unat (i_direct ino ! (m div 128))) j"
  note slots = dir_slots [OF wf len m]
  have k: "?k < 30" using m(1) wf by (auto simp: dir_wf_def)
  have kn: "128 * ?k \<le> m" and mm: "128 * ?k + ?m = m" by simp_all
  have used: "i_direct ino ! k' \<noteq> - 1" if "128 * k' < dir_size ino" "k' < 30" for k'
    using wf that by (simp add: dir_wf_def)
  have q: "?q \<noteq> - 1" using used [of ?k] k kn m(1) by linarith
  have sl: "slot (bytes d) (i_direct ino) m = ?e ?m" by (simp add: slot_def)
  have ew: "entry_wf N ib (?e ?m)" using wf m(1) by (auto simp: dir_wf_def simp flip: sl)
  have pre: "\<forall>p \<in> set (take ?k (i_direct ino)). blk_ok (lim d) p \<and> (\<forall>j < 128. de_inum (ent_at (bytes d) (unat p) j) \<noteq> - 1 \<longrightarrow>
       terminated (de_name (ent_at (bytes d) (unat p) j)) \<and> cstr (de_name (ent_at (bytes d) (unat p) j)) \<noteq> cstr name)"
    using names_before [OF wf len m blk] by blast
  note two = other_entry [OF wf m(1) k oth]
  have em: "de_inum (?e ?m) \<noteq> - 1" "terminated (de_name (?e ?m))" "cstr (de_name (?e ?m)) = cstr name"
    using m(2) ew by (auto simp: sl entry_wf_def)
  have eo: "\<forall>j < 128. j \<noteq> ?m \<longrightarrow> de_inum (?e j) \<noteq> - 1 \<longrightarrow> terminated (de_name (?e j)) \<and> cstr (de_name (?e j)) \<noteq> cstr name"
  proof (intro allI impI)
    fix j assume j: "j < 128" "j \<noteq> ?m" "de_inum (?e j) \<noteq> - 1"
    have "128 * ?k + j \<noteq> m" using j(2) mm by (metis add_left_cancel)
    then show "terminated (de_name (?e j)) \<and> cstr (de_name (?e j)) \<noteq> cstr name"
      using slots(2,3) [OF k q j(1)] j(3) by simp
  qed
  have "blk_ok (lim d) ?q" using q len blk k by auto
  moreover have "i_direct ino = take ?k (i_direct ino) @ ?q # drop (Suc ?k) (i_direct ino)"
    using k len by (simp add: id_take_nth_drop)
  ultimately show ?thesis
    using unlink_entry_ok [of nfs, unfolded d(1), OF d(2) name pre _ _ refl em eo two, of junk pinum 0 "drop (Suc ?k) (i_direct ino)"]
    by simp
qed

text \<open>The entry that is to go, and the parent's size before and after.\<close>

lemma unlink_facts:
  assumes ok: "fs_ok nfs" and dir: "abs_of nfs i = Some (Dir l)" and m: "m < length l" "l ! m = (cstr name, int j)"
  shows "dir_size (inodes nfs ! i) = length l" "alloc nfs j" "map_of l (cstr name) = Some (int j)"
    "cstr (de_name (slot (bytes (fs_disk nfs)) (i_direct (inodes nfs ! i)) m)) = cstr name"
    "m div 128 < 30" "i_direct (inodes nfs ! i) ! (m div 128) \<noteq> - 1"
    "DR (fs_s nfs) \<le> unat (i_direct (inodes nfs ! i) ! (m div 128))"
    "to_int (i_size (inodes nfs ! i) - 32) = int (32 * (length l - 1))" "is_int32 (int (32 * (length l - 1)))"
proof -
  let ?c = "bytes (fs_disk nfs)" and ?ino = "inodes nfs ! i"
  note al = abs_dirD [OF dir]
  have wf: "fs_wf ?c (lim (fs_disk nfs)) nfs" using ok by (simp add: fs_ok_def)
  then have lay: "layout_ok (fs_s nfs) (lim (fs_disk nfs))" by (simp add: fs_wf_def)
  note dw = dir_wf_ok(1) [OF wf al(1,2)]
  show n: "dir_size ?ino = length l" using al(3) by (metis length_dir_list)
  note w = dw [unfolded dir_wf_def n]
  have n30: "length l \<le> 3840" using w by simp
  have at: "de_inum (slot ?c (i_direct ?ino) m) = int j"
    and "cstr (de_name (slot ?c (i_direct ?ino) m)) = cstr name"
    using dir_list_nth [of m ?ino ?c] al(3) m n by simp_all
  then show "cstr (de_name (slot ?c (i_direct ?ino) m)) = cstr name" by simp
  have "entry_wf (nat (num_inodes (fs_s nfs))) (inode_bp nfs) (slot ?c (i_direct ?ino) m)" using w m(1) by simp
  then show "alloc nfs j" using at by (simp add: entry_wf_def alloc_def)
  have "distinct (map fst l)" using w al(3) by simp
  then show "map_of l (cstr name) = Some (int j)" using m by (metis map_of_is_SomeI nth_mem)
  show k: "m div 128 < 30" using m(1) n30 by auto
  have "128 * (m div 128) < length l" using m(1) times_div_less_eq_dividend [of 128 m] by linarith
  then show q: "i_direct ?ino ! (m div 128) \<noteq> - 1" using w k by auto
  show "DR (fs_s nfs) \<le> unat (i_direct ?ino ! (m div 128))"
    using data_ptr_ok(3) [OF lay fs_wfD(2) [OF wf al(1) k q]] .
  have sz: "i_size ?ino = 32 * int (length l)" using w n by (auto simp: dir_size_def)
  show i32: "is_int32 (int (32 * (length l - 1)))" using n30 by (simp add: is_int32_def)
  have "32 * int (length l) - 32 = int (32 * (length l - 1))" using m(1) by (simp add: of_nat_diff)
  then show "to_int (i_size ?ino - 32) = int (32 * (length l - 1))"
    unfolding sz to_int_def by (simp only: sint_of_int32 [OF i32])
qed

lemma unlink_synced:
  assumes cs: "clean_synced c nfs" and wf: "fs_wf c L nfs" and al: "alloc nfs i" "alloc nfs j"
    and c: "\<And>x. x < DR (fs_s nfs) * UFS_BLOCK_SIZE \<Longrightarrow> c' x = c x"
    and ddb: "\<forall>k < 32. bm_bit ddb k \<longleftrightarrow> bm_bit (dirty_data_bp nfs) k \<or> (\<exists>p \<in> set ps. p \<noteq> - 1 \<and> unat p = k)"
    and ptr: "\<forall>p \<in> set ps. p \<noteq> - 1 \<longrightarrow> unat p < nat (num_data (fs_s nfs))"
    and none: "(\<forall>p \<in> set ps. p = - 1) \<longrightarrow> db = data_bp nfs"
  shows "clean_synced c' (nfs\<lparr>fs_disk := d', inode_bp := bm_reset (inode_bp nfs) j,
      dirty_inode_bp := bm_set (bm_set (dirty_inode_bp nfs) j) i, data_bp := db, dirty_data_bp := ddb,
      inodes := (inodes nfs)[i := new]\<rparr>)" (is "clean_synced c' ?nfs")
proof (rule clean_synced_upd [OF cs])
  let ?s = "fs_s nfs"
  show lay: "layout_ok ?s L" using wf by (simp add: fs_wf_def)
  have n32: "nat (num_inodes ?s) \<le> 32" "nat (num_data ?s) \<le> 32" using layout_counts [OF lay] by simp_all
  have cap: "bm_cap (dirty_inode_bp nfs) = 32" "bm_cap (inode_bp nfs) = 32" using wf by (simp_all add: fs_wf_def)
  note i32 = fs_wfD(6) [OF wf al(1)] fs_wfD(6) [OF wf al(2)]
  show "\<not> bm_bit (dirty_inode_bp nfs) h \<and> inodes ?nfs ! h = inodes nfs ! h"
    if "h < nat (num_inodes ?s)" "\<not> bm_bit (dirty_inode_bp ?nfs) h" for h
    using that n32 i32 cap by (auto simp: bm_bit_set)
  show "inode_bp ?nfs = inode_bp nfs" if "\<forall>h < nat (num_inodes ?s). \<not> bm_bit (dirty_inode_bp ?nfs) h"
    using that al(1) i32 cap by (auto simp: bm_bit_set alloc_def)
  show "\<not> bm_bit (dirty_data_bp nfs) h" if "h < nat (num_data ?s)" "\<not> bm_bit (dirty_data_bp ?nfs) h" for h
    using that ddb n32 by simp
  show "data_bp ?nfs = data_bp nfs" if "\<forall>h < nat (num_data ?s). \<not> bm_bit (dirty_data_bp ?nfs) h"
  proof -
    have "\<forall>p \<in> set ps. p = - 1" using that ptr ddb n32 by force
    then show ?thesis using none by simp
  qed
qed (use c in simp_all)

lemma strcmp_no_dots:
  "terminated name \<Longrightarrow> cstr name \<noteq> [46] \<Longrightarrow> cstr name \<noteq> [46, 46] \<Longrightarrow>
   (\<exists>c. arr_strcmp name dot = Ok c \<and> c \<noteq> 0) \<and> (\<exists>c. arr_strcmp name dotdot = Ok c \<and> c \<noteq> 0)"
  using arr_strcmp_terminated [of name dot] arr_strcmp_terminated [of name dotdot]
  by (auto simp: dot_def dotdot_def)

lemma unlink_run:
  assumes ok: "fs_ok nfs" and dir: "abs_of nfs i = Some (Dir l)" and m: "m < length l" "l ! m = (cstr name, int j)"
    and name: "terminated name" "cstr name \<noteq> [46]" "cstr name \<noteq> [46, 46]"
    and oth: "m mod 128 \<noteq> 0 \<or> Suc m < length l" and ji: "j \<noteq> i"
    and emp: "i_type (inodes nfs ! j) = UFS_DIRECTORY \<longrightarrow> i_size (inodes nfs ! j) = 64"
    and ptr: "\<forall>p \<in> set (i_direct (inodes nfs ! j)). p \<noteq> - 1 \<longrightarrow> unat p < nat (num_data (fs_s nfs))"
  obtains d' db ddb nfs2 where
    "ufs_unlink pf drv junk nfs (int i) name = commit_and_sync drv nfs2"
    "nfs2 = nfs\<lparr>fs_disk := d', inode_bp := bm_reset (inode_bp nfs) j,
        dirty_inode_bp := bm_set (bm_set (dirty_inode_bp nfs) j) i, data_bp := db, dirty_data_bp := ddb,
        inodes := (inodes nfs)[i := (inodes nfs ! i)\<lparr>i_size := int (32 * (length l - 1))\<rparr>]\<rparr>"
    "stored (fs_disk nfs) (unat (i_direct (inodes nfs ! i) ! (m div 128)) * UFS_BLOCK_SIZE + 32 * (m mod 128)) (enc_dir_ent (hole junk)) d'"
    "\<forall>k < 32. bm_bit db k \<longleftrightarrow> bm_bit (data_bp nfs) k \<and> (\<forall>p \<in> set (i_direct (inodes nfs ! j)). p \<noteq> - 1 \<longrightarrow> unat p \<noteq> k)"
    "tables_ok nfs2" "clean_synced (bytes d') nfs2" "alloc nfs j"
proof -
  let ?s = "fs_s nfs" and ?d = "fs_disk nfs" and ?ino = "inodes nfs ! i" and ?jno = "inodes nfs ! j"
  let ?q = "i_direct ?ino ! (m div 128)"
  note al = abs_dirD [OF dir] and uf = unlink_facts [OF ok dir m]
  have wf: "fs_wf (bytes ?d) (lim ?d) nfs" and cs: "clean_synced (bytes ?d) nfs" using ok by (simp_all add: fs_ok_def)
  then have lay: "layout_ok ?s (lim ?d)" and tab: "tables_ok nfs" by (simp_all add: fs_wf_def)
  note dw = dir_wf_ok [OF wf al(1,2)] and ii = fs_wfD [OF wf al(1)] and jj = fs_wfD [OF wf uf(2)]
  obtain d0 where lk: "ufs_lookup pf drv nfs (int i) name = Ok (int j, nfs\<lparr>fs_disk := d0\<rparr>)" "same ?d d0"
    using lookup_wf [OF ok dir name(1)] uf(3) by auto
  have d0: "dok d0" "bytes d0 = bytes ?d" "lim d0 = lim ?d" using lk(2) by (simp_all add: same_def)
  have cap: "bm_cap (inode_bp nfs) = 32" "bm_cap (data_bp nfs) = 32" "bm_cap (dirty_inode_bp nfs) = 32"
    "bm_cap (dirty_data_bp nfs) = 32" using tab by simp_all
  have dir64: "usize pf (i_size ?jno) = 64" if "i_type ?jno = UFS_DIRECTORY"
  proof -
    have "(2 :: int) ^ 32 \<le> 2 ^ size_bits pf" using size_law by (rule power_increasing) simp
    then show ?thesis using emp that by (simp add: usize_def)
  qed
  let ?dib = "bm_set (bm_set (dirty_inode_bp nfs) j) i" and ?is = "(inodes nfs)[i := ?ino\<lparr>i_size := int (32 * (length l - 1))\<rparr>]"
  let ?n1 = "nfs\<lparr>fs_disk := d0, inode_bp := bm_reset (inode_bp nfs) j, dirty_inode_bp := ?dib\<rparr>"
  have p32: "\<forall>p \<in> set (i_direct ?jno). p \<noteq> - 1 \<longrightarrow> unat p < 32" using ptr layout_counts(2) [OF lay] by force
  obtain db ddb where ud: "unlink_data (i_direct ?jno) ?n1 = Ok (?n1\<lparr>data_bp := db, dirty_data_bp := ddb\<rparr>)"
    and len: "length db = 1" "length ddb = 1"
    and dbk: "\<forall>k < 32. bm_bit db k \<longleftrightarrow> bm_bit (data_bp nfs) k \<and> (\<forall>p \<in> set (i_direct ?jno). p \<noteq> - 1 \<longrightarrow> unat p \<noteq> k)"
    and ddbk: "\<forall>k < 32. bm_bit ddb k \<longleftrightarrow> bm_bit (dirty_data_bp nfs) k \<or> (\<exists>p \<in> set (i_direct ?jno). p \<noteq> - 1 \<and> unat p = k)"
    and none: "(\<forall>p \<in> set (i_direct ?jno). p = - 1) \<longrightarrow> db = data_bp nfs"
    using unlink_data_ok [of ?n1, OF _ _ p32] tab by (auto simp: tables_ok_def)
  let ?n2 = "?n1\<lparr>data_bp := db, dirty_data_bp := ddb, inodes := ?is\<rparr>"
  have dw0: "dir_wf (bytes d0) (nat (num_inodes ?s)) (inode_bp nfs) ?ino" "\<forall>p \<in> set (i_direct ?ino). p \<noteq> - 1 \<longrightarrow> blk_ok (lim d0) p"
    using dw(1,4) d0 by simp_all
  obtain d' where ue: "unlink_entry drv junk (int i) name 0 (i_direct ?ino) ?n2 = Ok (?n2\<lparr>fs_disk := d'\<rparr>)"
    "stored d0 (unat ?q * 4096 + 32 * (m mod 128)) (enc_dir_ent (hole junk)) d'"
    using unlink_parent_ok [of ?n2, OF _ d0(1) dw0(1) dw(3) dw0(2), of m name junk "int i"] m(1) uf(1,4) d0(2) name(1) oth
    by auto
  let ?n3 = "nfs\<lparr>fs_disk := d', inode_bp := bm_reset (inode_bp nfs) j, dirty_inode_bp := ?dib, data_bp := db,
     dirty_data_bp := ddb, inodes := ?is\<rparr>"
  have st: "stored ?d (unat ?q * 4096 + 32 * (m mod 128)) (enc_dir_ent (hole junk)) d'"
    using ue(2) d0 by (simp add: stored_def)
  have "?n2\<lparr>fs_disk := d'\<rparr> = ?n3" by (rule ufs.equality) simp_all
  moreover have "ufs_unlink pf drv junk nfs (int i) name = commit_and_sync drv (?n2\<lparr>fs_disk := d'\<rparr>)"
    using al(1) strcmp_no_dots [OF name] lk(1) ud ue(1) ii(5,6) jj(5,6) cap dir64 uf(8)
    by (auto simp: ufs_unlink_def alloc_def get_bitmap_eq reset_bitmap_eq touch_inode_def set_bitmap_eq upd_inode_eq)
  ultimately have "ufs_unlink pf drv junk nfs (int i) name = commit_and_sync drv ?n3" by (simp only:)
  moreover have "tables_ok ?n3"
    using tab len ii(4) uf(9) by (auto simp: tables_ok_def inode_typed_def dest: set_update_subset_insert [THEN subsetD])
  moreover have "bytes d' x = bytes ?d x" if "x < DR ?s * 4096" for x
    using mult_le_mono1 [OF uf(7), of 4096] st that by (simp add: stored_def wr_apply_out)
  then have "clean_synced (bytes d') ?n3"
    by (rule unlink_synced [OF cs wf al(1) uf(2) _ ddbk ptr none])
  ultimately show thesis using st dbk uf(2) by (intro that) (assumption | rule refl)+
qed

text \<open>The state after the commit, with the data blocks as the run leaves them.\<close>

definition unlinked :: "(nat \<Rightarrow> byte) \<Rightarrow> 'd ufs \<Rightarrow> nat \<Rightarrow> nat \<Rightarrow> nat \<Rightarrow> nat \<Rightarrow> 'd ufs \<Rightarrow> bool" where
  "unlinked junk nfs i n m j nfs' \<longleftrightarrow> dok (fs_disk nfs') \<and> lim (fs_disk nfs') = lim (fs_disk nfs) \<and> tables_ok nfs' \<and>
     synced (bytes (fs_disk nfs')) nfs' \<and> clean_synced (bytes (fs_disk nfs')) nfs' \<and>
     fs_s nfs' = fs_s nfs \<and> inode_bp nfs' = bm_reset (inode_bp nfs) j \<and>
     inodes nfs' = (inodes nfs)[i := (inodes nfs ! i)\<lparr>i_size := int (32 * (n - 1))\<rparr>] \<and>
     (\<forall>k < 32. bm_bit (data_bp nfs') k \<longleftrightarrow> bm_bit (data_bp nfs) k \<and>
        (\<forall>p \<in> set (i_direct (inodes nfs ! j)). p \<noteq> - 1 \<longrightarrow> unat p \<noteq> k)) \<and>
     (\<forall>b. DR (fs_s nfs) \<le> b \<longrightarrow> b \<noteq> unat (i_direct (inodes nfs ! i) ! (m div 128)) \<longrightarrow>
        agree (bytes (fs_disk nfs)) (bytes (fs_disk nfs')) b) \<and>
     (\<forall>h < 128. ent_at (bytes (fs_disk nfs')) (unat (i_direct (inodes nfs ! i) ! (m div 128))) h =
        (if h = m mod 128 then hole junk else ent_at (bytes (fs_disk nfs)) (unat (i_direct (inodes nfs ! i) ! (m div 128))) h))"

lemma unlink_done:
  assumes ok: "fs_ok nfs" and dir: "abs_of nfs i = Some (Dir l)" and m: "m < length l" "l ! m = (cstr name, int j)"
    and name: "terminated name" "cstr name \<noteq> [46]" "cstr name \<noteq> [46, 46]"
    and oth: "m mod 128 \<noteq> 0 \<or> Suc m < length l" and ji: "j \<noteq> i"
    and emp: "i_type (inodes nfs ! j) = UFS_DIRECTORY \<longrightarrow> i_size (inodes nfs ! j) = 64"
    and ptr: "\<forall>p \<in> set (i_direct (inodes nfs ! j)). p \<noteq> - 1 \<longrightarrow> unat p < nat (num_data (fs_s nfs))"
  obtains nfs' where "ufs_unlink pf drv junk nfs (int i) name = Ok (0, nfs')" "unlinked junk nfs i (length l) m j nfs'"
proof -
  let ?q = "i_direct (inodes nfs ! i) ! (m div 128)" and ?s = "fs_s nfs" and ?c = "bytes (fs_disk nfs)"
  obtain d' db ddb nfs2 where r: "ufs_unlink pf drv junk nfs (int i) name = commit_and_sync drv nfs2"
    and 2: "nfs2 = nfs\<lparr>fs_disk := d', inode_bp := bm_reset (inode_bp nfs) j,
        dirty_inode_bp := bm_set (bm_set (dirty_inode_bp nfs) j) i, data_bp := db, dirty_data_bp := ddb,
        inodes := (inodes nfs)[i := (inodes nfs ! i)\<lparr>i_size := int (32 * (length l - 1))\<rparr>]\<rparr>"
    and st: "stored (fs_disk nfs) (unat ?q * 4096 + 32 * (m mod 128)) (enc_dir_ent (hole junk)) d'"
    and db: "\<forall>k < 32. bm_bit db k \<longleftrightarrow> bm_bit (data_bp nfs) k \<and> (\<forall>p \<in> set (i_direct (inodes nfs ! j)). p \<noteq> - 1 \<longrightarrow> unat p \<noteq> k)"
    and t: "tables_ok nfs2" and cs: "clean_synced (bytes d') nfs2"
    by (rule unlink_run [OF assms])
  have d': "dok d'" "lim d' = lim (fs_disk nfs)" "bytes d' = wr ?c (unat ?q * 4096 + 32 * (m mod 128)) (enc_dir_ent (hole junk))"
    using st by (simp_all add: stored_def)
  have lay: "layout_ok ?s (lim (fs_disk nfs))" using ok by (simp add: fs_ok_def fs_wf_def)
  have n2: "dok (fs_disk nfs2)" "layout_ok (fs_s nfs2) (lim (fs_disk nfs2))" "clean_synced (bytes (fs_disk nfs2)) nfs2"
    using d' lay cs by (simp_all add: 2)
  show thesis
  proof (rule commit_and_sync_ok [OF n2(1,2) t n2(3)])
    fix nfs' assume c: "commit_and_sync drv nfs2 = Ok (0, nfs')"
      and d2: "dok (fs_disk nfs')" "lim (fs_disk nfs') = lim (fs_disk nfs2)" "tables_ok nfs'"
      and eq: "fs_s nfs' = fs_s nfs2" "inode_bp nfs' = inode_bp nfs2" "data_bp nfs' = data_bp nfs2" "inodes nfs' = inodes nfs2"
      and sy: "synced (bytes (fs_disk nfs')) nfs'" "clean_synced (bytes (fs_disk nfs')) nfs'"
      and fr: "\<And>x. DR (fs_s nfs2) * 4096 \<le> x \<Longrightarrow> bytes (fs_disk nfs') x = bytes (fs_disk nfs2) x"
    have ag: "agree (bytes d') (bytes (fs_disk nfs')) b" if "DR ?s \<le> b" for b
      using mult_le_mono1 [OF that, of 4096] fr by (simp add: agree_def 2)
    have "agree ?c (bytes (fs_disk nfs')) b" if "DR ?s \<le> b" "b \<noteq> unat ?q" for b
    proof -
      have "agree ?c (bytes d') b"
        unfolding d'(3) by (rule agree_wr [where b = "unat ?q"]) (use that in simp_all)
      then show ?thesis using ag [OF that(1)] by (simp add: agree_def)
    qed
    moreover have "ent_at (bytes (fs_disk nfs')) (unat ?q) h = (if h = m mod 128 then hole junk else ent_at ?c (unat ?q) h)"
      if "h < 128" for h
      using agree_ent_at [OF ag [OF unlink_facts(7) [OF ok dir m]] that]
        ent_at_wr_ent [OF hole_typed(1) _ that, where c = ?c and b = "unat ?q" and j = "m mod 128"]
      unfolding d'(3) by simp
    ultimately have "unlinked junk nfs i (length l) m j nfs'"
      using d2 eq sy db d'(2) by (simp add: unlinked_def 2)
    then show thesis using r c by (intro that) simp_all
  qed
qed

text \<open>The slots of the parent afterwards.\<close>

lemma hole_slots:
  assumes wf: "fs_wf c L nfs" and al: "alloc nfs i" and dw: "dir_wf c N ib (inodes nfs ! i)"
    and m: "m < dir_size (inodes nfs ! i)" "q = i_direct (inodes nfs ! i) ! (m div 128)"
    and ag: "\<forall>b. DR (fs_s nfs) \<le> b \<longrightarrow> b \<noteq> unat q \<longrightarrow> agree c c' b"
    and at: "\<forall>h < 128. ent_at c' (unat q) h = (if h = m mod 128 then hole junk else ent_at c (unat q) h)"
    and h: "128 * (h div 128) < dir_size (inodes nfs ! i)"
  shows "slot c' (i_direct (inodes nfs ! i)) h = (if h = m then hole junk else slot c (i_direct (inodes nfs ! i)) h)"
proof (cases "h div 128 = m div 128")
  case True
  then have "h mod 128 = m mod 128 \<longleftrightarrow> h = m" by (metis mult_div_mod_eq)
  then show ?thesis using True at [rule_format, of "h mod 128"] by (simp add: slot_def flip: m(2))
next
  case False
  let ?ps = "i_direct (inodes nfs ! i)"
  have lay: "layout_ok (fs_s nfs) L" using wf by (simp add: fs_wf_def)
  have used: "?ps ! k \<noteq> - 1" "k < 30" if "128 * k < dir_size (inodes nfs ! i)" for k
    using dw that by (auto simp: dir_wf_def)
  have "128 * (m div 128) < dir_size (inodes nfs ! i)" using m(1) times_div_less_eq_dividend [of 128 m] by linarith
  then have "?ps ! (h div 128) \<noteq> ?ps ! (m div 128)"
    using fs_wfD(3) [OF wf al al] used h False by blast
  then have "unat (?ps ! (h div 128)) \<noteq> unat q" unfolding m(2) using word_unat_eq_iff by blast
  moreover have "DR (fs_s nfs) \<le> unat (?ps ! (h div 128))"
    using data_ptr_ok(3) [OF lay fs_wfD(2) [OF wf al used(2) [OF h] used(1) [OF h]]] .
  ultimately have "slot c' ?ps h = slot c ?ps h" using ag by (intro slot_agree) simp
  moreover have "h \<noteq> m" using False by blast
  ultimately show ?thesis by simp
qed

lemma unlinked_slots:
  assumes ok: "fs_ok nfs" and al: "alloc nfs i" "i_type (inodes nfs ! i) = UFS_DIRECTORY" and m: "m < dir_size (inodes nfs ! i)"
    and u: "unlinked junk nfs i n m j nfs'" and h: "128 * (h div 128) < dir_size (inodes nfs ! i)"
  shows "slot (bytes (fs_disk nfs')) (i_direct (inodes nfs ! i)) h =
    (if h = m then hole junk else slot (bytes (fs_disk nfs)) (i_direct (inodes nfs ! i)) h)"
proof -
  have wf: "fs_wf (bytes (fs_disk nfs)) (lim (fs_disk nfs)) nfs" using ok by (simp add: fs_ok_def)
  show ?thesis
    by (rule hole_slots [OF wf al(1) dir_wf_ok(1) [OF wf al] m refl _ _ h]) (use u in \<open>simp_all add: unlinked_def\<close>)
qed

section \<open>Lookup and the hole\<close>

lemma lookup_entries_hole:
  assumes "dok d" and "pos d = b * UFS_BLOCK_SIZE + 32 * j" and "r < m" and "r < cnt"
    and "pos d + 32 * Suc r \<le> lim d" and "terminated name"
    and "\<forall>i < r. de_inum (ent_at (bytes d) b (j + i)) \<noteq> - 1 \<and> terminated (de_name (ent_at (bytes d) b (j + i))) \<and>
           cstr (de_name (ent_at (bytes d) b (j + i))) \<noteq> cstr name"
    and "de_inum (ent_at (bytes d) b (j + r)) = - 1"
  shows "lookup_entries drv name m (int cnt) d = Err Aborted"
  using assms
proof (induction r arbitrary: d j cnt m)
  case 0
  then obtain m' where m: "m = Suc m'" by (cases m) auto
  have "pos d + 32 \<le> lim d" using "0.prems"(5) by simp
  then obtain d1 where r: "dd_read drv 32 d = Ok (rd (bytes d) (pos d) 32, d1)"
    using "0.prems"(1) by (metis read_same)
  have "dec_dir_ent (rd (bytes d) (pos d) 32) = ent_at (bytes d) b j" by (simp add: ent_at_def "0.prems"(2))
  then show ?case using r "0.prems"(8) by (simp add: m)
next
  case (Suc r)
  then obtain m' where m: "m = Suc m'" by (cases m) auto
  have "pos d + 32 \<le> lim d" using Suc.prems(5) by simp
  then obtain d1 where r: "dd_read drv 32 d = Ok (rd (bytes d) (pos d) 32, d1)" "same d d1" "pos d1 = pos d + 32"
    using Suc.prems(1) by (metis read_same)
  have e: "dec_dir_ent (rd (bytes d) (pos d) 32) = ent_at (bytes d) b j" by (simp add: ent_at_def Suc.prems(2))
  have u: "de_inum (ent_at (bytes d) b j) \<noteq> - 1" "terminated (de_name (ent_at (bytes d) b j))"
    "cstr (de_name (ent_at (bytes d) b j)) \<noteq> cstr name"
    using Suc.prems(7) [rule_format, of 0] by simp_all
  obtain v where v: "arr_strcmp name (de_name (ent_at (bytes d) b j)) = Ok v" "v \<noteq> 0"
    using arr_strcmp_terminated [OF Suc.prems(6) u(2)] u(3) by auto
  have d1: "dok d1" "bytes d1 = bytes d" "lim d1 = lim d" using r(2) by (simp_all add: same_def)
  have "lookup_entries drv name m' (int (cnt - 1)) d1 = Err Aborted"
  proof (rule Suc.IH [of _ "Suc j"])
    show "\<forall>i < r. de_inum (ent_at (bytes d1) b (Suc j + i)) \<noteq> - 1 \<and> terminated (de_name (ent_at (bytes d1) b (Suc j + i))) \<and>
           cstr (de_name (ent_at (bytes d1) b (Suc j + i))) \<noteq> cstr name"
      using Suc.prems(7) unfolding d1(2) by (metis Suc_mono add_Suc_shift)
  qed (use Suc.prems r(3) d1 m in auto)
  then show ?case
    using r(1) e u(1) v Suc.prems(4) by (simp add: m of_nat_diff)
qed

lemma slot_shift: "slot c (p # ps) (128 + j) = slot c ps j"
proof -
  have "(128 + j) div 128 = Suc (j div 128)" using div_add_self1 [of 128 j] by simp
  then show ?thesis by (simp add: slot_def)
qed

text \<open>A hole in the block that is scanned ends the search.\<close>

lemma lookup_block_hole:
  assumes "dok d" and "terminated name" and "m < cnt" and p: "blk_ok (lim d) p" and m: "m < 128"
    and used: "\<forall>j < m. de_inum (ent_at (bytes d) (unat p) j) \<noteq> - 1 \<and> terminated (de_name (ent_at (bytes d) (unat p) j)) \<and>
          cstr (de_name (ent_at (bytes d) (unat p) j)) \<noteq> cstr name"
    and hole: "de_inum (ent_at (bytes d) (unat p) m) = - 1"
  shows "lookup_blocks drv name (p # ps) (int cnt) d = Err Aborted"
proof -
  have "unat p * 4096 \<le> lim d" using p by (simp add: blk_ok_def)
  then obtain rc d1 where s: "dd_lseek drv (uint (p * 4096)) d = Ok (rc, d1)" "rc \<noteq> - 1"
      "same d d1" "pos d1 = unat p * 4096"
    using assms(1) unfolding blk_ok_addr(1) [OF p] by (metis seek_same)
  have d1: "dok d1" "bytes d1 = bytes d" "lim d1 = lim d" using s(3) by (simp_all add: same_def)
  have "lookup_entries drv name 128 (int cnt) d1 = Err Aborted"
  proof (rule lookup_entries_hole [of _ "unat p" 0 m])
    show "pos d1 + 32 * Suc m \<le> lim d1" using m p by (simp add: s(4) d1(3) blk_ok_def)
  qed (use assms(2,3) used hole s(4) d1 m in auto)
  then show ?thesis using s(1,2) assms(3) by simp
qed

lemma lookup_blocks_hole:
  assumes "dok d" and "terminated name" and "m < cnt"
    and "\<forall>k. 128 * k \<le> m \<longrightarrow> k < length ps \<and> blk_ok (lim d) (ps ! k)"
    and "\<forall>j < m. de_inum (slot (bytes d) ps j) \<noteq> - 1 \<and> terminated (de_name (slot (bytes d) ps j)) \<and>
          cstr (de_name (slot (bytes d) ps j)) \<noteq> cstr name"
    and "de_inum (slot (bytes d) ps m) = - 1"
  shows "lookup_blocks drv name ps (int cnt) d = Err Aborted"
  using assms
proof (induction ps arbitrary: d cnt m)
  case Nil
  then show ?case by (auto dest: spec [of _ 0])
next
  case (Cons p ps)
  have p: "blk_ok (lim d) p" using Cons.prems(4) by (auto dest: spec [of _ 0])
  have sl: "slot (bytes d) (p # ps) j = ent_at (bytes d) (unat p) j" if "j < 128" for j
    using that by (simp add: slot_def)
  show ?case
  proof (cases "m < 128")
    case True
    then show ?thesis
      using Cons.prems(5,6) sl by (intro lookup_block_hole [OF Cons.prems(1,2,3) p]) auto
  next
    case False
    have used: "\<forall>i < 128. de_inum (ent_at (bytes d) (unat p) i) \<noteq> - 1 \<and> terminated (de_name (ent_at (bytes d) (unat p) i)) \<and>
        cstr (de_name (ent_at (bytes d) (unat p) i)) \<noteq> cstr name"
      using Cons.prems(5) False sl by (metis less_le_trans not_less)
    then have "find (\<lambda>e. cstr (de_name e) = cstr name) (map (ent_at (bytes d) (unat p)) [0..<128]) = None"
      by (auto simp: find_None_iff)
    moreover have "min 128 cnt = 128" using False Cons.prems(3) by simp
    ultimately obtain d2 where l: "same d d2" "lookup_blocks drv name (p # ps) (int cnt) d = lookup_blocks drv name ps (int (cnt - 128)) d2"
      using lookup_block_turn [OF Cons.prems(1,2) _ p, of cnt ps] Cons.prems(3) used by auto
    have d2: "dok d2" "bytes d2 = bytes d" "lim d2 = lim d" using l(1) by (simp_all add: same_def)
    have sh: "slot (bytes d2) ps h = slot (bytes d) (p # ps) (128 + h)" for h by (simp only: slot_shift d2(2))
    have bl: "k < length ps \<and> blk_ok (lim d2) (ps ! k)" if "128 * k \<le> m - 128" for k
      using that Cons.prems(4) [rule_format, of "Suc k"] d2(3) False by simp
    have "128 + (m - 128) = m" using False by simp
    then have "lookup_blocks drv name ps (int (cnt - 128)) d2 = Err Aborted"
      using Cons.prems(2,3,5,6) d2(1) bl False by (intro Cons.IH [where m = "m - 128"]) (auto simp: sh)
    then show ?thesis unfolding l(2) .
  qed
qed

text \<open>The directory is longer than the hole is far: every search that gets there aborts.\<close>

lemma unlink_lookup_aborts:
  assumes ok: "fs_ok nfs" and dir: "abs_of nfs i = Some (Dir l)" and m: "Suc m < length l" "l ! m = (cstr name, int j)"
    and name: "terminated name" "cstr name \<noteq> [46]" "cstr name \<noteq> [46, 46]" and ji: "j \<noteq> i"
    and emp: "i_type (inodes nfs ! j) = UFS_DIRECTORY \<longrightarrow> i_size (inodes nfs ! j) = 64"
    and ptr: "\<forall>p \<in> set (i_direct (inodes nfs ! j)). p \<noteq> - 1 \<longrightarrow> unat p < nat (num_data (fs_s nfs))"
    and nm: "terminated nm" "cstr nm \<notin> fst ` set (take m l)"
  shows "\<exists>nfs'. ufs_unlink pf drv junk nfs (int i) name = Ok (0, nfs') \<and>
    ufs_lookup pf drv nfs' (int i) nm = Err Aborted"
proof -
  let ?c = "bytes (fs_disk nfs)" and ?ino = "inodes nfs ! i" and ?s = "fs_s nfs"
  have m': "m < length l" "m mod 128 \<noteq> 0 \<or> Suc m < length l" using m(1) by simp_all
  obtain nfs' where r: "ufs_unlink pf drv junk nfs (int i) name = Ok (0, nfs')" and u: "unlinked junk nfs i (length l) m j nfs'"
    by (rule unlink_done [where junk = junk, OF ok dir m'(1) m(2) name m'(2) ji emp ptr])
  note al = abs_dirD [OF dir] and uf = unlink_facts [OF ok dir m'(1) m(2)] and u' = u [unfolded unlinked_def]
  let ?sl = "slot (bytes (fs_disk nfs')) (i_direct ?ino)"
  have wf: "fs_wf ?c (lim (fs_disk nfs)) nfs" using ok by (simp add: fs_ok_def)
  then have tab: "tables_ok nfs" by (simp add: fs_wf_def)
  note dw = dir_wf_ok [OF wf al(1,2)] and ii = fs_wfD [OF wf al(1)]
  note w = dw(1) [unfolded dir_wf_def uf(1)]
  have n30: "length l \<le> 3840" using w by simp
  have used: "i_direct ?ino ! k \<noteq> - 1" "k < 30" if "128 * k < length l" for k
    using w that by auto
  have sl: "?sl h = (if h = m then hole junk else slot ?c (i_direct ?ino) h)" if "h \<le> m" for h
    using that m(1) times_div_less_eq_dividend [of 128 h] uf(1) by (intro unlinked_slots [OF ok al(1,2) _ u]) simp_all
  have diff: "de_inum (?sl h) \<noteq> - 1 \<and> terminated (de_name (?sl h)) \<and> cstr (de_name (?sl h)) \<noteq> cstr nm" if h: "h < m" for h
  proof -
    have "entry_wf (nat (num_inodes ?s)) (inode_bp nfs) (slot ?c (i_direct ?ino) h)" using w h m(1) by simp
    moreover have "cstr (de_name (slot ?c (i_direct ?ino) h)) = fst (l ! h)"
      using dir_list_nth [of h ?ino ?c] al(3) h m(1) uf(1) by simp
    moreover have "fst (l ! h) \<noteq> cstr nm"
      using nm(2) nth_mem [of h "take m l"] h m(1) by (auto simp: image_iff)
    ultimately show ?thesis using h sl [of h] by (auto simp: entry_wf_def)
  qed
  have "\<forall>k. 128 * k \<le> m \<longrightarrow> k < length (i_direct ?ino) \<and> blk_ok (lim (fs_disk nfs')) (i_direct ?ino ! k)"
    using used dw(3,4) u' m(1) by auto
  then have "lookup_blocks drv nm (i_direct ?ino) (int (length l - 1)) (fs_disk nfs') = Err Aborted"
    using diff u' m(1) sl [of m] nm(1) by (intro lookup_blocks_hole [of _ _ m]) simp_all
  moreover have "usize pf (int (32 * (length l - 1))) = 32 * int (length l - 1)"
  proof -
    have "(2 :: int) ^ 32 \<le> 2 ^ size_bits pf" using size_law by (rule power_increasing) simp
    then show ?thesis using n30 by (simp add: usize_def)
  qed
  moreover have "to_int (int (length l - 1)) = int (length l - 1)"
    using n30 by (simp add: to_int_def sint_of_nat32)
  moreover have "get_bitmap (inode_bp nfs') (int i) = Ok 1"
    using al(1) ii(6) fs_wfD(6) [OF wf uf(2)] ji tab u' by (simp add: get_bitmap_eq bm_bit_reset alloc_def)
  moreover have "int i < num_inodes ?s" "i < length (inodes nfs)" using al(1) ii(5) by (auto simp: alloc_def)
  ultimately have "ufs_lookup pf drv nfs' (int i) nm = Err Aborted"
    using al(2) u' by (simp add: ufs_lookup_def)
  then show ?thesis using r by blast
qed

end

section \<open>Removing the last entry\<close>

text \<open>Freeing an inode leaves the directories well-formed that do not refer to it.\<close>

lemma dir_wf_reset:
  assumes "dir_wf c n ib ino" and "int j \<notin> snd ` set (dir_list c ino)" and "bm_cap ib = 32" "j < 32" "n \<le> 32"
  shows "dir_wf c n (bm_reset ib j) ino"
proof -
  have "entry_wf n (bm_reset ib j) (slot c (i_direct ino) h)" if "h < dir_size ino" for h
  proof -
    have e: "entry_wf n ib (slot c (i_direct ino) h)" using assms(1) that by (simp add: dir_wf_def)
    moreover have "de_inum (slot c (i_direct ino) h) \<noteq> int j"
      using assms(2) that by (force simp: dir_list_slot)
    ultimately show ?thesis using assms(3-5) by (auto simp: entry_wf_def bm_bit_reset)
  qed
  then show ?thesis using assms(1) by (simp add: dir_wf_def)
qed

text \<open>A directory that loses its last entry, which is not alone in its block.\<close>

lemma dir_remove_last:
  assumes wf: "dir_wf c N ib ino" and n: "dir_size ino = Suc n" "n mod 128 \<noteq> 0"
    and sl: "\<And>h. h \<noteq> n \<Longrightarrow> 128 * (h div 128) < Suc n \<Longrightarrow> slot c' (i_direct ino) h = slot c (i_direct ino) h"
    and at: "de_inum (slot c' (i_direct ino) n) = - 1" and new: "new = ino\<lparr>i_size := int (32 * n)\<rparr>"
  shows "dir_wf c' N ib new" and "dir_list c ino = dir_list c' new @ [dir_list c ino ! n]"
proof -
  have sz: "dir_size new = n" by (simp add: new dir_size_def)
  have blk: "128 * k < Suc n \<longleftrightarrow> 128 * k < n" for k using n(2) by (cases "n = 128 * k") auto
  have lt: "128 * (h div 128) < Suc n" if "h < n" for h
    using that times_div_less_eq_dividend [of 128 h] by linarith
  show dl: "dir_list c ino = dir_list c' new @ [dir_list c ino ! n]"
  proof -
    have nth: "dir_list c ino ! n = (cstr (de_name (slot c (i_direct ino) n)), de_inum (slot c (i_direct ino) n))"
      by (rule dir_list_nth) (simp add: n(1))
    show ?thesis unfolding nth using sl lt by (simp add: dir_list_slot sz n(1)) (simp add: new)
  qed
  have "distinct (map fst (dir_list c ino))" using wf by (simp add: dir_wf_def)
  then have "distinct (map fst (dir_list c' new))" by (subst (asm) dl) simp
  moreover have "de_inum (slot c' (i_direct new) h) = - 1" if h: "h < 3840" "n \<le> h" "128 * (h div 128) < n" for h
  proof (cases "h = n")
    case False
    then have "de_inum (slot c (i_direct ino) h) = - 1" using wf h n(1) by (simp add: dir_wf_def)
    then show ?thesis using sl [OF False] h(3) by (simp add: new)
  qed (use at new in simp)
  moreover have "entry_wf N ib (slot c' (i_direct new) h)" if "h < n" for h
    using wf that sl [of h] lt n(1) by (simp add: dir_wf_def new)
  ultimately show "dir_wf c' N ib new"
    using wf blk n(1) unfolding dir_wf_def sz by (simp add: new)
qed

context ufs_rw
begin

text \<open>The nodes after the removal of the last entry.\<close>

lemma unlinked_parent:
  assumes ok: "fs_ok nfs" and dir: "abs_of nfs i = Some (Dir (l @ [e]))" and l: "length l mod 128 \<noteq> 0"
    and u: "unlinked junk nfs i (Suc (length l)) (length l) j nfs'"
  shows "dir_wf (bytes (fs_disk nfs')) (nat (num_inodes (fs_s nfs))) (inode_bp nfs) ((inodes nfs ! i)\<lparr>i_size := int (32 * length l)\<rparr>)"
    and "dir_list (bytes (fs_disk nfs')) ((inodes nfs ! i)\<lparr>i_size := int (32 * length l)\<rparr>) = l"
proof -
  let ?c = "bytes (fs_disk nfs)" and ?c' = "bytes (fs_disk nfs')" and ?ino = "inodes nfs ! i" and ?n = "length l"
  let ?new = "?ino\<lparr>i_size := int (32 * ?n)\<rparr>"
  note al = abs_dirD [OF dir]
  have wf: "fs_wf ?c (lim (fs_disk nfs)) nfs" using ok by (simp add: fs_ok_def)
  note dw = dir_wf_ok [OF wf al(1,2)]
  have n: "dir_size ?ino = Suc ?n" using arg_cong [OF al(3), of length] by simp
  have sl: "slot ?c' (i_direct ?ino) h = (if h = ?n then hole junk else slot ?c (i_direct ?ino) h)"
    if "128 * (h div 128) < Suc ?n" for h
    by (rule unlinked_slots [OF ok al(1,2) _ u]) (use that n in simp_all)
  have ld: "128 * (?n div 128) < Suc ?n" using times_div_less_eq_dividend [of 128 ?n] by linarith
  note rem = dir_remove_last [OF dw(1) n l, of ?c' ?new, OF _ _ refl]
  show "dir_wf ?c' (nat (num_inodes (fs_s nfs))) (inode_bp nfs) ?new" by (rule rem(1)) (use sl ld in simp_all)
  have "dir_list ?c ?ino = dir_list ?c' ?new @ [dir_list ?c ?ino ! ?n]" by (rule rem(2)) (use sl ld in simp_all)
  then show "dir_list ?c' ?new = l" by (simp add: al(3))
qed

lemma unlinked_others:
  assumes ok: "fs_ok nfs" and al: "alloc nfs i" and m: "m div 128 < 30" and u: "unlinked junk nfs i n m j nfs'"
    and j: "j < 32" and h: "alloc nfs h" "h \<noteq> i"
    and refs: "\<forall>l'. abs_of nfs h = Some (Dir l') \<longrightarrow> int j \<notin> snd ` set l'"
  shows "node_wf (bytes (fs_disk nfs')) (nat (num_inodes (fs_s nfs))) (inode_bp nfs') (inodes nfs ! h)"
    and "node_of (bytes (fs_disk nfs')) (inodes nfs ! h) = node_of (bytes (fs_disk nfs)) (inodes nfs ! h)"
proof -
  let ?c = "bytes (fs_disk nfs)" and ?c' = "bytes (fs_disk nfs')"
  have wf: "fs_wf ?c (lim (fs_disk nfs)) nfs" using ok by (simp add: fs_ok_def)
  then have lay: "layout_ok (fs_s nfs) (lim (fs_disk nfs))" and cap: "bm_cap (inode_bp nfs) = 32" by (simp_all add: fs_wf_def)
  have "agree ?c ?c' (unat (i_direct (inodes nfs ! h) ! k))" if k: "k < 30" "i_direct (inodes nfs ! h) ! k \<noteq> - 1" for k
  proof -
    have "i_direct (inodes nfs ! h) ! k \<noteq> i_direct (inodes nfs ! i) ! (m div 128)"
      using fs_wfD(3) [OF wf h(1) al k(1) m k(2)] h(2) by blast
    then have "unat (i_direct (inodes nfs ! h) ! k) \<noteq> unat (i_direct (inodes nfs ! i) ! (m div 128))"
      using word_unat_eq_iff by blast
    then show ?thesis using u data_ptr_ok(3) [OF lay fs_wfD(2) [OF wf h(1) k]] by (simp add: unlinked_def)
  qed
  then have fr: "agree_ptrs ?c ?c' (inodes nfs ! h)" by (simp add: agree_ptrs_def)
  note f = node_frame [OF fs_wfD(1) [OF wf h(1)] fr, where ib' = "inode_bp nfs"]
  then show o: "node_of ?c' (inodes nfs ! h) = node_of ?c (inodes nfs ! h)" by blast
  have "int j \<notin> snd ` set (dir_list ?c' (inodes nfs ! h))" if "i_type (inodes nfs ! h) = UFS_DIRECTORY"
    using refs [rule_format, of "dir_list ?c (inodes nfs ! h)"] h that o
    by (auto simp: abs_of_def fs_abs_def node_of_def)
  then show "node_wf ?c' (nat (num_inodes (fs_s nfs))) (inode_bp nfs') (inodes nfs ! h)"
    using f dir_wf_reset [OF _ _ cap j layout_counts(1) [OF lay]] u by (auto simp: node_wf_def unlinked_def)
qed

lemma unlink_last_ok:
  assumes ok: "fs_ok nfs" and dir: "abs_of nfs i = Some (Dir (l @ [(cstr name, int j)]))" and l: "length l mod 128 \<noteq> 0"
    and name: "terminated name" "cstr name \<noteq> [46]" "cstr name \<noteq> [46, 46]"
    and fil: "abs_of nfs j = Some (File b)"
    and refs: "\<forall>h l'. abs_of nfs h = Some (Dir l') \<longrightarrow> int j \<in> snd ` set l' \<longrightarrow> h = i" "int j \<notin> snd ` set l"
    and ptr: "\<forall>p \<in> set (i_direct (inodes nfs ! j)). p \<noteq> - 1 \<longrightarrow> unat p \<in> set (free_blocks nfs)"
  shows "\<exists>nfs'. ufs_unlink pf drv junk nfs (int i) name = Ok (0, nfs') \<and>
    done_with nfs ((abs_of nfs)(j := None, i \<mapsto> Dir l)) nfs' \<and> free_blocks nfs' = free_blocks nfs"
proof -
  let ?c = "bytes (fs_disk nfs)" and ?ino = "inodes nfs ! i" and ?s = "fs_s nfs" and ?n = "length l"
  let ?N = "nat (num_inodes ?s)" and ?l = "l @ [(cstr name, int j)]"
  have jt: "alloc nfs j" "i_type (inodes nfs ! j) \<noteq> UFS_DIRECTORY"
    using fil by (auto simp: abs_of_def fs_abs_def node_of_def split: if_splits)
  note al = abs_dirD [OF dir]
  have ji: "j \<noteq> i" using al(2) jt(2) by blast
  have ptr': "\<forall>p \<in> set (i_direct (inodes nfs ! j)). p \<noteq> - 1 \<longrightarrow> unat p < nat (num_data ?s)"
    using ptr free_blocks_mem by blast
  have m: "?n < length ?l" "?l ! ?n = (cstr name, int j)" "?n mod 128 \<noteq> 0 \<or> Suc ?n < length ?l" using l by simp_all
  obtain nfs' where r: "ufs_unlink pf drv junk nfs (int i) name = Ok (0, nfs')" and "unlinked junk nfs i (length ?l) ?n j nfs'"
    by (rule unlink_done [where junk = junk, OF ok dir m(1,2) name m(3) ji _ ptr']) (use jt in auto)
  then have u: "unlinked junk nfs i (Suc ?n) ?n j nfs'" by simp
  note u' = u [unfolded unlinked_def]
  let ?c' = "bytes (fs_disk nfs')" and ?new = "?ino\<lparr>i_size := int (32 * ?n)\<rparr>"
  have wf: "fs_wf ?c (lim (fs_disk nfs)) nfs" using ok by (simp add: fs_ok_def)
  then have lay: "layout_ok ?s (lim (fs_disk nfs))" and cap: "bm_cap (inode_bp nfs) = 32" by (simp_all add: fs_wf_def)
  note n32 = layout_counts(1,2) [OF lay] and di = unlinked_parent [OF ok dir l u]
  have j32: "j < 32" using fs_wfD(6) [OF wf jt(1)] .
  have al': "alloc nfs' h \<longleftrightarrow> h \<noteq> j \<and> alloc nfs h" for h
    using n32 cap j32 u' by (auto simp: alloc_def bm_bit_reset)
  have ino: "inodes nfs' ! h = (if h = i then ?new else inodes nfs ! h)" if "alloc nfs h" for h
    using fs_wfD(5) [OF wf that] u' by simp
  have bits: "bm_bit (data_bp nfs') k \<longleftrightarrow> bm_bit (data_bp nfs) k" if "k < 32" for k
    using u' ptr that free_blocks_mem by blast
  have nd: "node_wf ?c' ?N (inode_bp nfs') (inodes nfs ! h)" "node_of ?c' (inodes nfs ! h) = node_of ?c (inodes nfs ! h)"
    if h: "alloc nfs h" "h \<noteq> i" for h
    using unlinked_others [OF ok al(1) unlink_facts(5) [OF ok dir m(1,2)] u j32 h] refs(1) h(2) by blast+
  have "node_wf ?c' ?N (inode_bp nfs') ?new"
    using dir_wf_reset [OF di(1) _ cap j32 n32(1)] refs(2) di(2) al(2) u'
    by (simp add: node_wf_def UFS_DIRECTORY_def UFS_REGULAR_FILE_def)
  moreover have "data_ptr ?s (data_bp nfs') p \<longleftrightarrow> data_ptr ?s (data_bp nfs) p" for p
    using bits n32(2) by (auto simp: data_ptr_def)
  then have "ptrs_wf nfs'" using wf ino u' by (simp add: fs_wf_def ptrs_wf_def al')
  ultimately have "fs_wf ?c' (lim (fs_disk nfs')) nfs'"
    using lay nd ino u' by (auto simp: fs_wf_def al')
  then have "fs_ok nfs'" using u' by (simp add: fs_ok_def)
  moreover have "abs_of nfs' = (abs_of nfs)(j := None, i \<mapsto> Dir l)"
  proof
    fix h show "abs_of nfs' h = ((abs_of nfs)(j := None, i \<mapsto> Dir l)) h"
      using nd(2) [of h] ino [of h] di(2) al ji by (auto simp: abs_of_def fs_abs_def al' node_of_def)
  qed
  moreover have "free_blocks nfs' = free_blocks nfs"
    unfolding free_blocks_def using bits n32(2) u' by (intro filter_cong) auto
  ultimately show ?thesis
    using r u' by (auto simp: done_with_def)
qed

end

end
