(* ===== verification/UfsFull.thy ===== *)
theory UfsFull
  imports UfsCreat
begin

text \<open>
  \<open>ufs_creat\<close> when it fails: what it refuses before it allocates, and what is left when it finds
  out too late that there is no room for the entry. The inode is then taken in memory, with its
  dirty bit, although no directory lists it.
\<close>

section \<open>Refusals before the allocation\<close>

context ufs_rw
begin

lemma ufs_creat_refuses:
  assumes ok: "fs_ok nfs" and name: "terminated name"
    and no: "pinum < 0 \<or> num_inodes (fs_s nfs) \<le> pinum \<or> (\<forall>l. abs_of nfs (nat pinum) \<noteq> Some (Dir l)) \<or>
      27 < length (cstr name) \<or> free_inodes nfs = [] \<or>
      (\<exists>l k. abs_of nfs (nat pinum) = Some (Dir l) \<and> map_of l (cstr name) = Some (int k))"
  shows "\<exists>d'. ufs_creat pf drv junk nfs pinum typ name = Ok (- 1, nfs\<lparr>fs_disk := d'\<rparr>) \<and> same (fs_disk nfs) d'"
proof (cases "pinum < 0 \<or> num_inodes (fs_s nfs) \<le> pinum")
  case True
  then show ?thesis using ok by (intro exI [of _ "fs_disk nfs"]) (auto simp: ufs_creat_def same_def fs_ok_def)
next
  case in_range: False
  then obtain i where i: "pinum = int i" "i < nat (num_inodes (fs_s nfs))"
    by (metis linorder_not_less nonneg_int_cases zless_nat_eq_int_zless)
  have wf: "fs_wf (bytes (fs_disk nfs)) (lim (fs_disk nfs)) nfs" and dok: "dok (fs_disk nfs)" using ok by (simp_all add: fs_ok_def)
  then have lay: "layout_ok (fs_s nfs) (lim (fs_disk nfs))" and tab: "tables_ok nfs" by (simp_all add: fs_wf_def)
  have n32: "nat (num_inodes (fs_s nfs)) \<le> 32" "nat (num_data (fs_s nfs)) \<le> 32" using layout_counts [OF lay] by simp_all
  have ln: "length (inode_bp nfs) = 1" "length (data_bp nfs) = 1" "i < length (inodes nfs)"
    using tab i(2) by (simp_all add: tables_ok_def)
  have i32: "i < bm_cap (inode_bp nfs)" using i(2) n32(1) ln(1) by (simp add: bm_cap_length)
  show ?thesis
  proof (cases "\<exists>l. abs_of nfs i = Some (Dir l) \<and> length (cstr name) \<le> 27")
    case False
    then have "\<not> bm_bit (inode_bp nfs) i \<or> i_type (inodes nfs ! i) \<noteq> UFS_DIRECTORY \<or> 27 < length (cstr name)"
      using abs_dir [of nfs i] i(2) by (auto simp: alloc_def)
    then show ?thesis
      using in_range i i32 ln dok name by (intro exI [of _ "fs_disk nfs"])
        (auto simp: ufs_creat_def get_bitmap_eq same_def arr_strlen_eq)
  next
    case True
    then obtain l where l: "abs_of nfs i = Some (Dir l)" "length (cstr name) \<le> 27" by blast
    note al = abs_dirD [OF l(1)]
    obtain d0 where lk: "ufs_lookup pf drv nfs (int i) name = Ok (case map_of l (cstr name) of Some k \<Rightarrow> k | None \<Rightarrow> - 1, nfs\<lparr>fs_disk := d0\<rparr>)"
      "same (fs_disk nfs) d0"
      using lookup_wf [OF ok l(1) name] by blast
    have g: "get_bitmap (inode_bp nfs) (int i) = Ok 1" using al(1) i32 by (simp add: get_bitmap_eq alloc_def)
    have f1: "find_clear get_bitmap (inode_bp nfs) 0 (nat (num_inodes (fs_s nfs))) = Ok (first_of (free_inodes nfs))"
      using find_clear_inodes [OF n32(1) ln(1)] by (simp add: free_inodes_def)
    have f2: "find_clear2 get_bitmap (data_bp nfs) 0 (nat (num_data (fs_s nfs))) (- 1) (- 1) =
        Ok (first_of (free_blocks nfs), first_of (tl (free_blocks nfs)))"
      using find_clear2_data [OF n32(2) ln(2)] by (simp add: free_blocks_def Let_def)
    have "free_inodes nfs = [] \<or> (\<exists>k. map_of l (cstr name) = Some (int k))"
      using no in_range i(1) l by auto
    then show ?thesis
      using lk in_range i(1) ln(3) g al(2) l(2) name f1 f2
      by (intro exI [of _ d0]) (auto simp: ufs_creat_def arr_strlen_eq)
  qed
qed

section \<open>No room for the entry\<close>

text \<open>The state after a creation that failed: \<open>ei\<close> is taken, and nothing else is different.\<close>

definition leaked :: "'d ufs \<Rightarrow> nat \<Rightarrow> 'd ufs \<Rightarrow> bool" where
  "leaked nfs ei nfs' \<longleftrightarrow> inode_bp nfs' = bm_set (inode_bp nfs) ei \<and> data_bp nfs' = data_bp nfs \<and> fs_s nfs' = fs_s nfs \<and>
     bm_bit (dirty_inode_bp nfs') ei \<and> (\<forall>j. j \<noteq> ei \<longrightarrow> inodes nfs' ! j = inodes nfs ! j) \<and> same (fs_disk nfs) (fs_disk nfs')"

lemma same_trans: "same d d' \<Longrightarrow> same d' d'' \<Longrightarrow> same d d''"
  by (simp add: same_def)

lemma with_inode_leaked:
  assumes "tables_ok nfs" and "ei < 32" and "same (fs_disk nfs) d"
  shows "leaked nfs ei (with_inode ei typ (nfs\<lparr>fs_disk := d\<rparr>))"
  using assms by (simp add: leaked_def bm_bit_set)

lemma leaked_parent:
  assumes "leaked nfs ei nfs1" and "tables_ok nfs1" and "ei < 32" "ei < length (inodes nfs1)" and "i < 32" "i < length (inodes nfs1)"
  shows "\<exists>nfs'. bindr (upd_inode (int ei) (\<lambda>ino. ino\<lparr>i_size := 0\<rparr>) nfs1) (\<lambda>nfs.
      creat_parent pf drv junk (int i) name (int ei) (- 1) True nfs) = Ok (- 1, nfs') \<and> leaked nfs ei nfs'"
proof -
  let ?is = "(inodes nfs1)[ei := (inodes nfs1 ! ei)\<lparr>i_size := 0\<rparr>]" and ?dib = "bm_set (dirty_inode_bp nfs1) i"
  let ?nfs2 = "nfs1\<lparr>inodes := ?is, dirty_inode_bp := ?dib\<rparr>"
  have "bm_cap (dirty_inode_bp nfs1) = 32" using assms(2) by simp
  then have t: "touch_inode (int i) (nfs1\<lparr>inodes := ?is\<rparr>) = Ok ?nfs2" and d: "bm_bit ?dib ei"
    using assms(1,3,5) by (simp_all add: touch_inode_def set_bitmap_eq leaked_def bm_bit_set)
  have "leaked nfs ei ?nfs2" using assms(1) d by (simp add: leaked_def)
  then show ?thesis
    using t assms(4,6) by (intro exI [of _ ?nfs2]) (simp add: upd_inode_eq creat_parent_def)
qed

text \<open>A directory with no free slot at all, and a disk with too few free blocks.\<close>

lemma creat_alloc_full_dir:
  assumes ok: "fs_ok nfs" and dir: "abs_of nfs i = Some (Dir l)" and len: "length l = 128 * DIRECT_PTRS"
    and ei: "ei < nat (num_inodes (fs_s nfs))" "\<not> alloc nfs ei"
  shows "creat_alloc pf drv junk (int i) typ name (int ei) edv edv2 nfs = Ok (- 1, with_inode ei typ nfs)"
proof -
  note al = abs_dirD [OF dir]
  have wf: "fs_wf (bytes (fs_disk nfs)) (lim (fs_disk nfs)) nfs" using ok by (simp add: fs_ok_def)
  then have lay: "layout_ok (fs_s nfs) (lim (fs_disk nfs))" and tab: "tables_ok nfs" by (simp_all add: fs_wf_def)
  note i = fs_wfD [OF wf al(1)] and dw = dir_wf_ok [OF wf al(1,2)]
  have ei32: "ei < 32" and eil: "ei < length (inodes nfs)" and ne: "ei \<noteq> i"
    using layout_counts(1) [OF lay] ei tab al(1) by (auto simp: tables_ok_def)
  have "dir_size (inodes nfs ! i) = length l" using al(3) length_dir_list by metis
  then have "i_size (inodes nfs ! i) = 122880" using dw(1) len by (auto simp: dir_wf_def dir_size_def)
  then show ?thesis
    using ne i(5) by (simp add: creat_alloc_def take_new_inode [OF tab ei32 eil])
qed

lemma creat_alloc_no_blocks:
  assumes ok: "fs_ok nfs" and dir: "abs_of nfs i = Some (Dir l)" and len: "length l < 128 * DIRECT_PTRS"
    and ei: "ei < nat (num_inodes (fs_s nfs))" "\<not> alloc nfs ei" and typ32: "is_int32 typ"
    and sp: "length (free_blocks nfs) < blocks_needed typ (length l)"
  shows "\<exists>nfs'. creat_alloc pf drv junk (int i) typ name (int ei)
      (first_of (free_blocks nfs)) (first_of (tl (free_blocks nfs))) nfs = Ok (- 1, nfs') \<and> leaked nfs ei nfs'"
proof -
  obtain d1 where d1: "same (fs_disk nfs) d1" and head: "\<forall>edv edv2. creat_alloc pf drv junk (int i) typ name (int ei) edv edv2 nfs =
      (let nfs1 = with_inode ei typ (nfs\<lparr>fs_disk := d1\<rparr>) in
       if typ = UFS_DIRECTORY then
        (if edv = - 1 \<or> length l mod 128 = 0 \<and> edv2 = - 1 then Ok (- 1, nfs1)
         else bindr (creat_dir_block pf drv junk (int i) (int ei) edv nfs1) (\<lambda>nfs.
             creat_parent pf drv junk (int i) name (int ei) edv2 (length l mod 128 = 0) nfs))
       else bindr (upd_inode (int ei) (\<lambda>ino. ino\<lparr>i_size := 0\<rparr>) nfs1) (\<lambda>nfs.
         creat_parent pf drv junk (int i) name (int ei) edv (length l mod 128 = 0) nfs))"
    using creat_alloc_head [OF ok dir len ei, of junk "typ" name] by blast
  let ?nfs1 = "with_inode ei typ (nfs\<lparr>fs_disk := d1\<rparr>)"
  note al = abs_dirD [OF dir]
  have wf: "fs_wf (bytes (fs_disk nfs)) (lim (fs_disk nfs)) nfs" using ok by (simp add: fs_ok_def)
  then have lay: "layout_ok (fs_s nfs) (lim (fs_disk nfs))" and tab: "tables_ok nfs" by (simp_all add: fs_wf_def)
  have ei32: "ei < 32" and eil: "ei < length (inodes nfs)"
    using layout_counts(1) [OF lay] ei tab by (auto simp: tables_ok_def)
  have lk: "leaked nfs ei ?nfs1" by (rule with_inode_leaked [OF tab ei32 d1])
  have t1: "tables_ok ?nfs1" using with_inode_tables [of "nfs\<lparr>fs_disk := d1\<rparr>" ei "typ"] tab eil typ32 by (simp add: tables_ok_def)
  show ?thesis
  proof (cases "typ = UFS_DIRECTORY")
    case True
    have "first_of (free_blocks nfs) = - 1 \<or> length l mod 128 = 0 \<and> first_of (tl (free_blocks nfs)) = - 1"
      using sp True by (cases "free_blocks nfs") (auto simp: blocks_needed_def split: if_splits)
    then show ?thesis using lk True unfolding head [rule_format] by (simp add: Let_def)
  next
    case False
    then have f: "length l mod 128 = 0" "free_blocks nfs = []" using sp by (auto simp: blocks_needed_def split: if_splits)
    show ?thesis
      using leaked_parent [OF lk t1 ei32 _ fs_wfD(6) [OF wf al(1)], of junk name] eil fs_wfD(5) [OF wf al(1)] False f
      unfolding head [rule_format] by (simp add: Let_def)
  qed
qed

lemma ufs_creat_leaks:
  assumes ok: "fs_ok nfs" and dir: "abs_of nfs i = Some (Dir l)"
    and name: "terminated name" "length (cstr name) \<le> 27" "cstr name \<notin> fst ` set l"
    and ei: "free_inodes nfs = ei # rest" and typ32: "is_int32 typ"
    and sp: "length l = 128 * DIRECT_PTRS \<or>
      length l < 128 * DIRECT_PTRS \<and> length (free_blocks nfs) < blocks_needed typ (length l)"
  shows "\<exists>nfs'. ufs_creat pf drv junk nfs (int i) typ name = Ok (- 1, nfs') \<and> leaked nfs ei nfs'"
proof -
  have e: "ei < nat (num_inodes (fs_s nfs))" "\<not> alloc nfs ei" using free_inodes_mem [of ei nfs] ei by simp_all
  obtain d0 where d0: "same (fs_disk nfs) d0" "ufs_creat pf drv junk nfs (int i) typ name =
     creat_alloc pf drv junk (int i) typ name (int ei) (first_of (free_blocks nfs)) (first_of (tl (free_blocks nfs)))
       (nfs\<lparr>fs_disk := d0\<rparr>)"
    using ufs_creat_tests [OF ok dir name ei] by blast
  let ?nfs0 = "nfs\<lparr>fs_disk := d0\<rparr>"
  note s0 = fs_ok_same [OF ok d0(1)]
  have fr: "free_blocks ?nfs0 = free_blocks nfs" "alloc ?nfs0 ei = alloc nfs ei" "abs_of ?nfs0 i = Some (Dir l)"
    using dir s0(2) by (simp_all add: free_blocks_def alloc_def)
  have tab: "tables_ok ?nfs0" and lay: "layout_ok (fs_s nfs) (lim (fs_disk nfs))"
    using ok by (simp_all add: fs_ok_def fs_wf_def tables_ok_def)
  have ei32: "ei < 32" using layout_counts(1) [OF lay] e(1) by simp
  from sp show ?thesis
  proof (elim disjE conjE)
    assume "length l = 128 * DIRECT_PTRS"
    then have "ufs_creat pf drv junk nfs (int i) typ name = Ok (- 1, with_inode ei typ ?nfs0)"
      using creat_alloc_full_dir [OF s0(1) fr(3), of ei] e fr(2) d0(2) by simp
    then show ?thesis using with_inode_leaked [of nfs ei d0 "typ"] tab ei32 d0(1) by (simp add: tables_ok_def)
  next
    assume "length l < 128 * DIRECT_PTRS" "length (free_blocks nfs) < blocks_needed typ (length l)"
    then obtain nfs' where "creat_alloc pf drv junk (int i) typ name (int ei)
        (first_of (free_blocks nfs)) (first_of (tl (free_blocks nfs))) ?nfs0 = Ok (- 1, nfs')" "leaked ?nfs0 ei nfs'"
      using creat_alloc_no_blocks [OF s0(1) fr(3), of ei "typ" junk name] e fr(1,2) typ32 by auto
    then show ?thesis
      using d0 same_trans [OF d0(1)] by (auto simp: leaked_def)
  qed
qed

lemma leaked_abs:
  assumes ok: "fs_ok nfs" and ei: "free_inodes nfs = ei # rest" and lk: "leaked nfs ei nfs'"
  shows "free_inodes nfs' = rest" and "\<exists>nd. abs_of nfs' = (abs_of nfs)(ei \<mapsto> nd)" and "free_blocks nfs' = free_blocks nfs"
proof -
  have e: "ei < nat (num_inodes (fs_s nfs))" "\<not> alloc nfs ei" using free_inodes_mem [of ei nfs] ei by simp_all
  have "layout_ok (fs_s nfs) (lim (fs_disk nfs))" and tab: "tables_ok nfs"
    using ok by (simp_all add: fs_ok_def fs_wf_def)
  then have n32: "nat (num_inodes (fs_s nfs)) \<le> 32" using layout_counts(1) by blast
  have b: "bm_bit (inode_bp nfs') j \<longleftrightarrow> j = ei \<or> bm_bit (inode_bp nfs) j" if "j < 32" for j
    using lk tab e(1) n32 that by (simp add: leaked_def bm_bit_set)
  have "free_inodes nfs' = filter (\<lambda>j. j \<noteq> ei) (free_inodes nfs)"
    unfolding free_inodes_def filter_filter using lk n32 b by (intro filter_cong) (auto simp: leaked_def)
  moreover have "distinct (free_inodes nfs)" by (simp add: free_inodes_def)
  ultimately show "free_inodes nfs' = rest" unfolding ei by (auto simp: filter_id_conv)
  have al: "alloc nfs' j \<longleftrightarrow> j = ei \<or> alloc nfs j" for j
    using lk b [of j] e(1) n32 by (auto simp: leaked_def alloc_def)
  have "abs_of nfs' = (abs_of nfs)(ei \<mapsto> node_of (bytes (fs_disk nfs)) (inodes nfs' ! ei))"
    using lk by (intro ext) (auto simp: abs_of_def fs_abs_def al leaked_def same_def)
  then show "\<exists>nd. abs_of nfs' = (abs_of nfs)(ei \<mapsto> nd)" by blast
  show "free_blocks nfs' = free_blocks nfs" using lk by (simp add: free_blocks_def leaked_def)
qed

end

end
