(* ===== verification/Mkfs.thy ===== *)
theory Mkfs
  imports UfsMount UfsUnlink UfsFull
begin

text \<open>
  The host tools: the file system of fs/ufs.c is the one of the kernel on POSIX calls, and
  fs/mkfs.c writes the empty image. An image made by \<open>mkfs\<close> with its default geometry mounts
  as the file system whose only node is the root directory.
\<close>

section \<open>fs/ufs.c\<close>

interpretation hfs: ufs_rw host_driver host_ok hf_bytes hf_len hf_pos host_platform
  by (intro ufs_rw.intro host.disk_store_axioms host_c.c_platform_axioms)

section \<open>fs/mkfs.c\<close>

text \<open>\<open>pwrite\<close> to a regular file: it does not move the offset, and a hole reads as zeros.\<close>

definition host_pwrite :: "byte list \<Rightarrow> int \<Rightarrow> host_file \<Rightarrow> (int \<times> host_file) res" where
  "host_pwrite bs off d =
     (if off < 0 then Ok (- 1, d)
      else let a = nat off; base = (\<lambda>x. if hf_len d \<le> x \<and> x < a then 0 else hf_bytes d x)
        in Ok (int (length bs), d\<lparr>hf_bytes := wr base a bs, hf_len := max (hf_len d) (a + length bs)\<rparr>))"

definition blocks_for :: "int \<Rightarrow> int \<Rightarrow> int" where
  "blocks_for n k = c_div n k + (if c_mod n k \<noteq> 0 then 1 else 0)"

definition mkfs_super :: "int \<Rightarrow> int \<Rightarrow> super_t" where
  "mkfs_super ni nd =
     (let ib = 1; ibl = blocks_for ni (8 * 4096);
          db = ib + ibl; dbl = blocks_for nd (8 * 4096);
          ir = db + dbl; irl = blocks_for (to_int (usize host_platform (ni * 128))) 4096;
          dr = ir + irl
      in \<lparr>inode_bitmap_addr = ib, inode_bitmap_len = ibl, data_bitmap_addr = db, data_bitmap_len = dbl,
          inode_region_addr = ir, inode_region_len = irl, data_region_addr = dr, data_region_len = nd,
          num_inodes = ni, num_data = nd\<rparr>)"

definition mkfs_total_blocks :: "super_t \<Rightarrow> int" where
  "mkfs_total_blocks s =
     1 + inode_bitmap_len s + data_bitmap_len s + inode_region_len s + data_region_len s"

text \<open>A \<open>pwrite\<close> of \<open>n\<close> bytes that has to write all of them.\<close>

definition pwrite_all :: "byte list \<Rightarrow> int \<Rightarrow> host_file \<Rightarrow> host_file res" where
  "pwrite_all bs blk d = bindr (int32 (blk * 4096)) (\<lambda>a. bindr (host_pwrite bs a d) (\<lambda>(rc, d).
     if rc \<noteq> int (length bs) then Err Aborted else Ok d))"

fun mkfs_zero :: "nat \<Rightarrow> nat \<Rightarrow> host_file \<Rightarrow> host_file res" where
  "mkfs_zero i 0 d = Ok d"
| "mkfs_zero i (Suc n) d = bindr (pwrite_all (replicate 4096 0) (int i) d) (mkfs_zero (Suc i) n)"

text \<open>Only entry 0 of the inode block is assigned; the other 31 inodes are uninitialised memory.\<close>

definition mkfs_bitmap :: "byte list" where
  "mkfs_bitmap = enc_words (push_bit 31 1 # replicate 1023 0)"

definition mkfs_itable :: "super_t \<Rightarrow> (nat \<Rightarrow> byte) \<Rightarrow> byte list" where
  "mkfs_itable s junk = enc_inode \<lparr>i_type = UFS_DIRECTORY, i_size = 2 * 32,
       i_direct = of_int (data_region_addr s) # replicate 29 (- 1)\<rparr> @ rd junk 128 (31 * 128)"

definition mkfs_root :: "(nat \<Rightarrow> byte) \<Rightarrow> byte list res" where
  "mkfs_root junk = bindr (put_name host_platform (junk_name junk 0) dot 0) (\<lambda>e0.
     bindr (put_name host_platform (junk_name junk 1) dotdot 0) (\<lambda>e1.
     Ok (enc_dir_block (e0 # e1 # free_ents junk 2 128))))"

text \<open>\<open>main\<close> after the options are parsed; \<open>O_TRUNC\<close> makes the file empty.\<close>

definition mkfs :: "(nat \<Rightarrow> byte) \<Rightarrow> (nat \<Rightarrow> byte) \<Rightarrow> int \<Rightarrow> int \<Rightarrow> host_file res" where
  "mkfs junk1 junk2 ni nd =
     (if \<not> (ni \<ge> 32) \<or> \<not> (nd \<ge> 32) then Err Aborted
      else let s = mkfs_super ni nd; d = \<lparr>hf_bytes = (\<lambda>_. 0), hf_len = 0, hf_pos = 0\<rparr> in
      bindr (int32 (mkfs_total_blocks s)) (\<lambda>total.
      bindr (pwrite_all (enc_super s) 0 d) (\<lambda>d.
      bindr (mkfs_zero 1 (nat (total - 1)) d) (\<lambda>d.
      bindr (pwrite_all mkfs_bitmap (inode_bitmap_addr s) d) (\<lambda>d.
      bindr (pwrite_all mkfs_bitmap (data_bitmap_addr s) d) (\<lambda>d.
      bindr (pwrite_all (mkfs_itable s junk1) (inode_region_addr s) d) (\<lambda>d.
      bindr (mkfs_root junk2) (\<lambda>root.
      pwrite_all root (data_region_addr s) d))))))))"

section \<open>The image\<close>

text \<open>Bytes beyond the end of the file are zero, so writing past the end needs no special case.\<close>

definition zero_tail :: "host_file \<Rightarrow> bool" where
  "zero_tail d \<longleftrightarrow> (\<forall>x \<ge> hf_len d. hf_bytes d x = 0)"

lemma pwrite_all_ok:
  assumes "zero_tail d" and "b * 4096 < 2 ^ 31"
  shows "pwrite_all bs (int b) d =
      Ok (d\<lparr>hf_bytes := wr (hf_bytes d) (b * 4096) bs, hf_len := max (hf_len d) (b * 4096 + length bs)\<rparr>)"
    and "zero_tail (d\<lparr>hf_bytes := wr (hf_bytes d) (b * 4096) bs, hf_len := max (hf_len d) (b * 4096 + length bs)\<rparr>)"
proof -
  have "(\<lambda>x. if hf_len d \<le> x \<and> x < b * 4096 then 0 else hf_bytes d x) = hf_bytes d"
    using assms(1) by (intro ext) (simp add: zero_tail_def)
  moreover have "int32 (int b * 4096) = Ok (int (b * 4096))"
    using assms(2) by (simp add: is_int32_def)
  ultimately show "pwrite_all bs (int b) d =
      Ok (d\<lparr>hf_bytes := wr (hf_bytes d) (b * 4096) bs, hf_len := max (hf_len d) (b * 4096 + length bs)\<rparr>)"
    unfolding pwrite_all_def by (simp add: host_pwrite_def Let_def nat_mult_distrib)
  show "zero_tail (d\<lparr>hf_bytes := wr (hf_bytes d) (b * 4096) bs, hf_len := max (hf_len d) (b * 4096 + length bs)\<rparr>)"
    using assms(1) by (simp add: zero_tail_def wr_apply_out)
qed

lemma mkfs_zero_ok:
  assumes "zero_tail d" and "(i + n) * 4096 < 2 ^ 31" and "\<forall>x \<ge> i * 4096. hf_bytes d x = 0"
  shows "mkfs_zero i n d = Ok (d\<lparr>hf_len := if n = 0 then hf_len d else max (hf_len d) ((i + n) * 4096)\<rparr>)"
  using assms
proof (induction n arbitrary: i d)
  case (Suc n)
  have b: "i * 4096 < 2 ^ 31" using Suc.prems(2) by simp
  have id: "wr (hf_bytes d) (i * 4096) (replicate 4096 0) = hf_bytes d"
    using Suc.prems(3) by (auto simp: wr_def fun_eq_iff)
  let ?d = "d\<lparr>hf_bytes := hf_bytes d, hf_len := max (hf_len d) (i * 4096 + 4096)\<rparr>"
  have p: "pwrite_all (replicate 4096 0) (int i) d = Ok ?d" "zero_tail ?d"
    using pwrite_all_ok [OF Suc.prems(1) b, of "replicate 4096 0"] unfolding id by simp_all
  have "mkfs_zero (Suc i) n ?d = Ok (?d\<lparr>hf_len := if n = 0 then hf_len ?d else max (hf_len ?d) ((Suc i + n) * 4096)\<rparr>)"
    using Suc.prems p(2) by (intro Suc.IH) simp_all
  then show ?case
    using p(1) by (auto simp: max_def)
qed simp


definition default_super :: super_t where
  "default_super = \<lparr>inode_bitmap_addr = 1, inode_bitmap_len = 1, data_bitmap_addr = 2, data_bitmap_len = 1,
     inode_region_addr = 3, inode_region_len = 1, data_region_addr = 4, data_region_len = 32,
     num_inodes = 32, num_data = 32\<rparr>"

definition root_inode :: inode_t where
  "root_inode = \<lparr>i_type = UFS_DIRECTORY, i_size = 64, i_direct = 4 # replicate 29 (- 1)\<rparr>"

lemma mkfs_super_default: "mkfs_super 32 32 = default_super"
  by (simp add: mkfs_super_def default_super_def Let_def blocks_for_def usize_def host_platform_def
      to_int_def is_int32_def c_mod_def)

lemma default_typed [simp]: "super_typed default_super" "inode_typed root_inode"
  by (simp_all add: super_typed_def super_words_def default_super_def is_int32_def inode_typed_def
      root_inode_def UFS_DIRECTORY_def)

lemma mkfs_root_ok:
  obtains e0 e1 where "mkfs_root junk = Ok (enc_dir_block (e0 # e1 # free_ents junk 2 128))"
    "dir_ent_typed e0" "de_inum e0 = 0" "terminated (de_name e0)" "cstr (de_name e0) = [46]"
    "dir_ent_typed e1" "de_inum e1 = 0" "terminated (de_name e1)" "cstr (de_name e1) = [46, 46]"
proof -
  have 0: "is_int32 0" by (simp add: is_int32_def)
  obtain e0 where e0: "put_name host_platform (junk_name junk 0) dot 0 = Ok e0" "dir_ent_typed e0"
    "de_inum e0 = 0" "terminated (de_name e0)" "cstr (de_name e0) = [46]"
    using host_c.put_name_ok [OF _ _ 0, of dot junk 0] by (auto simp: dot_def)
  obtain e1 where e1: "put_name host_platform (junk_name junk 1) dotdot 0 = Ok e1" "dir_ent_typed e1"
    "de_inum e1 = 0" "terminated (de_name e1)" "cstr (de_name e1) = [46, 46]"
    using host_c.put_name_ok [OF _ _ 0, of dotdot junk 1] by (auto simp: dotdot_def)
  show thesis
    by (rule that [OF _ e0(2-5) e1(2-5)]) (simp add: mkfs_root_def e0 e1 del: One_nat_def)
qed

lemma mkfs_default:
  obtains d e0 e1 where "mkfs junk1 junk2 32 32 = Ok d" "hf_len d = 147456" "hf_pos d = 0"
    "rd (hf_bytes d) 0 40 = enc_super default_super"
    "rd (hf_bytes d) 4096 4 = le32 (push_bit 31 1)" "rd (hf_bytes d) 8192 4 = le32 (push_bit 31 1)"
    "rd (hf_bytes d) 12288 128 = enc_inode root_inode"
    "rd (hf_bytes d) 16384 4096 = enc_dir_block (e0 # e1 # free_ents junk2 2 128)"
    "dir_ent_typed e0" "de_inum e0 = 0" "terminated (de_name e0)" "cstr (de_name e0) = [46]"
    "dir_ent_typed e1" "de_inum e1 = 0" "terminated (de_name e1)" "cstr (de_name e1) = [46, 46]"
proof -
  obtain e0 e1 where r: "mkfs_root junk2 = Ok (enc_dir_block (e0 # e1 # free_ents junk2 2 128))"
    and e: "dir_ent_typed e0" "de_inum e0 = 0" "terminated (de_name e0)" "cstr (de_name e0) = [46]"
    "dir_ent_typed e1" "de_inum e1 = 0" "terminated (de_name e1)" "cstr (de_name e1) = [46, 46]"
    by (rule mkfs_root_ok)
  let ?root = "enc_dir_block (e0 # e1 # free_ents junk2 2 128)"
  let ?it = "mkfs_itable default_super junk1"
  have len: "length ?root = 4096" "length mkfs_bitmap = 4096" "length ?it = 4096"
    using e free_ents_typed [of junk2 2 128]
    by (simp_all add: mkfs_bitmap_def mkfs_itable_def enc_inode_def)
  define c1 :: "nat \<Rightarrow> byte" where "c1 = wr (\<lambda>_. 0) 0 (enc_super default_super)"
  define c where "c = wr (wr (wr (wr c1 4096 mkfs_bitmap) 8192 mkfs_bitmap) 12288 ?it) 16384 ?root"
  let ?d = "\<lambda>b n. \<lparr>hf_bytes = b, hf_len = n, hf_pos = 0\<rparr>"
  have z: "zero_tail (?d (\<lambda>_. 0) 0)" by (simp add: zero_tail_def)
  have 1: "pwrite_all (enc_super default_super) 0 (?d (\<lambda>_. 0) 0) = Ok (?d c1 40)" "zero_tail (?d c1 40)"
    using pwrite_all_ok [OF z, of 0 "enc_super default_super"] by (simp_all add: c1_def)
  have 2: "mkfs_zero 1 35 (?d c1 40) = Ok (?d c1 147456)" "zero_tail (?d c1 147456)"
    using mkfs_zero_ok [OF 1(2), of 1 35] 1(2) by (simp_all add: zero_tail_def c1_def wr_apply_out)
  have 3: "pwrite_all mkfs_bitmap 1 (?d c1 147456) = Ok (?d (wr c1 4096 mkfs_bitmap) 147456)"
    "zero_tail (?d (wr c1 4096 mkfs_bitmap) 147456)"
    using pwrite_all_ok [OF 2(2), of 1 mkfs_bitmap] len by simp_all
  have 4: "pwrite_all mkfs_bitmap 2 (?d (wr c1 4096 mkfs_bitmap) 147456) =
      Ok (?d (wr (wr c1 4096 mkfs_bitmap) 8192 mkfs_bitmap) 147456)"
    "zero_tail (?d (wr (wr c1 4096 mkfs_bitmap) 8192 mkfs_bitmap) 147456)"
    using pwrite_all_ok [OF 3(2), of 2 mkfs_bitmap] len by simp_all
  have 5: "pwrite_all ?it 3 (?d (wr (wr c1 4096 mkfs_bitmap) 8192 mkfs_bitmap) 147456) =
      Ok (?d (wr (wr (wr c1 4096 mkfs_bitmap) 8192 mkfs_bitmap) 12288 ?it) 147456)"
    "zero_tail (?d (wr (wr (wr c1 4096 mkfs_bitmap) 8192 mkfs_bitmap) 12288 ?it) 147456)"
    using pwrite_all_ok [OF 4(2), of 3 ?it] len by simp_all
  have 6: "pwrite_all ?root 4 (?d (wr (wr (wr c1 4096 mkfs_bitmap) 8192 mkfs_bitmap) 12288 ?it) 147456) = Ok (?d c 147456)"
    using pwrite_all_ok(1) [OF 5(2), of 4 ?root] len by (simp add: c_def)
  have tot: "int32 (mkfs_total_blocks default_super) = Ok 36"
    by (simp add: mkfs_total_blocks_def default_super_def is_int32_def)
  have adr: "inode_bitmap_addr default_super = 1" "data_bitmap_addr default_super = 2"
    "inode_region_addr default_super = 3" "data_region_addr default_super = 4"
    by (simp_all add: default_super_def)
  have run: "mkfs junk1 junk2 32 32 = Ok (?d c 147456)"
    using 1(1) 2(1) 3(1) 4(1) 5(1) 6 r tot adr by (simp add: mkfs_def mkfs_super_default Let_def)
  have "take 4 mkfs_bitmap = le32 (push_bit 31 1)"
    by (simp add: mkfs_bitmap_def enc_words_def)
  moreover have "take 128 ?it = enc_inode root_inode"
    using default_typed(2) by (simp add: mkfs_itable_def root_inode_def adr)
  ultimately have parts: "rd c 0 40 = enc_super default_super" "rd c 4096 4 = le32 (push_bit 31 1)"
    "rd c 8192 4 = le32 (push_bit 31 1)" "rd c 12288 128 = enc_inode root_inode" "rd c 16384 4096 = ?root"
    using len by (simp_all add: c_def c1_def rd_wr_disjoint rd_wr_inside)
  show thesis
    using that [OF run _ _ _ _ _ _ _ e] parts by simp
qed


section \<open>Mounting the empty image\<close>

lemma default_layout: "layout_ok default_super 147456"
  by (simp add: layout_ok_def default_super_def)

lemma root_bit: "i < 32 \<Longrightarrow> bm_bit [push_bit 31 1] i \<longleftrightarrow> i = 0"
proof -
  have "bit (push_bit 31 1 :: u32) k \<longleftrightarrow> k = 31" if "k < 32" for k
    using that by (simp only: bit_push_bit_iff bit_1_iff) auto
  then show "i < 32 \<Longrightarrow> bm_bit [push_bit 31 1] i \<longleftrightarrow> i = 0"
    by (auto simp: bm_bit_def)
qed

text \<open>The root directory that mkfs writes to block 4.\<close>

lemma root_dir:
  assumes root: "rd c 16384 4096 = enc_dir_block (e0 # e1 # free_ents junk 2 128)"
    and e: "dir_ent_typed e0" "de_inum e0 = 0" "terminated (de_name e0)" "cstr (de_name e0) = [46]"
      "dir_ent_typed e1" "de_inum e1 = 0" "terminated (de_name e1)" "cstr (de_name e1) = [46, 46]"
    and ib: "ib = [push_bit 31 1]"
  shows "dir_wf c 32 ib root_inode" and "dir_list c root_inode = [([46], 0), ([46, 46], 0)]"
proof -
  let ?es = "e0 # e1 # free_ents junk 2 128"
  have es: "\<forall>x \<in> set ?es. dir_ent_typed x" "length ?es = 128"
    using e free_ents_typed [of junk 2 128] by simp_all
  have at: "ent_at c 4 j = ?es ! j" if "j < 128" for j
  proof -
    have "rd c (4 * 4096 + 32 * j) 32 = take 32 (drop (32 * j) (rd c 16384 4096))"
      using that by (simp add: drop_rd take_rd)
    then show ?thesis
      using root dir_block_ent [OF es(1), of j] es that bspec [OF es(1) nth_mem, of j]
      by (simp add: ent_at_def del: set_simps)
  qed
  have free: "de_inum (ent_at c (unat (4 :: u32)) j) = - 1" if "1 < j" "j < 128" for j
    using that at [of j] free_ents_typed [of junk 2 128] nth_mem [of "j - 2" "free_ents junk 2 128"]
    by (simp add: nth_Cons')
  have ew: "entry_wf 32 ib e0" "entry_wf 32 ib e1"
    using e root_bit [of 0] by (simp_all add: entry_wf_def ib)
  have rep: "4 # replicate 29 (- 1) = (replicate 30 (- 1))[0 := (4 :: u32)]"
    by (simp add: numeral_eq_Suc)
  show "dir_wf c 32 ib root_inode" "dir_list c root_inode = [([46], 0), ([46, 46], 0)]"
    using new_dir_wf [of root_inode 4 c e0 e1, OF _ _ _ _ _ free ew] at [of 0] at [of 1] e rep
    by (simp_all add: root_inode_def)
qed

lemma mkfs_mount:
  assumes "mkfs junk1 junk2 32 32 = Ok d"
  shows "\<exists>nfs. ufs_init host_platform host_driver junk3 junk4 d = Ok nfs \<and> host.fs_ok nfs \<and>
    host.abs_of nfs = [0 \<mapsto> Dir [([46], 0), ([46, 46], 0)]] \<and> fs_s nfs = default_super \<and>
    synced (hf_bytes (fs_disk nfs)) nfs \<and> inode_bp nfs = [push_bit 31 1] \<and> data_bp nfs = [push_bit 31 1] \<and>
    hf_len (fs_disk nfs) = 147456 \<and> inodes nfs ! 0 = root_inode"
proof -
  obtain d' e0 e1 where "mkfs junk1 junk2 32 32 = Ok d'" and len: "hf_len d' = 147456" "hf_pos d' = 0"
    and b: "rd (hf_bytes d') 0 40 = enc_super default_super" "rd (hf_bytes d') 4096 4 = le32 (push_bit 31 1)"
      "rd (hf_bytes d') 8192 4 = le32 (push_bit 31 1)" "rd (hf_bytes d') 12288 128 = enc_inode root_inode"
    and root: "rd (hf_bytes d') 16384 4096 = enc_dir_block (e0 # e1 # free_ents junk2 2 128)"
    and e: "dir_ent_typed e0" "de_inum e0 = 0" "terminated (de_name e0)" "cstr (de_name e0) = [46]"
      "dir_ent_typed e1" "de_inum e1 = 0" "terminated (de_name e1)" "cstr (de_name e1) = [46, 46]"
    by (rule mkfs_default)
  then have d: "d' = d" using assms by simp
  let ?c = "hf_bytes d"
  have dok: "host_ok d" using len d by (simp add: host_ok_def)
  have s: "dec_super (rd ?c 0 40) = default_super" using b(1) d by simp
  have pos: "IB default_super = 4096" "DB default_super = 8192" "IT default_super 0 = 12288"
    by (simp_all add: IB_def DB_def IT_def default_super_def)
  obtain nfs where r: "ufs_init host_platform host_driver junk3 junk4 d = Ok nfs" "host.same d (fs_disk nfs)"
    "tables_ok nfs" "synced ?c nfs" "fs_s nfs = default_super"
    and t: "inode_bp nfs = [un_le32 (rd ?c (IB (fs_s nfs)) 4)]" "data_bp nfs = [un_le32 (rd ?c (DB (fs_s nfs)) 4)]"
      "inodes nfs = map (\<lambda>k. dec_inode (rd ?c (IT (fs_s nfs) k) 128)) [0..<nat (num_inodes (fs_s nfs))]"
    using host.ufs_init_ok [of d "hf_len d" host_platform junk3 junk4] dok len d default_layout host_c.size_law
    unfolding s by (auto simp: DR_def default_super_def)
  have dk: "host_ok (fs_disk nfs)" "hf_bytes (fs_disk nfs) = ?c" "hf_len (fs_disk nfs) = 147456"
    using r(2) len d by (simp_all add: host.same_def)
  have n: "num_inodes default_super = 32" "num_data default_super = 32" "DR default_super = 4"
    by (simp_all add: default_super_def DR_def)
  have ib: "inode_bp nfs = [push_bit 31 1]" "data_bp nfs = [push_bit 31 1]"
    using t(1,2) b(2,3) d unfolding r(5) pos by (simp_all only: un_le32_le32)
  have ino: "inodes nfs ! 0 = root_inode"
    using t(3) b(4) d unfolding r(5) by (simp add: n pos)
  have al: "alloc nfs i \<longleftrightarrow> i = 0" for i
    using root_bit [of i] by (auto simp: alloc_def r(5) ib n)
  note dir = root_dir [OF root [unfolded d] e ib(1)]
  have dp: "data_ptr default_super (data_bp nfs) 4"
    using root_bit [of 0] by (auto simp: data_ptr_def n ib intro!: exI [of _ 0])
  have "ptrs_wf nfs"
    using dp by (auto simp: ptrs_wf_def al ino r(5) root_inode_def nth_Cons')
  then have wf: "fs_wf ?c 147456 nfs"
    using default_layout r(3) dir(1) al ino by (simp add: fs_wf_def r(5) node_wf_def n root_inode_def UFS_DIRECTORY_def UFS_REGULAR_FILE_def)
  have "clean_synced ?c nfs"
    using r(4) by (simp add: synced_def clean_synced_def Let_def)
  moreover have "fs_abs ?c nfs = [0 \<mapsto> Dir [([46], 0), ([46, 46], 0)]]"
    using dir(2) by (auto simp: fs_abs_def al ino node_of_def root_inode_def fun_eq_iff)
  ultimately show ?thesis
    using r wf dk ib ino by (intro exI [of _ nfs]) (simp add: host.fs_ok_def host.abs_of_def)
qed

end
