(* ===== verification/Host.thy ===== *)
theory Host
  imports Mkfs
begin

text \<open>
  The operations of fs/ufs.c, and their properties on an image file: creation, lookup and
  remount refine the abstract file system. \<open>fresh_fs\<close> is the mounted empty image, the
  concrete state of the witnesses.
\<close>

section \<open>The operations of fs/ufs.c\<close>

text \<open>
  Their bodies are those of kernel/kernel/filesystem.c with \<open>lseek\<close>, \<open>read\<close>, \<open>write\<close> and \<open>fsync\<close> on
  the file descriptor in place of the driver. \<open>open\<close> is outside the model: the state starts
  with the opened file.
\<close>

definition host_Read :: "int \<Rightarrow> nat \<Rightarrow> host_file \<Rightarrow> (byte list option \<times> host_file) res" where
  "host_Read addr count d = Read host_driver addr count d"

definition host_Write :: "int \<Rightarrow> byte list \<Rightarrow> host_file \<Rightarrow> (int \<times> host_file) res" where
  "host_Write addr buf d = Write host_driver addr buf d"

definition host_commit_dirty_to_disk :: "host_file ufs \<Rightarrow> (int \<times> host_file ufs) res" where
  "host_commit_dirty_to_disk nfs = commit_dirty_to_disk host_driver nfs"

definition host_ufs_init :: "(nat \<Rightarrow> u32) \<Rightarrow> (nat \<Rightarrow> u32) \<Rightarrow> host_file \<Rightarrow> host_file ufs res" where
  "host_ufs_init junk1 junk2 d = ufs_init host_platform host_driver junk1 junk2 d"

definition host_ufs_lookup :: "host_file ufs \<Rightarrow> int \<Rightarrow> byte list \<Rightarrow> (int \<times> host_file ufs) res" where
  "host_ufs_lookup nfs pinum name = ufs_lookup host_platform host_driver nfs pinum name"

text \<open>
  \<open>ufs_creat\<close> ends after the \<open>fsync\<close> without a return statement: its result on success is
  indeterminate, the value None.
\<close>

definition host_ufs_creat ::
    "(nat \<Rightarrow> byte) \<Rightarrow> host_file ufs \<Rightarrow> int \<Rightarrow> int \<Rightarrow> byte list \<Rightarrow> (int option \<times> host_file ufs) res" where
  "host_ufs_creat junk nfs pinum type name =
     bindr (ufs_creat host_platform host_driver junk nfs pinum type name) (\<lambda>(r, nfs).
     Ok (if r = - 1 then Some (- 1) else None, nfs))"

definition host_ufs_write :: "host_file ufs \<Rightarrow> int \<Rightarrow> byte list \<Rightarrow> int \<Rightarrow> int \<Rightarrow> (int \<times> host_file ufs) res" where
  "host_ufs_write nfs inum buf offset nbytes = ufs_write host_driver nfs inum buf offset nbytes"

definition host_ufs_read :: "host_file ufs \<Rightarrow> int \<Rightarrow> int \<Rightarrow> int \<Rightarrow> (int \<times> byte list \<times> host_file ufs) res" where
  "host_ufs_read nfs inum offset nbytes = ufs_read host_driver nfs inum offset nbytes"

definition host_ufs_unlink ::
    "(nat \<Rightarrow> byte) \<Rightarrow> host_file ufs \<Rightarrow> int \<Rightarrow> byte list \<Rightarrow> (int \<times> host_file ufs) res" where
  "host_ufs_unlink junk nfs pinum name = ufs_unlink host_platform host_driver junk nfs pinum name"

section \<open>The invariant and the abstraction on an image file\<close>

definition host_fs_ok :: "host_file ufs \<Rightarrow> bool" where
  "host_fs_ok nfs \<longleftrightarrow> host_ok (fs_disk nfs) \<and> fs_wf (hf_bytes (fs_disk nfs)) (hf_len (fs_disk nfs)) nfs \<and>
     clean_synced (hf_bytes (fs_disk nfs)) nfs"

definition host_abs :: "host_file ufs \<Rightarrow> nat \<rightharpoonup> node" where
  "host_abs nfs = fs_abs (hf_bytes (fs_disk nfs)) nfs"

text \<open>Everything is on disk.\<close>

definition host_committed :: "host_file ufs \<Rightarrow> bool" where
  "host_committed nfs \<longleftrightarrow> host_fs_ok nfs \<and> synced (hf_bytes (fs_disk nfs)) nfs"

lemma host_fs_simps:
  "host.fs_ok nfs = host_fs_ok nfs" "host.abs_of nfs = host_abs nfs"
  by (simp_all add: host.fs_ok_def host_fs_ok_def host.abs_of_def host_abs_def)

lemma host_done: "host.done_with nfs a nfs' \<Longrightarrow> host_committed nfs' \<and> host_abs nfs' = a"
  by (simp add: host.done_with_def host_committed_def host_fs_simps)

section \<open>Single transfers and the commit\<close>

text \<open>What is written inside the image is what is read there.\<close>

lemma host_read_back:
  assumes "host_ok d" and "n + length bs \<le> hf_len d"
  shows "\<exists>d1 d2. host_Write (int n) bs d = Ok (0, d1) \<and> host_Read (int n) (length bs) d1 = Ok (Some bs, d2) \<and>
    hf_bytes d2 = wr (hf_bytes d) n bs \<and> hf_len d2 = hf_len d"
proof -
  obtain d1 where d1: "Write host_driver (int n) bs d = Ok (0, d1)" "host.stored d n bs d1"
    using host.Write_ok [OF assms] by blast
  then have "host_ok d1" "hf_len d1 = hf_len d" "hf_bytes d1 = wr (hf_bytes d) n bs"
    by (simp_all add: host.stored_def)
  moreover from this obtain d2 where "Read host_driver (int n) (length bs) d1 = Ok (Some (rd (hf_bytes d1) n (length bs)), d2)"
    "host.same d1 d2"
    using host.Read_ok [of d1 n "length bs"] assms(2) by auto
  ultimately show ?thesis
    using d1(1) by (auto simp: host_Write_def host_Read_def host.same_def)
qed

text \<open>The commit brings the image up to date and leaves nothing dirty.\<close>

lemma host_commit_syncs:
  assumes "host_fs_ok nfs"
  shows "\<exists>nfs'. host_commit_dirty_to_disk nfs = Ok (0, nfs') \<and> synced (hf_bytes (fs_disk nfs')) nfs' \<and>
    inodes nfs' = inodes nfs \<and> inode_bp nfs' = inode_bp nfs \<and> data_bp nfs' = data_bp nfs \<and>
    (\<forall>j < nat (num_inodes (fs_s nfs)). \<not> bm_bit (dirty_inode_bp nfs') j) \<and>
    (\<forall>k < nat (num_data (fs_s nfs)). \<not> bm_bit (dirty_data_bp nfs') k)"
proof -
  have "layout_ok (fs_s nfs) (hf_len (fs_disk nfs))" "tables_ok nfs"
    using assms by (simp_all add: host_fs_ok_def fs_wf_def)
  then obtain db1 db2 d where "commit_dirty_to_disk host_driver nfs = Ok (0, nfs\<lparr>dirty_inode_bp := db1, dirty_data_bp := db2, fs_disk := d\<rparr>)"
    "synced (hf_bytes d) nfs" "\<forall>j < nat (num_inodes (fs_s nfs)). \<not> bm_bit db1 j" "\<forall>k < nat (num_data (fs_s nfs)). \<not> bm_bit db2 k"
    using host.commit_dirty_ok [of nfs] assms unfolding host_fs_ok_def by blast
  then show ?thesis
    by (auto simp: host_commit_dirty_to_disk_def synced_def Let_def)
qed

section \<open>The mounted empty image\<close>

definition fresh_image :: host_file where
  "fresh_image = (case mkfs (\<lambda>_. 0) (\<lambda>_. 0) 32 32 of Ok d \<Rightarrow> d | Err _ \<Rightarrow> \<lparr>hf_bytes = \<lambda>_. 0, hf_len = 0, hf_pos = 0\<rparr>)"

definition fresh_fs :: "host_file ufs" where
  "fresh_fs = (case host_ufs_init (\<lambda>_. 0) (\<lambda>_. 0) fresh_image of Ok nfs \<Rightarrow> nfs
     | Err _ \<Rightarrow> \<lparr>fs_disk = fresh_image, fs_s = default_super, inode_bp = [], inode_bp_sz = 0, data_bp = [],
         data_bp_sz = 0, inodes = [], dirty_inode_bp = [], dirty_data_bp = []\<rparr>)"

lemma filter_root: "n = 32 \<Longrightarrow> filter (\<lambda>j. \<not> bm_bit [push_bit 31 1] j) [0..<n] = [1..<32]"
proof -
  have "filter (\<lambda>j. \<not> bm_bit [push_bit 31 1] j) [0..<32] = filter (\<lambda>j. j \<noteq> 0) [0..<32]"
    using root_bit by (intro filter_cong) auto
  then show "n = 32 \<Longrightarrow> filter (\<lambda>j. \<not> bm_bit [push_bit 31 1] j) [0..<n] = [1..<32]"
    by (simp add: upt_rec)
qed

lemma fresh_fs:
  shows "mkfs (\<lambda>_. 0) (\<lambda>_. 0) 32 32 = Ok fresh_image"
    and "host_ufs_init (\<lambda>_. 0) (\<lambda>_. 0) fresh_image = Ok fresh_fs"
    and "host_committed fresh_fs" and "host_fs_ok fresh_fs"
    and "host_abs fresh_fs = [0 \<mapsto> Dir [([46], 0), ([46, 46], 0)]]"
    and "free_inodes fresh_fs = [1..<32]" and "free_blocks fresh_fs = [1..<32]"
    and "fs_s fresh_fs = default_super" and "hf_len (fs_disk fresh_fs) = 147456"
proof -
  obtain d where d: "mkfs (\<lambda>_. 0) (\<lambda>_. 0) 32 32 = Ok d"
    by (rule mkfs_default)
  then show im: "mkfs (\<lambda>_. 0) (\<lambda>_. 0) 32 32 = Ok fresh_image"
    by (simp add: fresh_image_def)
  obtain nfs where n: "host_ufs_init (\<lambda>_. 0) (\<lambda>_. 0) fresh_image = Ok nfs" "host_fs_ok nfs"
    "host_abs nfs = [0 \<mapsto> Dir [([46], 0), ([46, 46], 0)]]" "fs_s nfs = default_super"
    "synced (hf_bytes (fs_disk nfs)) nfs" "inode_bp nfs = [push_bit 31 1]" "data_bp nfs = [push_bit 31 1]"
    "hf_len (fs_disk nfs) = 147456"
    using mkfs_mount [OF im] unfolding host_ufs_init_def host_fs_simps by blast
  then have eq: "fresh_fs = nfs" by (simp add: fresh_fs_def)
  show "host_ufs_init (\<lambda>_. 0) (\<lambda>_. 0) fresh_image = Ok fresh_fs" "host_committed fresh_fs" "host_fs_ok fresh_fs"
    "host_abs fresh_fs = [0 \<mapsto> Dir [([46], 0), ([46, 46], 0)]]" "fs_s fresh_fs = default_super"
    "hf_len (fs_disk fresh_fs) = 147456"
    using n by (simp_all add: eq host_committed_def)
  show "free_inodes fresh_fs = [1..<32]" "free_blocks fresh_fs = [1..<32]"
    using n(4,6,7) filter_root by (simp_all add: eq free_inodes_def free_blocks_def default_super_def)
qed

section \<open>Properties\<close>

text \<open>
  The image that mkfs writes with 32 inodes and 32 blocks mounts, whatever the
  uninitialised memory of either program held, and is a committed file system that consists of
  a root directory with the entries "." and "..", both for inode 0.
\<close>

theorem mkfs_then_init:
  "\<exists>d nfs. mkfs junk1 junk2 32 32 = Ok d \<and> host_ufs_init junk3 junk4 d = Ok nfs \<and> host_committed nfs \<and>
     host_abs nfs = [0 \<mapsto> Dir [([46], 0), ([46, 46], 0)]]"
proof -
  obtain d where d: "mkfs junk1 junk2 32 32 = Ok d" by (rule mkfs_default)
  then show ?thesis
    using mkfs_mount [OF d, of junk3 junk4]
    unfolding host_ufs_init_def host_fs_simps host_committed_def by blast
qed

text \<open>
  C3: on a well-formed file system \<open>ufs_creat\<close> of a new name of at most 27 bytes in a directory
  that has room, with a free inode and enough free blocks, allocates the first free inode, adds the entry at the end of the directory,
  changes no other node, keeps the invariant and leaves everything committed to disk.
\<close>

theorem host_creat_refines:
  assumes "host_fs_ok nfs" and "host_abs nfs i = Some (Dir l)" and "length l < 128 * 30"
    and "terminated name" and "length (cstr name) \<le> 27" and "cstr name \<notin> fst ` set l"
    and "free_inodes nfs = ei # rest" and "is_int32 type"
    and "blocks_needed type (length l) \<le> length (free_blocks nfs)"
  shows "\<exists>nfs'. host_ufs_creat junk nfs (int i) type name = Ok (None, nfs') \<and> host_committed nfs' \<and>
     host_abs nfs' = (host_abs nfs)(ei \<mapsto> new_node type ei i, i \<mapsto> Dir (l @ [(cstr name, int ei)]))"
proof -
  obtain nfs' where "ufs_creat host_platform host_driver junk nfs (int i) type name = Ok (0, nfs')"
    "host.done_with nfs ((host_abs nfs)(ei \<mapsto> new_node type ei i, i \<mapsto> Dir (l @ [(cstr name, int ei)]))) nfs'"
    using hfs.ufs_creat_ok [unfolded host_fs_simps, OF assms(1-9), of junk] by blast
  then show ?thesis
    using host_done by (auto simp: host_ufs_creat_def)
qed

lemma host_creat_refines_witness:
  "\<exists>nfs'. host_ufs_creat (\<lambda>_. 7) fresh_fs (int 0) UFS_DIRECTORY [100, 105, 114, 0] = Ok (None, nfs') \<and>
     host_committed nfs' \<and>
     host_abs nfs' = (host_abs fresh_fs)(1 \<mapsto> new_node UFS_DIRECTORY 1 0,
       0 \<mapsto> Dir ([([46], 0), ([46, 46], 0)] @ [(cstr [100, 105, 114, 0], int 1)]))"
  by (rule host_creat_refines [where rest = "[2..<32]"])
    (simp_all add: fresh_fs upt_rec is_int32_def UFS_DIRECTORY_def blocks_needed_def)

text \<open>
  C4: \<open>ufs_lookup\<close> in a directory of a well-formed file system returns the inode number that
  the directory gives the name, or -1 when it has no such entry, and changes only the file offset.
\<close>

theorem host_lookup_refines:
  assumes "host_fs_ok nfs" and "host_abs nfs i = Some (Dir l)" and "terminated name"
  shows "\<exists>d'. host_ufs_lookup nfs (int i) name =
      Ok (case map_of l (cstr name) of Some k \<Rightarrow> k | None \<Rightarrow> - 1, nfs\<lparr>fs_disk := d'\<rparr>) \<and>
      hf_bytes d' = hf_bytes (fs_disk nfs) \<and> hf_len d' = hf_len (fs_disk nfs)"
  using hfs.lookup_wf [unfolded host_fs_simps, OF assms] by (auto simp: host_ufs_lookup_def host.same_def)

lemma host_lookup_refines_witness:
  "\<exists>d'. host_ufs_lookup fresh_fs (int 0) [46, 46, 0] =
      Ok (case map_of [([46], 0), ([46, 46], 0)] (cstr [46, 46, 0]) of Some k \<Rightarrow> k | None \<Rightarrow> - 1,
        fresh_fs\<lparr>fs_disk := d'\<rparr>) \<and>
      hf_bytes d' = hf_bytes (fs_disk fresh_fs) \<and> hf_len d' = hf_len (fs_disk fresh_fs)"
  by (rule host_lookup_refines) (simp_all add: fresh_fs)

text \<open>
  C6: closing and reopening a committed image loses nothing: \<open>ufs_init\<close> on the same bytes gives a
  well-formed file system with the same nodes, for any contents of the uncleared dirty bitmaps.
\<close>

theorem host_remount:
  assumes "host_committed nfs" and "d = (fs_disk nfs)\<lparr>hf_pos := 0\<rparr>"
  shows "\<exists>nfs'. host_ufs_init junk1 junk2 d = Ok nfs' \<and> host_fs_ok nfs' \<and> inodes nfs' = inodes nfs \<and>
    host_abs nfs' = host_abs nfs"
proof -
  have a: "host_fs_ok nfs" "synced (hf_bytes (fs_disk nfs)) nfs"
    using assms(1) by (simp_all add: host_committed_def)
  have b: "host_ok d" "hf_pos d = 0" "hf_bytes d = hf_bytes (fs_disk nfs)" "hf_len d = hf_len (fs_disk nfs)"
    using a(1) by (simp_all add: assms(2) host_fs_ok_def host_ok_def)
  show ?thesis
    using hfs.remount_ok [unfolded host_fs_simps, OF a b, of junk1 junk2] by (auto simp: host_ufs_init_def)
qed

lemma host_remount_witness:
  "\<exists>nfs'. host_ufs_init (\<lambda>_. 5) (\<lambda>_. 9) ((fs_disk fresh_fs)\<lparr>hf_pos := 0\<rparr>) = Ok nfs' \<and> host_fs_ok nfs' \<and>
     inodes nfs' = inodes fresh_fs \<and> host_abs nfs' = host_abs fresh_fs"
  by (rule host_remount) (simp_all add: fresh_fs)

end
