(* ===== verification/UfsWrite.thy ===== *)
theory UfsWrite
  imports UfsCreat
begin

text \<open>
  \<open>ufs_write\<close> at the end of a file appends the bytes: every turn of its loop appends to one block
  and keeps the file system well-formed, so the loop is an induction over such steps.
\<close>

section \<open>One block of a file\<close>

text \<open>A block \<open>q\<close> that gets the bytes \<open>bs\<close> from offset \<open>off\<close> on.\<close>

definition bytes_stored ::
    "(nat \<Rightarrow> byte) \<Rightarrow> (nat \<Rightarrow> byte) \<Rightarrow> u32 \<Rightarrow> nat \<Rightarrow> byte list \<Rightarrow> bool" where
  "bytes_stored c c' q off bs \<longleftrightarrow> c' = wr c (unat q * UFS_BLOCK_SIZE + off) bs"

text \<open>The pointers of the inode that got the block: it has one for every started block.\<close>

lemma append_ptrs:
  assumes wf: "file_wf ino" and len: "length (i_direct ino) = DIRECT_PTRS" and n: "n = nat (i_size ino)"
    and bs: "bs \<noteq> []" "n mod UFS_BLOCK_SIZE + length bs \<le> UFS_BLOCK_SIZE" and q: "q \<noteq> - 1" and j: "j < DIRECT_PTRS"
  shows "(i_direct ino)[n div UFS_BLOCK_SIZE := q] ! j \<noteq> - 1 \<longleftrightarrow> j * UFS_BLOCK_SIZE < n + length bs"
proof -
  let ?k = "n div 4096"
  have n4: "n = ?k * 4096 + n mod 4096" by simp
  have bl: "0 < length bs" using bs(1) by simp
  show ?thesis
  proof (cases "j = ?k")
    case True
    have "?k * 4096 < n + length bs" using bl n4 by linarith
    then show ?thesis using True q len j by simp
  next
    case False
    have "j * 4096 < n + length bs \<longleftrightarrow> j * 4096 < n"
    proof
      assume a: "j * 4096 < n + length bs"
      have "n + length bs \<le> (?k + 1) * 4096" using bs(2) n4 unfolding add_mult_distrib by linarith
      then have "j * 4096 < (?k + 1) * 4096" using a by linarith
      then have "j < ?k" using False by simp
      then have "(j + 1) * 4096 \<le> ?k * 4096" by (intro mult_le_mono1) simp
      then have "j * 4096 + 4096 \<le> ?k * 4096" by simp
      moreover have "?k * 4096 \<le> n" by simp
      ultimately show "j * 4096 < n" by linarith
    qed simp
    then show ?thesis using False wf j n by (simp add: file_wf_def)
  qed
qed

text \<open>The bytes before the end are where they were; behind them are the new ones.\<close>

lemma append_old:
  assumes wf: "file_wf ino" and len: "length (i_direct ino) = DIRECT_PTRS" and n: "n = nat (i_size ino)"
    and k: "n div UFS_BLOCK_SIZE < DIRECT_PTRS" and bs: "n mod UFS_BLOCK_SIZE + length bs \<le> UFS_BLOCK_SIZE"
    and q: "n mod UFS_BLOCK_SIZE \<noteq> 0 \<Longrightarrow> i_direct ino ! (n div UFS_BLOCK_SIZE) = q"
    and oth: "\<And>k. k < DIRECT_PTRS \<Longrightarrow> k \<noteq> n div UFS_BLOCK_SIZE \<Longrightarrow> i_direct ino ! k \<noteq> - 1 \<Longrightarrow> unat (i_direct ino ! k) \<noteq> unat q"
    and st: "bytes_stored c c' q (n mod UFS_BLOCK_SIZE) bs" and x: "x < n"
  shows "file_byte c' ((i_direct ino)[n div UFS_BLOCK_SIZE := q]) x = file_byte c (i_direct ino) x"
proof (cases "x div 4096 = n div 4096")
  case True
  then have m: "x mod 4096 < n mod 4096"
    using x by (metis div_mult_mod_eq nat_add_left_cancel_less)
  then have "i_direct ino ! (n div 4096) = q" using q by auto
  then show ?thesis
    using True m st len k by (simp add: file_byte_def bytes_stored_def wr_apply_out)
next
  case False
  have j: "x div 4096 < 30" "x div 4096 * 4096 < n"
    using x k div_le_mono [of x n 4096] order_le_less_trans [of "x div 4096 * 4096" x n] by auto
  then have ne: "i_direct ino ! (x div 4096) \<noteq> - 1" using wf n by (simp add: file_wf_def)
  have u: "unat (i_direct ino ! (x div 4096)) \<noteq> unat q" using oth [OF j(1) False ne] .
  have "agree c c' (unat (i_direct ino ! (x div 4096)))"
    unfolding st [unfolded bytes_stored_def] using u bs by (intro agree_wr [of "unat q"]) simp_all
  then show ?thesis
    using False by (simp add: file_byte_def agree_def)
qed

lemma append_new:
  assumes "bytes_stored c c' q (n mod UFS_BLOCK_SIZE) bs" and "n mod UFS_BLOCK_SIZE + length bs \<le> UFS_BLOCK_SIZE"
    and "n div UFS_BLOCK_SIZE < length ps" and "y < length bs"
  shows "file_byte c' (ps[n div UFS_BLOCK_SIZE := q]) (n + y) = bs ! y"
proof -
  have lt: "n mod 4096 + y < 4096" using assms(2,4) by simp
  have e: "n + y = (n mod 4096 + y) + n div 4096 * 4096" using div_mult_mod_eq [of n 4096] by linarith
  have "(n + y) div 4096 = n div 4096"
    using lt by (subst e, subst div_mult_self1) simp_all
  moreover have "(n + y) mod 4096 = n mod 4096 + y"
    using lt by (subst e, subst mod_mult_self1) simp_all
  ultimately show ?thesis
    using assms by (simp add: file_byte_def bytes_stored_def wr_def)
qed

lemma file_append:
  assumes wf: "file_wf ino" and typed: "inode_typed ino" and n: "n = nat (i_size ino)"
    and bs: "bs \<noteq> []" "n mod UFS_BLOCK_SIZE + length bs \<le> UFS_BLOCK_SIZE" "n + length bs \<le> DIRECT_PTRS * UFS_BLOCK_SIZE"
    and q: "n mod UFS_BLOCK_SIZE \<noteq> 0 \<Longrightarrow> i_direct ino ! (n div UFS_BLOCK_SIZE) = q" "q \<noteq> - 1"
    and oth: "\<And>k. k < DIRECT_PTRS \<Longrightarrow> k \<noteq> n div UFS_BLOCK_SIZE \<Longrightarrow> i_direct ino ! k \<noteq> - 1 \<Longrightarrow> unat (i_direct ino ! k) \<noteq> unat q"
    and st: "bytes_stored c c' q (n mod UFS_BLOCK_SIZE) bs"
    and new: "new = ino\<lparr>i_size := int (n + length bs), i_direct := (i_direct ino)[n div UFS_BLOCK_SIZE := q]\<rparr>"
  shows "file_wf new" and "file_bytes c' new = file_bytes c ino @ bs"
proof -
  have len: "length (i_direct ino) = 30" using typed by (simp add: inode_typed_def)
  have "n < 30 * 4096" using bs(1,3) by (cases bs) auto
  then have k: "n div 4096 < 30" by (rule less_mult_imp_div_less)
  have dir: "i_direct new = (i_direct ino)[n div 4096 := q]" and sz: "i_size new = int (n + length bs)"
    by (simp_all add: new)
  have nsz: "nat (i_size new) = n + length bs" unfolding sz by (rule nat_int)
  show "file_wf new"
    using bs(3) append_ptrs [OF wf len n bs(1,2) q(2)] unfolding file_wf_def nsz dir by (simp add: sz)
  show "file_bytes c' new = file_bytes c ino @ bs"
  proof (rule nth_equalityI)
    show "length (file_bytes c' new) = length (file_bytes c ino @ bs)"
      by (simp add: file_bytes_def nsz n)
    fix x assume "x < length (file_bytes c' new)"
    then have x: "x < n + length bs" by (simp add: file_bytes_def nsz)
    show "file_bytes c' new ! x = (file_bytes c ino @ bs) ! x"
    proof (cases "x < n")
      case True
      then show ?thesis
        using append_old [OF wf len n k bs(2) q(1) oth st] by (simp add: file_bytes_def nth_append nsz n [symmetric] dir)
    next
      case False
      then obtain y where y: "x = n + y" using le_Suc_ex by (metis not_less)
      then show ?thesis
        using append_new [OF st bs(2), of "i_direct ino" y] x k len
        by (simp add: file_bytes_def nth_append nsz n [symmetric] dir)
    qed
  qed
qed


section \<open>One turn of the loop\<close>

text \<open>Inode \<open>i\<close> with block \<open>q\<close> at place \<open>k\<close>, and the bitmaps that go with it.\<close>

definition with_block :: "nat \<Rightarrow> nat \<Rightarrow> u32 \<Rightarrow> bitmap_t \<Rightarrow> bitmap_t \<Rightarrow> 'd ufs \<Rightarrow> 'd ufs" where
  "with_block i k q db ddb nfs = nfs\<lparr>data_bp := db, dirty_data_bp := ddb,
     inodes := (inodes nfs)[i := (inodes nfs ! i)\<lparr>i_direct := (i_direct (inodes nfs ! i))[k := q]\<rparr>]\<rparr>"

lemma with_block_simps [simp]:
  "fs_s (with_block i k q db ddb nfs) = fs_s nfs" "fs_disk (with_block i k q db ddb nfs) = fs_disk nfs"
  "dirty_inode_bp (with_block i k q db ddb nfs) = dirty_inode_bp nfs" "data_bp (with_block i k q db ddb nfs) = db"
  by (simp_all add: with_block_def)

text \<open>
  Block \<open>q\<close> is the one of byte \<open>n\<close>, the first behind the end of file \<open>i\<close>: its last block when that is not full,
  else block \<open>e\<close> of the data region, which was free.
\<close>

definition block_for :: "'d ufs \<Rightarrow> nat \<Rightarrow> nat \<Rightarrow> nat \<Rightarrow> u32 \<Rightarrow> bitmap_t \<Rightarrow> bitmap_t \<Rightarrow> bool" where
  "block_for nfs i n e q db ddb \<longleftrightarrow>
     (n mod UFS_BLOCK_SIZE \<noteq> 0 \<longrightarrow> i_direct (inodes nfs ! i) ! (n div UFS_BLOCK_SIZE) = q \<and> db = data_bp nfs) \<and>
     (n mod UFS_BLOCK_SIZE = 0 \<longrightarrow> fresh_ptr (fs_s nfs) (data_bp nfs) q \<and> db = bm_set (data_bp nfs) e) \<and>
     data_ptr (fs_s nfs) db q \<and> (\<forall>k < 32. bm_bit (data_bp nfs) k \<longrightarrow> bm_bit db k) \<and> length db = 1 \<and> length ddb = 1 \<and>
     (\<forall>k < 32. \<not> bm_bit ddb k \<longrightarrow> \<not> bm_bit (dirty_data_bp nfs) k) \<and>
     ((\<forall>k < nat (num_data (fs_s nfs)). \<not> bm_bit ddb k) \<longrightarrow> db = data_bp nfs)"

context disk_store
begin

lemma abs_file:
  assumes "abs_of nfs i = Some (File l)"
  shows "alloc nfs i" "i_type (inodes nfs ! i) = UFS_REGULAR_FILE"
    "file_bytes (bytes (fs_disk nfs)) (inodes nfs ! i) = l"
  using assms by (auto simp: abs_of_def fs_abs_def node_of_def split: if_splits)

text \<open>What the invariant says of a regular file.\<close>

lemma file_facts:
  assumes ok: "fs_ok nfs" and al: "alloc nfs i" and ty: "i_type (inodes nfs ! i) = UFS_REGULAR_FILE"
  shows "dok (fs_disk nfs)" "layout_ok (fs_s nfs) (lim (fs_disk nfs))" "tables_ok nfs"
    "clean_synced (bytes (fs_disk nfs)) nfs" "file_wf (inodes nfs ! i)" "length (i_direct (inodes nfs ! i)) = DIRECT_PTRS"
    "int i < num_inodes (fs_s nfs)" "i < bm_cap (inode_bp nfs)" "bm_bit (inode_bp nfs) i"
    "i_size (inodes nfs ! i) = int (length (file_bytes (bytes (fs_disk nfs)) (inodes nfs ! i)))"
proof -
  have wf: "fs_wf (bytes (fs_disk nfs)) (lim (fs_disk nfs)) nfs" using ok by (simp add: fs_ok_def)
  then show lay: "layout_ok (fs_s nfs) (lim (fs_disk nfs))" and tab: "tables_ok nfs" by (simp_all add: fs_wf_def)
  show "dok (fs_disk nfs)" "clean_synced (bytes (fs_disk nfs)) nfs" using ok by (simp_all add: fs_ok_def)
  show fwf: "file_wf (inodes nfs ! i)" using fs_wfD(1) [OF wf al] ty by (simp add: node_wf_def)
  show "length (i_direct (inodes nfs ! i)) = 30" using fs_wfD(4) [OF wf al] by (simp add: inode_typed_def)
  show "int i < num_inodes (fs_s nfs)" "i < bm_cap (inode_bp nfs)" "bm_bit (inode_bp nfs) i"
    using al tab fs_wfD(6) [OF wf al] by (auto simp: alloc_def)
  show "i_size (inodes nfs ! i) = int (length (file_bytes (bytes (fs_disk nfs)) (inodes nfs ! i)))"
    using fwf by (simp add: file_bytes_def file_wf_def)
qed

text \<open>The state after a turn: block \<open>q\<close> holds the bytes, the inode its pointer and the new size.\<close>

lemma file_state_ok:
  assumes ok: "fs_ok nfs" and al: "alloc nfs i" and ty: "i_type (inodes nfs ! i) = UFS_REGULAR_FILE"
    and dirty: "bm_bit (dirty_inode_bp nfs) i" and n: "n = nat (i_size (inodes nfs ! i))"
    and bs: "bs \<noteq> []" "n mod UFS_BLOCK_SIZE + length bs \<le> UFS_BLOCK_SIZE" "n + length bs \<le> DIRECT_PTRS * UFS_BLOCK_SIZE"
    and bf: "block_for nfs i n e q db ddb"
    and d': "dok d'" "lim d' = lim (fs_disk nfs)" "bytes_stored (bytes (fs_disk nfs)) (bytes d') q (n mod UFS_BLOCK_SIZE) bs"
    and nfs': "nfs' = nfs\<lparr>fs_disk := d', data_bp := db, dirty_data_bp := ddb,
        inodes := (inodes nfs)[i := (inodes nfs ! i)\<lparr>i_size := int (n + length bs),
          i_direct := (i_direct (inodes nfs ! i))[n div UFS_BLOCK_SIZE := q]\<rparr>]\<rparr>"
  shows "fs_ok nfs'" and "abs_of nfs' = (abs_of nfs)(i \<mapsto>
     File (file_bytes (bytes (fs_disk nfs)) (inodes nfs ! i) @ bs))"
proof -
  let ?s = "fs_s nfs" and ?d = "fs_disk nfs" and ?ino = "inodes nfs ! i" and ?k = "n div 4096"
  have q: "n mod 4096 \<noteq> 0 \<Longrightarrow> i_direct ?ino ! ?k = q" "n mod 4096 = 0 \<Longrightarrow> fresh_ptr ?s (data_bp nfs) q" "data_ptr ?s db q"
    and db: "\<And>k. k < 32 \<Longrightarrow> bm_bit (data_bp nfs) k \<Longrightarrow> bm_bit db k" "length db = 1" "length ddb = 1"
      "\<And>k. k < 32 \<Longrightarrow> \<not> bm_bit ddb k \<Longrightarrow> \<not> bm_bit (dirty_data_bp nfs) k"
      "\<forall>k < nat (num_data ?s). \<not> bm_bit ddb k \<Longrightarrow> db = data_bp nfs"
    using bf by (auto simp: block_for_def)
  let ?new = "?ino\<lparr>i_size := int (n + length bs), i_direct := (i_direct ?ino)[?k := q]\<rparr>"
  have wf: "fs_wf (bytes ?d) (lim ?d) nfs" using ok by (simp add: fs_ok_def)
  note i = fs_wfD [OF wf al] and ff = file_facts [OF ok al ty]
  have "n < 30 * 4096" using bs(1,3) by (cases bs) auto
  then have k: "?k < 30" by (rule less_mult_imp_div_less)
  have q1: "q \<noteq> - 1" using data_ptr_ok(2) [OF ff(2) q(3)] .
  have mine: "q = i_direct ?ino ! ?k \<and> q \<noteq> - 1 \<or> fresh_ptr ?s (data_bp nfs) q"
    using q(1,2) q1 by blast
  note ne = entry_blocks(1) [OF wf al k mine] and dist = entry_blocks(2) [OF wf al k mine q1 ff(6)]
  have ag: "agree (bytes ?d) (bytes d') (unat p)" if "unat p \<noteq> unat q" for p :: u32
    unfolding d'(3) [unfolded bytes_stored_def] using that bs(2) by (intro agree_wr [of "unat q"]) simp_all
  have app: "file_wf ?new" "file_bytes (bytes d') ?new = file_bytes (bytes ?d) ?ino @ bs"
    using ne [OF al] by (intro file_append [OF ff(5) i(4) n bs q(1) q1 _ d'(3) refl]; simp)+
  have tab': "tables_ok nfs'"
    using ff(3) i(4) bs(3) db(2,3) unfolding nfs'
    by (auto simp: tables_ok_def inode_typed_def is_int32_def dest!: set_update_subset_insert [THEN subsetD])
  have al': "i < nat (num_inodes ?s)" using al by (simp add: alloc_def)
  have up: "fs_s nfs' = ?s" "inodes nfs' = (inodes nfs)[i := ?new]"
    "node_wf (bytes d') (nat (num_inodes ?s)) (inode_bp nfs') ?new"
    using app(1) ty by (simp_all add: nfs' node_wf_def UFS_DIRECTORY_def UFS_REGULAR_FILE_def)
  have bits: "\<And>j. j < 32 \<Longrightarrow> bm_bit (inode_bp nfs') j \<longleftrightarrow> j = i \<or> bm_bit (inode_bp nfs) j"
    "\<And>k. k < 32 \<Longrightarrow> bm_bit (data_bp nfs) k \<Longrightarrow> bm_bit (data_bp nfs') k"
    using al db(1) by (auto simp: nfs' alloc_def)
  have ptr: "alloc nfs i \<and> i_direct ?new ! l = i_direct ?ino ! l \<or>
      fresh_ptr ?s (data_bp nfs) (i_direct ?new ! l) \<and> data_ptr ?s (data_bp nfs') (i_direct ?new ! l)"
    if "l < 30" for l
    using that mine al ff(6) q(3) by (cases "l = ?k") (auto simp: nfs')
  have frame: "agree_ptrs (bytes ?d) (bytes d') (inodes nfs ! j)" if "alloc nfs j" "j \<noteq> i" for j
    using that ag ne by (simp add: agree_ptrs_def)
  note pn = put_node [OF wf al' up(1) tab' up(2) bits ptr _ frame up(3)]
  have cs: "clean_synced (bytes d') nfs'"
  proof (rule inode_synced [OF ff(4,2) al' up(1,2)])
    show "bytes d' x = bytes ?d x" if "x < DR ?s * 4096" for x
      using that d'(3) mult_le_mono1 [OF data_ptr_ok(3) [OF ff(2) q(3)], of 4096]
      by (simp add: bytes_stored_def wr_apply_out)
  qed (use dirty db in \<open>auto simp: nfs'\<close>)
  show "fs_ok nfs'"
    using pn(1) dist cs d' by (simp add: fs_ok_def nfs')
  show "abs_of nfs' = (abs_of nfs)(i \<mapsto> File (file_bytes (bytes ?d) ?ino @ bs))"
    using pn(2) dist app(2) ty by (simp add: abs_of_def nfs' node_of_def UFS_DIRECTORY_def UFS_REGULAR_FILE_def)
qed


lemma write_block_old:
  assumes ok: "fs_ok nfs" and al: "alloc nfs i" and ty: "i_type (inodes nfs ! i) = UFS_REGULAR_FILE"
    and n: "n = nat (i_size (inodes nfs ! i))" "n < DIRECT_PTRS * UFS_BLOCK_SIZE" and m: "n mod UFS_BLOCK_SIZE \<noteq> 0"
  shows "write_block (int i) (int (n div UFS_BLOCK_SIZE)) nfs = Ok (True, nfs)"
    and "block_for nfs i n e (i_direct (inodes nfs ! i) ! (n div UFS_BLOCK_SIZE)) (data_bp nfs) (dirty_data_bp nfs)"
proof -
  let ?ino = "inodes nfs ! i" and ?k = "n div 4096"
  have wf: "fs_wf (bytes (fs_disk nfs)) (lim (fs_disk nfs)) nfs" using ok by (simp add: fs_ok_def)
  note i = fs_wfD [OF wf al] and ff = file_facts [OF ok al ty]
  have k: "?k < 30" using n(2) by (rule less_mult_imp_div_less)
  have "?k * 4096 < n" using m div_mult_mod_eq [of n 4096] by linarith
  then have p: "i_direct ?ino ! ?k \<noteq> - 1" using ff(5) k n(1) by (simp add: file_wf_def)
  then show "write_block (int i) (int ?k) nfs = Ok (True, nfs)"
    using k ff(6) i(5) unfolding write_block_def by simp
  show "block_for nfs i n e (i_direct ?ino ! ?k) (data_bp nfs) (dirty_data_bp nfs)"
    using p i(2) [OF k] ff(3) m by (simp add: block_for_def tables_ok_def)
qed

lemma write_block_new:
  assumes ok: "fs_ok nfs" and al: "alloc nfs i" and ty: "i_type (inodes nfs ! i) = UFS_REGULAR_FILE"
    and n: "n = nat (i_size (inodes nfs ! i))" "n < DIRECT_PTRS * UFS_BLOCK_SIZE" and m: "n mod UFS_BLOCK_SIZE = 0"
    and fb: "free_blocks nfs = e # rest"
    and q: "q = of_nat (DR (fs_s nfs) + e)" "db = bm_set (data_bp nfs) e" "ddb = bm_set (dirty_data_bp nfs) e"
  shows "write_block (int i) (int (n div UFS_BLOCK_SIZE)) nfs = Ok (True, with_block i (n div UFS_BLOCK_SIZE) q db ddb nfs)"
    and "block_for nfs i n e q db ddb"
proof -
  let ?s = "fs_s nfs" and ?ino = "inodes nfs ! i" and ?k = "n div 4096"
  have wf: "fs_wf (bytes (fs_disk nfs)) (lim (fs_disk nfs)) nfs" using ok by (simp add: fs_ok_def)
  note i = fs_wfD [OF wf al] and ff = file_facts [OF ok al ty]
  have k: "?k < 30" using n(2) by (rule less_mult_imp_div_less)
  have t1: "length (data_bp nfs) = 1" "length (dirty_data_bp nfs) = 1" using ff(3) by (simp_all add: tables_ok_def)
  have "\<not> ?k * 4096 < n" using m div_mult_mod_eq [of n 4096] by linarith
  moreover have "i_direct ?ino ! ?k \<noteq> - 1 \<longleftrightarrow> ?k * 4096 < n" using ff(5) k n(1) by (simp add: file_wf_def)
  ultimately have p: "i_direct ?ino ! ?k = - 1" by simp
  have e: "e < nat (num_data ?s)" "\<not> bm_bit (data_bp nfs) e" using free_blocks_mem [of e nfs] fb by simp_all
  have fc: "find_clear get_bitmap (data_bp nfs) 0 (nat (num_data ?s)) = Ok (int e)"
    using find_clear_inodes [OF layout_counts(2) [OF ff(2)] t1(1)] fb by (simp add: free_blocks_def)
  note ad = data_block_addr [OF ff(2) e(1)]
  have cap: "bm_cap (data_bp nfs) = 32" "bm_cap (dirty_data_bp nfs) = 32" using ff(3) by simp_all
  have q': "(of_int (int (DR ?s + e)) :: u32) = q" unfolding q(1) by (rule of_int_of_nat_eq)
  show "write_block (int i) (int ?k) nfs = Ok (True, with_block i ?k q db ddb nfs)"
    using p k ff(6) i(5) fc take_data_eq [OF ff(3) ad(5)] ad(1) q'
    by (simp add: write_block_def upd_inode_eq with_block_def q(2,3) del: of_nat_add of_int_of_nat_eq)
  have "fresh_ptr ?s (data_bp nfs) q" using e by (auto simp: fresh_ptr_def q(1) simp del: of_nat_add)
  moreover have "data_ptr ?s db q"
    using e ad(5) cap by (auto simp: data_ptr_def bm_bit_set q(1,2) simp del: of_nat_add)
  moreover have "(\<forall>k < 32. bm_bit (data_bp nfs) k \<longrightarrow> bm_bit db k)"
    "(\<forall>k < 32. \<not> bm_bit ddb k \<longrightarrow> \<not> bm_bit (dirty_data_bp nfs) k)"
    "(\<forall>k < nat (num_data ?s). \<not> bm_bit ddb k) \<longrightarrow> db = data_bp nfs"
    using e(1) ad(5) cap by (auto simp: bm_bit_set q(2,3))
  ultimately show "block_for nfs i n e q db ddb"
    using t1 m q(2,3) by (simp add: block_for_def)
qed

lemma write_block_ok:
  assumes ok: "fs_ok nfs" and al: "alloc nfs i" and ty: "i_type (inodes nfs ! i) = UFS_REGULAR_FILE"
    and n: "n = nat (i_size (inodes nfs ! i))" "n < DIRECT_PTRS * UFS_BLOCK_SIZE"
    and sp: "n mod UFS_BLOCK_SIZE = 0 \<longrightarrow> free_blocks nfs = e # rest"
  shows "\<exists>q db ddb. write_block (int i) (int (n div UFS_BLOCK_SIZE)) nfs =
    Ok (True, with_block i (n div UFS_BLOCK_SIZE) q db ddb nfs) \<and> block_for nfs i n e q db ddb"
proof (cases "n mod 4096 = 0")
  case True
  with sp show ?thesis
    using write_block_new [OF ok al ty n True _ refl refl refl] by blast
next
  case False
  have "with_block i k (i_direct (inodes nfs ! i) ! k) (data_bp nfs) (dirty_data_bp nfs) nfs = nfs" for k
    unfolding with_block_def by (rule ufs.equality) simp_all
  then show ?thesis
    using write_block_old [OF ok al ty n False] by metis
qed

end

text \<open>The blocks that appending \<open>k\<close> bytes to a file of \<open>n\<close> bytes takes.\<close>

definition append_blocks :: "nat \<Rightarrow> nat \<Rightarrow> nat" where
  "append_blocks n k = (n + k + 4095) div UFS_BLOCK_SIZE - (n + 4095) div UFS_BLOCK_SIZE"

lemma append_blocks_step:
  assumes "0 < k" and "k \<le> m" and "n mod UFS_BLOCK_SIZE + k \<le> UFS_BLOCK_SIZE"
  shows "append_blocks n m = (if n mod UFS_BLOCK_SIZE = 0 then 1 else 0) + append_blocks (n + k) (m - k)"
proof -
  define a b where "a = n div 4096" and "b = n mod 4096"
  have n: "n = a * 4096 + b" "b < 4096" by (simp_all add: a_def b_def)
  have 1: "(n + 4095) div 4096 = (if b = 0 then a else a + 1)"
    using n by (auto intro!: div_nat_eqI)
  have 2: "(n + k + 4095) div 4096 = a + 1"
    using n assms(1,3) by (intro div_nat_eqI) (auto simp: b_def [symmetric])
  have 3: "n + k + (m - k) + 4095 = n + m + 4095" using assms(2) by simp
  have 4: "(n + k + 4095) div 4096 \<le> (n + m + 4095) div 4096" using assms(2) by (intro div_le_mono) simp
  show ?thesis
    unfolding append_blocks_def 3 using 1 2 4 by (auto simp: b_def [symmetric])
qed


section \<open>The loop and the operation\<close>

lemma next_block:
  assumes "k = UFS_BLOCK_SIZE - n mod UFS_BLOCK_SIZE"
  shows "(n + k) div UFS_BLOCK_SIZE = Suc (n div UFS_BLOCK_SIZE)" and "(n + k) mod UFS_BLOCK_SIZE = 0"
proof -
  have "n + k = n div 4096 * 4096 + 4096"
    using assms div_mult_mod_eq [of n 4096] mod_less_divisor [of 4096 n] by linarith
  then have "n + k = (n div 4096 + 1) * 4096" by simp
  then show "(n + k) div 4096 = Suc (n div 4096)" "(n + k) mod 4096 = 0" by simp_all
qed

lemma take_drop_part:
  assumes "k \<le> N - cur"
  shows "take k (drop cur buf) @ drop (cur + k) (take N buf) = drop cur (take N buf)"
proof -
  have "take k (drop cur buf) = take k (drop cur (take N buf))"
    using assms by (simp add: drop_take)
  then show ?thesis by (metis add.commute append_take_drop_id drop_drop)
qed

context disk_store
begin

text \<open>The state after a turn that appended \<open>bs\<close> to the file \<open>l\<close>.\<close>

definition appended :: "'a ufs \<Rightarrow> nat \<Rightarrow> byte list \<Rightarrow> byte list \<Rightarrow> 'a ufs \<Rightarrow> bool" where
  "appended nfs i l bs nfs' \<longleftrightarrow> fs_ok nfs' \<and> abs_of nfs' = (abs_of nfs)(i \<mapsto> File (l @ bs)) \<and> fs_s nfs' = fs_s nfs \<and>
     lim (fs_disk nfs') = lim (fs_disk nfs) \<and> dirty_inode_bp nfs' = dirty_inode_bp nfs \<and>
     free_blocks nfs' = (if length l mod UFS_BLOCK_SIZE = 0 then tl (free_blocks nfs) else free_blocks nfs)"

text \<open>The bytes written to the block of the end of the file.\<close>

lemma write_to_block:
  assumes dok: "dok d" and bq: "blk_ok (lim d) q" and bs: "m < UFS_BLOCK_SIZE" "m + length bs \<le> UFS_BLOCK_SIZE"
  shows "\<exists>d'. Write drv (blk_addr q (int m)) bs d = Ok (0, d') \<and> dok d' \<and> lim d' = lim d \<and>
    bytes_stored (bytes d) (bytes d') q m bs"
proof -
  have ad: "blk_addr q (int m) = int (unat q * 4096 + m)"
    using blk_ok_addr(2) [OF bq, of m] bs(1) by simp
  have "unat q * 4096 + m + length bs \<le> lim d" using bq bs(2) by (simp add: blk_ok_def)
  then obtain d' where "Write drv (int (unat q * 4096 + m)) bs d = Ok (0, d')" "stored d (unat q * 4096 + m) bs d'"
    using Write_ok [OF dok] by blast
  then show ?thesis
    unfolding ad by (auto simp: stored_def bytes_stored_def)
qed

lemma write_step:
  assumes ok: "fs_ok nfs" and f: "abs_of nfs i = Some (File l)" and dirty: "bm_bit (dirty_inode_bp nfs) i"
    and bs: "bs \<noteq> []" "length l mod UFS_BLOCK_SIZE + length bs \<le> UFS_BLOCK_SIZE"
      "length l + length bs \<le> DIRECT_PTRS * UFS_BLOCK_SIZE"
    and sp: "length l mod UFS_BLOCK_SIZE = 0 \<Longrightarrow> free_blocks nfs \<noteq> []"
  shows "\<exists>nfs1 q d'. write_block (int i) (int (length l div UFS_BLOCK_SIZE)) nfs = Ok (True, nfs1) \<and>
      arr_get (inodes nfs1) (int i) = Ok (inodes nfs1 ! i) \<and> i_size (inodes nfs1 ! i) = int (length l) \<and>
      i < length (inodes nfs1) \<and> arr_get (i_direct (inodes nfs1 ! i)) (int (length l div UFS_BLOCK_SIZE)) = Ok q \<and>
      Write drv (blk_addr q (int (length l mod UFS_BLOCK_SIZE))) bs (fs_disk nfs1) = Ok (0, d') \<and>
      appended nfs i l bs (nfs1\<lparr>fs_disk := d', inodes := (inodes nfs1)[i := (inodes nfs1 ! i)\<lparr>i_size := int (length l + length bs)\<rparr>]\<rparr>)"
proof -
  let ?d = "fs_disk nfs" and ?ino = "inodes nfs ! i" and ?n = "length l"
  let ?k = "?n div 4096" and ?m = "?n mod 4096"
  note af = abs_file [OF f]
  note ff = file_facts [OF ok af(1,2)]
  have wf: "fs_wf (bytes ?d) (lim ?d) nfs" using ok by (simp add: fs_ok_def)
  note i5 = fs_wfD(5) [OF wf af(1)]
  have sz: "i_size ?ino = int ?n" using ff(10) af(3) by simp
  have n30: "?n < 30 * 4096" using bs(1,3) by (cases bs) auto
  have k: "?k < 30" using n30 by (rule less_mult_imp_div_less)
  have n: "?n = nat (i_size ?ino)" using sz by simp
  let ?e = "hd (free_blocks nfs)"
  have sp': "?m = 0 \<longrightarrow> free_blocks nfs = ?e # tl (free_blocks nfs)" using sp by simp
  obtain q db ddb where wb: "write_block (int i) (int ?k) nfs = Ok (True, with_block i ?k q db ddb nfs)"
    and bf: "block_for nfs i ?n ?e q db ddb"
    using write_block_ok [OF ok af(1,2) n n30 sp'] by blast
  let ?nfs1 = "with_block i ?k q db ddb nfs"
  have "data_ptr (fs_s nfs) db q" using bf by (simp add: block_for_def)
  then have bq: "blk_ok (lim ?d) q" by (rule data_ptr_ok(1) [OF ff(2)])
  obtain d' where w: "Write drv (blk_addr q (int ?m)) bs ?d = Ok (0, d')"
    and d': "dok d'" "lim d' = lim ?d" "bytes_stored (bytes ?d) (bytes d') q ?m bs"
    using write_to_block [OF ff(1) bq _ bs(2)] by auto
  let ?nfs' = "?nfs1\<lparr>fs_disk := d', inodes := (inodes ?nfs1)[i := (inodes ?nfs1 ! i)\<lparr>i_size := int (?n + length bs)\<rparr>]\<rparr>"
  have nfs': "?nfs' = nfs\<lparr>fs_disk := d', data_bp := db, dirty_data_bp := ddb,
        inodes := (inodes nfs)[i := ?ino\<lparr>i_size := int (?n + length bs), i_direct := (i_direct ?ino)[?k := q]\<rparr>]\<rparr>"
    using i5 by (intro ufs.equality) (simp_all add: inode_upd_swap with_block_def)
  note fst_ok = file_state_ok [OF ok af(1,2) dirty n bs bf d' nfs', unfolded af(3)]
  have t1: "length (data_bp nfs) = 1" using ff(3) by (simp add: tables_ok_def)
  have st: "data_bp ?nfs' = db" "fs_s ?nfs' = fs_s nfs" by simp_all
  have fb: "free_blocks ?nfs' = (if ?m = 0 then tl (free_blocks nfs) else free_blocks nfs)"
  proof (cases "?m = 0")
    case True
    then have "db = bm_set (data_bp nfs) ?e" using bf by (simp add: block_for_def)
    with True show ?thesis
      using free_blocks_take [OF t1 layout_counts(2) [OF ff(2)] sp' [rule_format, OF True] _ st(2)] st(1) by simp
  next
    case False
    then have "db = data_bp nfs" using bf by (simp add: block_for_def)
    with False show ?thesis
      using free_blocks_same [of ?nfs' nfs] st by simp
  qed
  have "appended nfs i l bs ?nfs'"
    using fst_ok fb d'(2) by (simp add: appended_def)
  then show ?thesis
    using wb w sz i5 k ff(6)
    by (intro exI [of _ ?nfs1] exI [of _ q] exI [of _ d']) (simp add: with_block_def)
qed

lemma write_loop_turn:
  assumes ok: "fs_ok nfs" "abs_of nfs i = Some (File l)" "bm_bit (dirty_inode_bp nfs) i"
    and cur: "cur < N" "N \<le> length buf" "length l + (N - cur) \<le> DIRECT_PTRS * UFS_BLOCK_SIZE"
    and io: "idx = length l div UFS_BLOCK_SIZE" "off = length l mod UFS_BLOCK_SIZE"
    and k: "k = min (UFS_BLOCK_SIZE - off) (N - cur)" and bs: "bs = take k (drop cur buf)"
    and sp: "off = 0 \<Longrightarrow> free_blocks nfs \<noteq> []"
  shows "\<exists>nfs'. write_loop drv (int i) buf (int N) (Suc m) (int idx) (int cur) (int off) nfs =
      write_loop drv (int i) buf (int N) m (int (Suc idx)) (int (cur + k)) (int 0) nfs' \<and> appended nfs i l bs nfs'"
proof -
  have off: "off < 4096" by (simp add: io)
  have k1: "0 < k" "k \<le> N - cur" "off + k \<le> 4096" using cur(1) off by (auto simp: k)
  have szint: "(if 4096 - int off < int N - int cur then 4096 - int off else int N - int cur) = int k"
    using cur(1) off by (auto simp: k)
  have lbs: "length bs = k" using k1(2) cur(2) by (simp add: bs)
  have b: "bs \<noteq> []" "length l mod 4096 + length bs \<le> 4096" "length l + length bs \<le> 30 * 4096"
    using lbs k1 cur(3) io(2) by auto
  obtain nfs1 q d' where st: "write_block (int i) (int idx) nfs = Ok (True, nfs1)"
      "arr_get (inodes nfs1) (int i) = Ok (inodes nfs1 ! i)" "i_size (inodes nfs1 ! i) = int (length l)"
      "i < length (inodes nfs1)" "arr_get (i_direct (inodes nfs1 ! i)) (int idx) = Ok q"
      "Write drv (blk_addr q (int off)) bs (fs_disk nfs1) = Ok (0, d')"
    and ap: "appended nfs i l bs (nfs1\<lparr>fs_disk := d', inodes := (inodes nfs1)[i := (inodes nfs1 ! i)\<lparr>i_size := int (length l + length bs)\<rparr>]\<rparr>)"
      (is "appended _ _ _ _ ?nfs'")
    using write_step [OF ok b sp [unfolded io(2)]] unfolding io by blast
  have "int32 (int (length l) + int k) = Ok (int (length l + length bs))"
    using b(3) lbs by (simp add: is_int32_def)
  moreover have "\<not> int (length buf) < int cur + int k"
    using k1(2) cur(1,2) by linarith
  ultimately have "write_loop drv (int i) buf (int N) (Suc m) (int idx) (int cur) (int off) nfs =
      write_loop drv (int i) buf (int N) m (int (Suc idx)) (int (cur + k)) (int 0) ?nfs'"
    using st cur(1,2) szint k1(2) lbs
    by (simp add: Let_def upd_inode_eq flip: bs) (simp add: add.commute)
  then show ?thesis using ap by blast
qed

lemma write_loop_ok:
  assumes "fs_ok nfs" and "abs_of nfs i = Some (File l)" and "bm_bit (dirty_inode_bp nfs) i"
    and "cur \<le> N" and "N \<le> length buf" and "length l + (N - cur) \<le> DIRECT_PTRS * UFS_BLOCK_SIZE"
    and "append_blocks (length l) (N - cur) \<le> length (free_blocks nfs)"
    and "cur < N \<Longrightarrow> idx = length l div UFS_BLOCK_SIZE \<and> off = length l mod UFS_BLOCK_SIZE \<and> m = DIRECT_PTRS - idx"
  shows "\<exists>nfs'. write_loop drv (int i) buf (int N) m (int idx) (int cur) (int off) nfs = Ok (True, nfs') \<and>
     fs_ok nfs' \<and> abs_of nfs' = (abs_of nfs)(i \<mapsto> File (l @ drop cur (take N buf))) \<and>
     fs_s nfs' = fs_s nfs \<and> lim (fs_disk nfs') = lim (fs_disk nfs) \<and>
     free_blocks nfs' = drop (append_blocks (length l) (N - cur)) (free_blocks nfs)"
  using assms
proof (induction m arbitrary: nfs l cur idx off)
  case 0
  have "\<not> cur < N"
  proof
    assume c: "cur < N"
    then have "length l < 30 * 4096" using "0.prems"(6) by linarith
    then have "length l div 4096 < 30" by (rule less_mult_imp_div_less)
    then show False using "0.prems"(8) [OF c] by simp
  qed
  then have "drop cur (take N buf) = []" "N - cur = 0" by simp_all
  then show ?case using "0.prems"(1,2) by (simp add: fun_upd_idem append_blocks_def)
next
  case (Suc m)
  show ?case
  proof (cases "cur < N")
    case False
    then have "drop cur (take N buf) = []" "N - cur = 0" by simp_all
    then show ?thesis using Suc.prems(1,2) False by (simp add: fun_upd_idem append_blocks_def)
  next
    case True
    define k where "k = min (4096 - off) (N - cur)"
    define bs where "bs = take k (drop cur buf)"
    have io: "idx = length l div 4096" "off = length l mod 4096" "m = 29 - idx"
      using Suc.prems(8) [OF True] by linarith+
    have k: "0 < k" "k \<le> N - cur" "length l mod 4096 + k \<le> 4096" using True by (auto simp: k_def io(2))
    have lbs: "length bs = k" using k(2) Suc.prems(5) by (simp add: bs_def)
    note ab = append_blocks_step [OF k]
    have sp: "off = 0 \<Longrightarrow> free_blocks nfs \<noteq> []"
      using ab Suc.prems(7) io(2) by auto
    obtain nfs' where run: "write_loop drv (int i) buf (int N) (Suc m) (int idx) (int cur) (int off) nfs =
        write_loop drv (int i) buf (int N) m (int (Suc idx)) (int (cur + k)) (int 0) nfs'"
      and 2: "fs_ok nfs'" "abs_of nfs' = (abs_of nfs)(i \<mapsto> File (l @ bs))" "fs_s nfs' = fs_s nfs"
        "lim (fs_disk nfs') = lim (fs_disk nfs)" "dirty_inode_bp nfs' = dirty_inode_bp nfs"
        "free_blocks nfs' = (if length l mod 4096 = 0 then tl (free_blocks nfs) else free_blocks nfs)"
      using write_loop_turn [OF Suc.prems(1-3) True Suc.prems(5,6) io(1,2) k_def bs_def sp, of m]
      unfolding appended_def by blast
    have "\<exists>nfs''. write_loop drv (int i) buf (int N) m (int (Suc idx)) (int (cur + k)) (int 0) nfs' = Ok (True, nfs'') \<and>
       fs_ok nfs'' \<and> abs_of nfs'' = (abs_of nfs')(i \<mapsto> File ((l @ bs) @ drop (cur + k) (take N buf))) \<and>
       fs_s nfs'' = fs_s nfs' \<and> lim (fs_disk nfs'') = lim (fs_disk nfs') \<and>
       free_blocks nfs'' = drop (append_blocks (length (l @ bs)) (N - (cur + k))) (free_blocks nfs')"
    proof (rule Suc.IH)
      show "append_blocks (length (l @ bs)) (N - (cur + k)) \<le> length (free_blocks nfs')"
        using ab Suc.prems(7) lbs 2(6) by (auto simp: diff_diff_left)
      assume c: "cur + k < N"
      then have "k = 4096 - length l mod 4096" by (simp add: k_def io(2) min_def split: if_splits)
      then show "Suc idx = length (l @ bs) div 4096 \<and> 0 = length (l @ bs) mod 4096 \<and> m = 30 - Suc idx"
        using lbs io next_block [of k "length l"] by simp
    qed (use 2 Suc.prems k lbs in auto)
    moreover have ap: "bs @ drop (cur + k) (take N buf) = drop cur (take N buf)"
      unfolding bs_def by (rule take_drop_part) (rule k(2))
    moreover have upd: "(abs_of nfs')(i \<mapsto> x) = (abs_of nfs)(i \<mapsto> x)" for x by (simp add: 2(2))
    moreover have dr: "drop (append_blocks (length (l @ bs)) (N - (cur + k))) (free_blocks nfs') =
        drop (append_blocks (length l) (N - cur)) (free_blocks nfs)"
      using ab lbs by (simp add: 2(6) drop_Suc)
    ultimately show ?thesis
      unfolding run upd dr append_assoc ap 2(3,4) by blast
  qed
qed


text \<open>Marking the inode of a file as dirty changes nothing else.\<close>

lemma touch_file:
  assumes ok: "fs_ok nfs" and f: "abs_of nfs i = Some (File l)"
    and nfs1: "nfs1 = nfs\<lparr>dirty_inode_bp := bm_set (dirty_inode_bp nfs) i\<rparr>"
  shows "touch_inode (int i) nfs = Ok nfs1" "fs_ok nfs1" "abs_of nfs1 = abs_of nfs" "bm_bit (dirty_inode_bp nfs1) i"
    "free_blocks nfs1 = free_blocks nfs"
proof -
  note af = abs_file [OF f]
  note ff = file_facts [OF ok af(1,2)]
  have cap: "i < bm_cap (dirty_inode_bp nfs)" "bm_cap (dirty_inode_bp nfs) = 32" "i < 32" using ff(3,8) by simp_all
  have al: "alloc nfs1 = alloc nfs" by (simp add: nfs1 fun_eq_iff alloc_def)
  show "touch_inode (int i) nfs = Ok nfs1" unfolding nfs1 by (rule touch_inode_eq [OF ff(3) cap(3)])
  have "clean_synced (bytes (fs_disk nfs)) nfs1"
    by (rule inode_synced [OF ff(4,2), of i _ "inodes nfs ! i"]) (use ff(7) cap in \<open>auto simp: nfs1 bm_bit_set\<close>)
  then show "fs_ok nfs1"
    using ok ff(3) by (simp add: nfs1 fs_ok_def fs_wf_def ptrs_wf_def al [unfolded nfs1] tables_ok_def)
  show "abs_of nfs1 = abs_of nfs" by (rule ext) (simp add: abs_of_def fs_abs_def al [unfolded nfs1] nfs1)
  show "bm_bit (dirty_inode_bp nfs1) i" using cap by (simp add: nfs1 bm_bit_set)
  show "free_blocks nfs1 = free_blocks nfs" by (simp add: nfs1 free_blocks_def)
qed

text \<open>A call that passes the tests of \<open>ufs_write\<close> is its loop and the commit.\<close>

lemma ufs_write_run:
  assumes ok: "fs_ok nfs" and f: "abs_of nfs i = Some (File l)"
    and n: "0 < N" "N \<le> 4096" "off \<le> length l" "off + N \<le> DIRECT_PTRS * UFS_BLOCK_SIZE"
  shows "ufs_write drv nfs (int i) buf (int off) (int N) =
    bindr (write_loop drv (int i) buf (int N) (DIRECT_PTRS - off div UFS_BLOCK_SIZE) (int (off div UFS_BLOCK_SIZE)) (int 0)
      (int (off mod UFS_BLOCK_SIZE)) (nfs\<lparr>dirty_inode_bp := bm_set (dirty_inode_bp nfs) i\<rparr>))
    (\<lambda>(ok, nfs). if \<not> ok then Ok (- 1, nfs) else commit_and_sync drv nfs)"
proof -
  note af = abs_file [OF f]
  note ff = file_facts [OF ok af(1,2)]
  have wf: "fs_wf (bytes (fs_disk nfs)) (lim (fs_disk nfs)) nfs" using ok by (simp add: fs_ok_def)
  have sz: "i_size (inodes nfs ! i) = int (length l)" using ff(10) af(3) by simp
  have "get_bitmap (inode_bp nfs) (int i) = Ok 1"
    using ff(8,9) by (simp add: get_bitmap_eq)
  then show ?thesis
    using n fs_wfD(5) [OF wf af(1)] sz af(2) ff(7) touch_file(1) [OF ok f refl]
    by (simp add: ufs_write_def Let_def zdiv_int zmod_int nat_diff_distrib' nat_div_distrib flip: of_nat_diff)
qed

text \<open>Writing at the end of a file.\<close>

lemma ufs_write_append:
  assumes ok: "fs_ok nfs" and f: "abs_of nfs i = Some (File l)"
    and n: "0 < N" "N \<le> 4096" "N \<le> length buf" "length l + N \<le> DIRECT_PTRS * UFS_BLOCK_SIZE"
    and sp: "append_blocks (length l) N \<le> length (free_blocks nfs)"
  shows "\<exists>nfs'. ufs_write drv nfs (int i) buf (int (length l)) (int N) = Ok (0, nfs') \<and>
     done_with nfs ((abs_of nfs)(i \<mapsto> File (l @ take N buf))) nfs' \<and>
     free_blocks nfs' = drop (append_blocks (length l) N) (free_blocks nfs)"
proof -
  let ?n = "length l"
  let ?nfs1 = "nfs\<lparr>dirty_inode_bp := bm_set (dirty_inode_bp nfs) i\<rparr>"
  note t = touch_file [OF ok f refl]
  have "\<exists>nfs2. write_loop drv (int i) buf (int N) (30 - ?n div 4096) (int (?n div 4096)) (int 0) (int (?n mod 4096)) ?nfs1 = Ok (True, nfs2) \<and>
     fs_ok nfs2 \<and> abs_of nfs2 = (abs_of ?nfs1)(i \<mapsto> File (l @ drop 0 (take N buf))) \<and>
     fs_s nfs2 = fs_s ?nfs1 \<and> lim (fs_disk nfs2) = lim (fs_disk ?nfs1) \<and>
     free_blocks nfs2 = drop (append_blocks ?n (N - 0)) (free_blocks ?nfs1)"
    using t(2-5) f n sp by (intro write_loop_ok) simp_all
  then obtain nfs2 where 2: "write_loop drv (int i) buf (int N) (30 - ?n div 4096) (int (?n div 4096)) (int 0) (int (?n mod 4096)) ?nfs1 = Ok (True, nfs2)"
    "fs_ok nfs2" "abs_of nfs2 = (abs_of nfs)(i \<mapsto> File (l @ take N buf))" "fs_s nfs2 = fs_s nfs"
    "lim (fs_disk nfs2) = lim (fs_disk nfs)" "free_blocks nfs2 = drop (append_blocks ?n N) (free_blocks nfs)"
    unfolding t(3,5) by auto
  obtain nfs' where "commit_and_sync drv nfs2 = Ok (0, nfs')" "done_with nfs2 (abs_of nfs2) nfs'" "data_bp nfs' = data_bp nfs2"
    using commit_done [OF 2(2)] by blast
  then show ?thesis
    using 2 free_blocks_same [of nfs' nfs2] n unfolding ufs_write_run [OF ok f n(1,2) order_refl n(4)]
    by (auto simp: done_with_def)
qed


text \<open>A byte inside a file is in one of its blocks.\<close>

lemma file_block:
  assumes ok: "fs_ok nfs" and f: "abs_of nfs i = Some (File l)" and x: "x < length l"
  shows "x div UFS_BLOCK_SIZE < DIRECT_PTRS" "i_direct (inodes nfs ! i) ! (x div UFS_BLOCK_SIZE) \<noteq> - 1"
    "data_ptr (fs_s nfs) (data_bp nfs) (i_direct (inodes nfs ! i) ! (x div UFS_BLOCK_SIZE))"
    "blk_ok (lim (fs_disk nfs)) (i_direct (inodes nfs ! i) ! (x div UFS_BLOCK_SIZE))"
proof -
  note af = abs_file [OF f]
  note ff = file_facts [OF ok af(1,2)]
  have wf: "fs_wf (bytes (fs_disk nfs)) (lim (fs_disk nfs)) nfs" using ok by (simp add: fs_ok_def)
  have sz: "i_size (inodes nfs ! i) = int (length l)" using ff(10) af(3) by simp
  have "x < 30 * 4096" using ff(5) sz x by (simp add: file_wf_def)
  then show k: "x div 4096 < 30" by (rule less_mult_imp_div_less)
  have "x div 4096 * 4096 < length l" using x order_le_less_trans [of "x div 4096 * 4096" x] by simp
  then show p: "i_direct (inodes nfs ! i) ! (x div 4096) \<noteq> - 1" using ff(5) sz k by (simp add: file_wf_def)
  show dp: "data_ptr (fs_s nfs) (data_bp nfs) (i_direct (inodes nfs ! i) ! (x div 4096))"
    by (rule fs_wfD(2) [OF wf af(1) k p])
  show "blk_ok (lim (fs_disk nfs)) (i_direct (inodes nfs ! i) ! (x div 4096))"
    by (rule data_ptr_ok(1) [OF ff(2) dp])
qed

text \<open>Reading a file gives the bytes of the abstract file.\<close>

lemma ufs_read_file:
  assumes ok: "fs_ok nfs" and f: "abs_of nfs i = Some (File l)" and n: "0 < n" "off + n \<le> length l"
  shows "\<exists>d'. ufs_read drv nfs (int i) (int off) (int n) = Ok (0, take n (drop off l), nfs\<lparr>fs_disk := d'\<rparr>) \<and>
     same (fs_disk nfs) d'"
proof -
  let ?d = "fs_disk nfs" and ?ino = "inodes nfs ! i"
  note af = abs_file [OF f]
  note ff = file_facts [OF ok af(1,2)]
  have wf: "fs_wf (bytes ?d) (lim ?d) nfs" using ok by (simp add: fs_ok_def)
  note i = fs_wfD [OF wf af(1)]
  have sz: "i_size ?ino = int (length l)" using ff(10) af(3) by simp
  have "map (file_byte (bytes ?d) (i_direct ?ino)) [off..<off + n] = take n (drop off l)"
  proof (rule nth_equalityI)
    fix x assume "x < length (map (file_byte (bytes ?d) (i_direct ?ino)) [off..<off + n])"
    then have x: "x < n" by simp
    then have "l ! (off + x) = file_byte (bytes ?d) (i_direct ?ino) (off + x)"
      using n sz by (subst af(3) [symmetric]) (simp add: file_bytes_def)
    then show "map (file_byte (bytes ?d) (i_direct ?ino)) [off..<off + n] ! x = take n (drop off l) ! x"
      using x n by simp
  qed (use n in simp)
  moreover have "int (off + n) \<le> i_size ?ino" using n sz by simp
  moreover have "i_type ?ino = UFS_DIRECTORY \<longrightarrow> off mod 32 = 0"
    using af(2) by (simp add: UFS_DIRECTORY_def UFS_REGULAR_FILE_def)
  moreover have "\<forall>x. off \<le> x \<and> x < off + n \<longrightarrow> x div 4096 < length (i_direct ?ino) \<and>
      blk_ok (lim ?d) (i_direct ?ino ! (x div 4096))"
    using file_block [OF ok f] n(2) ff(6) by simp
  moreover have "is_int32 (i_size ?ino)" using i(4) by (simp add: inode_typed_def)
  ultimately show ?thesis
    using ufs_read_ok [OF ff(1,7,8,9) i(5) _ n(1), of off] by simp
qed

text \<open>
  Writing inside a file: the size grows by the bytes written all the same, and the last pointer
  does not.
\<close>

lemma write_inside_loop:
  assumes ok: "fs_ok nfs" and f: "abs_of nfs i = Some (File l)" and n: "0 < N" "N \<le> length buf"
    and inside: "off mod UFS_BLOCK_SIZE + N \<le> UFS_BLOCK_SIZE" "off + N \<le> length l"
    and nfs1: "nfs1 = nfs\<lparr>dirty_inode_bp := bm_set (dirty_inode_bp nfs) i\<rparr>"
    and q: "q = i_direct (inodes nfs ! i) ! (off div UFS_BLOCK_SIZE)"
    and w: "Write drv (blk_addr q (int (off mod UFS_BLOCK_SIZE))) (take N buf) (fs_disk nfs) = Ok (0, d1)"
  shows "write_loop drv (int i) buf (int N) (DIRECT_PTRS - off div UFS_BLOCK_SIZE) (int (off div UFS_BLOCK_SIZE)) 0
      (int (off mod UFS_BLOCK_SIZE)) nfs1 =
    Ok (True, nfs1\<lparr>fs_disk := d1, inodes := (inodes nfs)[i := (inodes nfs ! i)\<lparr>i_size := int (length l + N)\<rparr>]\<rparr>)"
proof -
  let ?ino = "inodes nfs ! i" and ?k = "off div 4096"
  note af = abs_file [OF f]
  note ff = file_facts [OF ok af(1,2)]
  have wf: "fs_wf (bytes (fs_disk nfs)) (lim (fs_disk nfs)) nfs" using ok by (simp add: fs_ok_def)
  note i5 = fs_wfD(5) [OF wf af(1)]
  have sz: "i_size ?ino = int (length l)" "length l \<le> 122880"
    using ff(5,10) af(3) by (simp_all add: file_wf_def)
  have k: "?k < 30" "i_direct ?ino ! ?k \<noteq> - 1" using file_block [OF ok f, of off] inside(2) n(1) by simp_all
  have wb: "write_block (int i) (int ?k) nfs1 = Ok (True, nfs1)"
    using k ff(6) i5 by (simp add: write_block_def nfs1 del: of_nat_div)
  have "N \<le> 4096" using inside(1) by simp
  then have i32: "int32 (int (length l) + int N) = Ok (int (length l + N))"
    using sz(2) by (simp add: is_int32_def)
  obtain m where m: "30 - ?k = Suc m" using k(1) by (cases "30 - ?k") auto
  have stop: "write_loop drv (int i) buf (int N) m j (int N) 0 nfs = Ok (True, nfs)" for j and nfs :: "'a ufs"
    by (cases m) simp_all
  have szn: "(if 4096 - int (off mod 4096) < int N - 0 then 4096 - int (off mod 4096) else int N - 0) = int N"
    using inside(1) by auto
  show ?thesis
    unfolding m using wb n w i32 stop i5 k(1) ff(6) sz(1) szn
    by (simp add: Let_def upd_inode_eq nfs1 q del: of_nat_div of_nat_mod)
qed

lemma ufs_write_inside:
  assumes ok: "fs_ok nfs" and f: "abs_of nfs i = Some (File l)" and n: "0 < N" "N \<le> length buf"
    and inside: "off mod UFS_BLOCK_SIZE + N \<le> UFS_BLOCK_SIZE" "off + N \<le> length l"
  shows "\<exists>nfs'. ufs_write drv nfs (int i) buf (int off) (int N) = Ok (0, nfs') \<and> fs_s nfs' = fs_s nfs \<and>
     inode_bp nfs' = inode_bp nfs \<and> dok (fs_disk nfs') \<and> lim (fs_disk nfs') = lim (fs_disk nfs) \<and>
     inodes nfs' = (inodes nfs)[i := (inodes nfs ! i)\<lparr>i_size := int (length l + N)\<rparr>]"
proof -
  let ?d = "fs_disk nfs" and ?new = "(inodes nfs ! i)\<lparr>i_size := int (length l + N)\<rparr>"
  let ?nfs1 = "nfs\<lparr>dirty_inode_bp := bm_set (dirty_inode_bp nfs) i\<rparr>" and ?q = "i_direct (inodes nfs ! i) ! (off div 4096)"
  note af = abs_file [OF f]
  note ff = file_facts [OF ok af(1,2)]
  have wf: "fs_wf (bytes ?d) (lim ?d) nfs" using ok by (simp add: fs_ok_def)
  have N: "N \<le> 4096" and le: "length l \<le> 122880" using inside(1) ff(5,10) af(3) by (simp_all add: file_wf_def)
  have off: "off < length l" using inside(2) n(1) by simp
  note bl = file_block [OF ok f off]
  obtain d1 where w: "Write drv (blk_addr ?q (int (off mod 4096))) (take N buf) ?d = Ok (0, d1)"
    and d1: "dok d1" "lim d1 = lim ?d" "bytes_stored (bytes ?d) (bytes d1) ?q (off mod 4096) (take N buf)"
    using write_to_block [OF ff(1) bl(4), of "off mod 4096" "take N buf"] inside(1) n(2) by auto
  let ?nfs2 = "?nfs1\<lparr>fs_disk := d1, inodes := (inodes nfs)[i := ?new]\<rparr>"
  have run: "ufs_write drv nfs (int i) buf (int off) (int N) = commit_and_sync drv ?nfs2"
    using ufs_write_run [OF ok f n(1) N, of off buf] off le inside(2)
      write_inside_loop [OF ok f n inside refl refl w] by simp
  have tab2: "tables_ok ?nfs2"
    using ff(3) fs_wfD(4) [OF wf af(1)] le N
    by (auto simp: tables_ok_def inode_typed_def is_int32_def dest!: set_update_subset_insert [THEN subsetD])
  have i: "i < nat (num_inodes (fs_s nfs))" using ff(7) by simp
  have cs: "clean_synced (bytes (fs_disk ?nfs2)) ?nfs2"
  proof (rule inode_synced [OF ff(4,2) i])
    show "bytes (fs_disk ?nfs2) x = bytes ?d x" if "x < DR (fs_s nfs) * 4096" for x
      using that d1(3) mult_le_mono1 [OF data_ptr_ok(3) [OF ff(2) bl(3)], of 4096]
      by (simp add: bytes_stored_def wr_apply_out)
  qed (use ff(3,8) in \<open>auto simp: bm_bit_set\<close>)
  have pre: "dok (fs_disk ?nfs2)" "layout_ok (fs_s ?nfs2) (lim (fs_disk ?nfs2))"
    using d1 ff(2) by simp_all
  show ?thesis
  proof (rule commit_and_sync_ok [OF pre tab2 cs])
    fix nfs' assume "commit_and_sync drv ?nfs2 = Ok (0, nfs')" "dok (fs_disk nfs')"
      "lim (fs_disk nfs') = lim (fs_disk ?nfs2)" "fs_s nfs' = fs_s ?nfs2" "inode_bp nfs' = inode_bp ?nfs2"
      "inodes nfs' = inodes ?nfs2"
    then show ?thesis unfolding run using d1(2) by (intro exI [of _ nfs']) simp
  qed
qed

end

end
