(* ===== verification/HostRun.thy ===== *)
theory HostRun
  imports Host UfsWrite IntStr
begin

text \<open>
  Writing and reading files on an image, and \<open>main\<close> of fs/ufs.c: the run that makes the initial
  ramdisk of the kernel, from the image that mkfs writes to the committed file system with its
  two directories and two files.
\<close>

section \<open>Steps that keep track of the free space\<close>

lemma host_free_inodes:
  "free_inodes nfs = filter (\<lambda>j. host_abs nfs j = None) [0..<nat (num_inodes (fs_s nfs))]"
  unfolding free_inodes_def by (intro filter_cong) (auto simp: host_abs_def fs_abs_def alloc_def)

lemma host_done_s:
  "host.done_with nfs a nfs' \<Longrightarrow> fs_s nfs' = fs_s nfs \<and> hf_len (fs_disk nfs') = hf_len (fs_disk nfs)"
  by (simp add: host.done_with_def)

lemma host_creat_step:
  assumes "host_fs_ok nfs" and "host_abs nfs i = Some (Dir l)" and "length l < 128 * 30"
    and "terminated name" and "length (cstr name) \<le> 27" and "cstr name \<notin> fst ` set l"
    and "free_inodes nfs = ei # rest" and "is_int32 type"
    and "blocks_needed type (length l) \<le> length (free_blocks nfs)"
  shows "\<exists>nfs'. host_ufs_creat junk nfs (int i) type name = Ok (None, nfs') \<and> host_committed nfs' \<and>
     host_abs nfs' = (host_abs nfs)(ei \<mapsto> new_node type ei i, i \<mapsto> Dir (l @ [(cstr name, int ei)])) \<and>
     fs_s nfs' = fs_s nfs \<and> hf_len (fs_disk nfs') = hf_len (fs_disk nfs) \<and> free_blocks nfs' = drop (blocks_needed type (length l)) (free_blocks nfs)"
proof -
  obtain nfs' where "ufs_creat host_platform host_driver junk nfs (int i) type name = Ok (0, nfs')"
    "host.done_with nfs ((host_abs nfs)(ei \<mapsto> new_node type ei i, i \<mapsto> Dir (l @ [(cstr name, int ei)]))) nfs'"
    "free_blocks nfs' = drop (blocks_needed type (length l)) (free_blocks nfs)"
    using hfs.ufs_creat_ok [unfolded host_fs_simps, OF assms(1-9), of junk] by blast
  then show ?thesis
    using host_done host_done_s by (auto simp: host_ufs_creat_def)
qed

lemma host_write_step:
  assumes "host_fs_ok nfs" and "host_abs nfs i = Some (File l)"
    and "0 < n" and "n \<le> 4096" and "n \<le> length buf" and "length l + n \<le> 30 * 4096"
    and "append_blocks (length l) n \<le> length (free_blocks nfs)"
  shows "\<exists>nfs'. host_ufs_write nfs (int i) buf (int (length l)) (int n) = Ok (0, nfs') \<and> host_committed nfs' \<and>
     host_abs nfs' = (host_abs nfs)(i \<mapsto> File (l @ take n buf)) \<and>
     fs_s nfs' = fs_s nfs \<and> hf_len (fs_disk nfs') = hf_len (fs_disk nfs) \<and> free_blocks nfs' = drop (append_blocks (length l) n) (free_blocks nfs)"
proof -
  obtain nfs' where "ufs_write host_driver nfs (int i) buf (int (length l)) (int n) = Ok (0, nfs')"
    "host.done_with nfs ((host_abs nfs)(i \<mapsto> File (l @ take n buf))) nfs'"
    "free_blocks nfs' = drop (append_blocks (length l) n) (free_blocks nfs)"
    using host.ufs_write_append [unfolded host_fs_simps, OF assms(1,2,3,4,5) _ assms(7)] assms(6) by auto
  then show ?thesis
    using host_done host_done_s by (auto simp: host_ufs_write_def)
qed

lemma committed_ok: "host_committed nfs \<Longrightarrow> host_fs_ok nfs"
  by (simp add: host_committed_def)

section \<open>The program\<close>

text \<open>
  \<open>main\<close> of fs/ufs.c, on the opened image \<open>d\<close>. The results of the calls are ignored; a failed
  \<open>ufs_init\<close> ends the program.
\<close>

definition t1 :: "byte list" where
  "t1 = cbytes ''Example contents of /file1.txt, stored on initrd''"

definition t2 :: "byte list" where
  "t2 = cbytes ''Example contents of /dir/file2.txt, stored on initrd''"

definition host_main :: "(nat \<Rightarrow> u32) \<Rightarrow> (nat \<Rightarrow> u32) \<Rightarrow> (nat \<Rightarrow> byte) \<Rightarrow> host_file \<Rightarrow> (int \<times> host_file ufs) res" where
  "host_main junk1 junk2 junk d =
     bindr (host_ufs_init junk1 junk2 d) (\<lambda>nfs.
     bindr (host_ufs_creat junk nfs 0 UFS_DIRECTORY (cbytes ''dir'')) (\<lambda>(_, nfs).
     bindr (host_ufs_creat junk nfs 0 UFS_REGULAR_FILE (cbytes ''file1.txt'')) (\<lambda>(_, nfs).
     bindr (host_ufs_creat junk nfs 1 UFS_REGULAR_FILE (cbytes ''file2.txt'')) (\<lambda>(_, nfs).
     bindr (arr_strlen t1) (\<lambda>n1.
     bindr (host_ufs_write nfs 2 t1 0 (int n1)) (\<lambda>(_, nfs).
     bindr (arr_strlen t2) (\<lambda>n2.
     bindr (host_ufs_write nfs 3 t2 0 (int n2)) (\<lambda>(_, nfs).
     Ok (0, nfs)))))))))"

section \<open>Properties\<close>

text \<open>The file system that the run leaves.\<close>

definition initrd_fs :: "nat \<rightharpoonup> node" where
  "initrd_fs = [
     0 \<mapsto> Dir [(map of_char ''.'', 0), (map of_char ''..'', 0), (map of_char ''dir'', 1), (map of_char ''file1.txt'', 2)],
     1 \<mapsto> Dir [(map of_char ''.'', 1), (map of_char ''..'', 0), (map of_char ''file2.txt'', 3)],
     2 \<mapsto> File (map of_char ''Example contents of /file1.txt, stored on initrd''),
     3 \<mapsto> File (map of_char ''Example contents of /dir/file2.txt, stored on initrd'')]"

lemma cbytes_facts:
  "terminated (cbytes s)"
  "0 \<notin> set (map (of_char :: char \<Rightarrow> byte) s) \<Longrightarrow> cstr (cbytes s) = map of_char s"
  by (simp_all add: cbytes_def terminated_def)

text \<open>The tree that the run has before it writes the texts.\<close>

definition empty_tree :: "nat \<rightharpoonup> node" where
  "empty_tree = [0 \<mapsto> Dir [([46], 0), ([46, 46], 0), (map of_char ''dir'', 1), (map of_char ''file1.txt'', 2)],
     1 \<mapsto> Dir [([46], 1), ([46, 46], 0), (map of_char ''file2.txt'', 3)], 2 \<mapsto> File [], 3 \<mapsto> File []]"

lemma host_main_tree:
  assumes "mkfs junk1 junk2 32 32 = Ok d"
  shows "\<exists>n0 n1 n2 n3. host_ufs_init junk3 junk4 d = Ok n0 \<and>
    host_ufs_creat junk n0 0 UFS_DIRECTORY (cbytes ''dir'') = Ok (None, n1) \<and>
    host_ufs_creat junk n1 0 UFS_REGULAR_FILE (cbytes ''file1.txt'') = Ok (None, n2) \<and>
    host_ufs_creat junk n2 1 UFS_REGULAR_FILE (cbytes ''file2.txt'') = Ok (None, n3) \<and>
    host_committed n3 \<and> host_abs n3 = empty_tree \<and> fs_s n3 = default_super \<and>
    hf_len (fs_disk n3) = 147456 \<and> free_blocks n3 = [2..<32]"
proof -
  obtain n0 where n0: "host_ufs_init junk3 junk4 d = Ok n0" "host_fs_ok n0"
    "host_abs n0 = [0 \<mapsto> Dir [([46], 0), ([46, 46], 0)]]" "fs_s n0 = default_super"
    "inode_bp n0 = [push_bit 31 1]" "data_bp n0 = [push_bit 31 1]" "hf_len (fs_disk n0) = 147456"
    using mkfs_mount [OF assms, of junk3 junk4] unfolding host_ufs_init_def host_fs_simps by blast
  have num: "nat (num_inodes default_super) = 32" by (simp add: default_super_def)
  have fb0: "free_blocks n0 = [1..<32]"
    using n0(4,6) filter_root by (simp add: free_blocks_def default_super_def)
  have dir: "cstr (cbytes ''dir'') = map of_char ''dir''" "cstr (cbytes ''file1.txt'') = map of_char ''file1.txt''"
    "cstr (cbytes ''file2.txt'') = map of_char ''file2.txt''"
    by (simp_all add: cbytes_facts)
  have fi0: "free_inodes n0 = 1 # [2..<32]"
    by (simp add: host_free_inodes n0(3,4) num upt_rec)
  obtain n1 where n1: "host_ufs_creat junk n0 (int 0) UFS_DIRECTORY (cbytes ''dir'') = Ok (None, n1)" "host_committed n1"
    "host_abs n1 = [0 \<mapsto> Dir [([46], 0), ([46, 46], 0), (map of_char ''dir'', 1)], 1 \<mapsto> Dir [([46], 1), ([46, 46], 0)]]"
    "fs_s n1 = default_super" "hf_len (fs_disk n1) = 147456" "free_blocks n1 = [2..<32]"
    using host_creat_step [OF n0(2), of 0 "[([46], 0), ([46, 46], 0)]" "cbytes ''dir''" 1 "[2..<32]" UFS_DIRECTORY junk] fi0
    by (auto simp: n0(3,4,7) fb0 cbytes_facts dir blocks_needed_def new_node_def UFS_DIRECTORY_def is_int32_def upt_rec fun_upd_twist)
  have fi1: "free_inodes n1 = 2 # [3..<32]"
    by (simp add: host_free_inodes n1(3,4) num upt_rec)
  obtain n2 where n2: "host_ufs_creat junk n1 (int 0) UFS_REGULAR_FILE (cbytes ''file1.txt'') = Ok (None, n2)" "host_committed n2"
    "host_abs n2 = [0 \<mapsto> Dir [([46], 0), ([46, 46], 0), (map of_char ''dir'', 1), (map of_char ''file1.txt'', 2)],
       1 \<mapsto> Dir [([46], 1), ([46, 46], 0)], 2 \<mapsto> File []]"
    "fs_s n2 = default_super" "hf_len (fs_disk n2) = 147456" "free_blocks n2 = [2..<32]"
    using host_creat_step [OF committed_ok [OF n1(2)], of 0 "[([46], 0), ([46, 46], 0), (map of_char ''dir'', 1)]"
      "cbytes ''file1.txt''" 2 "[3..<32]" UFS_REGULAR_FILE junk] fi1
    by (auto simp: n1(3,4,5,6) cbytes_facts dir blocks_needed_def new_node_def UFS_DIRECTORY_def UFS_REGULAR_FILE_def
        is_int32_def fun_upd_twist)
  have fi2: "free_inodes n2 = 3 # [4..<32]"
    by (simp add: host_free_inodes n2(3,4) num upt_rec)
  obtain n3 where n3: "host_ufs_creat junk n2 (int 1) UFS_REGULAR_FILE (cbytes ''file2.txt'') = Ok (None, n3)" "host_committed n3"
    "host_abs n3 = [0 \<mapsto> Dir [([46], 0), ([46, 46], 0), (map of_char ''dir'', 1), (map of_char ''file1.txt'', 2)],
       1 \<mapsto> Dir [([46], 1), ([46, 46], 0), (map of_char ''file2.txt'', 3)], 2 \<mapsto> File [], 3 \<mapsto> File []]"
    "fs_s n3 = default_super" "hf_len (fs_disk n3) = 147456" "free_blocks n3 = [2..<32]"
    using host_creat_step [OF committed_ok [OF n2(2)], of 1 "[([46], 1), ([46, 46], 0)]"
      "cbytes ''file2.txt''" 3 "[4..<32]" UFS_REGULAR_FILE junk] fi2
    by (auto simp: n2(3,4,5,6) cbytes_facts dir blocks_needed_def new_node_def UFS_DIRECTORY_def UFS_REGULAR_FILE_def
        is_int32_def fun_upd_twist)
  show ?thesis
    using n0(1) n1(1) n2(1) n3 by (intro exI [of _ n0] exI [of _ n1] exI [of _ n2] exI [of _ n3]) (simp add: empty_tree_def)
qed

lemma host_main_ok:
  assumes "mkfs junk1 junk2 32 32 = Ok d"
  shows "\<exists>nfs. host_main junk3 junk4 junk d = Ok (0, nfs) \<and> host_committed nfs \<and> host_abs nfs = initrd_fs \<and>
    fs_s nfs = default_super \<and> hf_len (fs_disk nfs) = 147456 \<and> free_blocks nfs = [4..<32]"
proof -
  obtain n0 n1 n2 n3 where t: "host_ufs_init junk3 junk4 d = Ok n0"
    "host_ufs_creat junk n0 0 UFS_DIRECTORY (cbytes ''dir'') = Ok (None, n1)"
    "host_ufs_creat junk n1 0 UFS_REGULAR_FILE (cbytes ''file1.txt'') = Ok (None, n2)"
    "host_ufs_creat junk n2 1 UFS_REGULAR_FILE (cbytes ''file2.txt'') = Ok (None, n3)"
    and n3: "host_committed n3" "host_abs n3 = empty_tree" "fs_s n3 = default_super"
    "hf_len (fs_disk n3) = 147456" "free_blocks n3 = [2..<32]"
    using host_main_tree [OF assms, of junk3 junk4 junk] by blast
  have len: "arr_strlen t1 = Ok 48" "arr_strlen t2 = Ok 52" "length t1 = 49" "length t2 = 53"
    by (simp_all add: t1_def t2_def cbytes_def)
  have tk: "take 48 t1 = map of_char ''Example contents of /file1.txt, stored on initrd''"
    "take 52 t2 = map of_char ''Example contents of /dir/file2.txt, stored on initrd''"
    by (simp_all add: t1_def t2_def cbytes_def)
  obtain n4 where n4: "host_ufs_write n3 (int 2) t1 (int (length ([] :: byte list))) (int 48) = Ok (0, n4)" "host_committed n4"
    "host_abs n4 = (host_abs n3)(2 \<mapsto> File (take 48 t1))" "fs_s n4 = default_super" "hf_len (fs_disk n4) = 147456" "free_blocks n4 = [3..<32]"
    using host_write_step [OF committed_ok [OF n3(1)], of 2 "[]" 48 t1]
    by (auto simp: n3 empty_tree_def len append_blocks_def upt_rec)
  obtain n5 where n5: "host_ufs_write n4 (int 3) t2 (int (length ([] :: byte list))) (int 52) = Ok (0, n5)" "host_committed n5"
    "host_abs n5 = (host_abs n4)(3 \<mapsto> File (take 52 t2))" "fs_s n5 = default_super" "hf_len (fs_disk n5) = 147456"
    "free_blocks n5 = [4..<32]"
    using host_write_step [OF committed_ok [OF n4(2)], of 3 "[]" 52 t2]
    by (auto simp: n3(2) empty_tree_def n4(3,4,5,6) len append_blocks_def upt_rec)
  have "host_main junk3 junk4 junk d = Ok (0, n5)"
    using t n4(1) n5(1) by (simp add: host_main_def len)
  moreover have "host_abs n5 = initrd_fs"
    unfolding n5(3) n4(3) n3(2) tk initrd_fs_def empty_tree_def by (rule ext) simp
  ultimately show ?thesis using n5(2,4,5,6) by blast
qed

text \<open>
  C7: \<open>main\<close> of fs/ufs.c on a fresh image makes and commits the file system that the kernel boots
  from: the root with "dir" and "file1.txt", the directory with "file2.txt", and the two texts,
  for every content of the uninitialised memory.
\<close>

theorem host_main_image:
  "\<exists>d nfs. mkfs junk1 junk2 32 32 = Ok d \<and> host_main junk3 junk4 junk d = Ok (0, nfs) \<and> host_committed nfs \<and>
     host_abs nfs = initrd_fs"
proof -
  obtain d where "mkfs junk1 junk2 32 32 = Ok d" by (rule mkfs_default)
  then show ?thesis using host_main_ok by blast
qed

text \<open>
  C8: \<open>ufs_write\<close> at the end of a file appends the bytes: the file grows by them, no other node
  changes, and the result is committed, whenever the bytes fit the file and the free blocks.
\<close>

theorem host_write_refines:
  assumes "host_fs_ok nfs" and "host_abs nfs i = Some (File l)"
    and "0 < n" and "n \<le> 4096" and "n \<le> length buf" and "length l + n \<le> 30 * 4096"
    and "append_blocks (length l) n \<le> length (free_blocks nfs)"
  shows "\<exists>nfs'. host_ufs_write nfs (int i) buf (int (length l)) (int n) = Ok (0, nfs') \<and> host_committed nfs' \<and>
     host_abs nfs' = (host_abs nfs)(i \<mapsto> File (l @ take n buf))"
  using host_write_step [OF assms] by blast

text \<open>A file system with an empty file, for the witnesses.\<close>

definition ok_or :: "'a \<Rightarrow> 'a res \<Rightarrow> 'a" where
  "ok_or x r = (case r of Ok y \<Rightarrow> y | Err e \<Rightarrow> x)"

definition file_fs :: "host_file ufs" where
  "file_fs = snd (ok_or (None, fresh_fs) (host_ufs_creat (\<lambda>_. 7) fresh_fs 0 UFS_REGULAR_FILE (cbytes ''f'')))"

lemma file_fs:
  "host_fs_ok file_fs" "host_abs file_fs 1 = Some (File [])" "free_blocks file_fs = [1..<32]"
  "host_abs file_fs = [0 \<mapsto> Dir [([46], 0), ([46, 46], 0), ([102], 1)], 1 \<mapsto> File []]"
  "free_inodes file_fs = 2 # [3..<32]" "fs_s file_fs = default_super"
proof -
  have "free_inodes fresh_fs = 1 # [2..<32]" by (simp add: fresh_fs upt_rec)
  then obtain n1 where n1: "host_ufs_creat (\<lambda>_. 7) fresh_fs (int 0) UFS_REGULAR_FILE (cbytes ''f'') = Ok (None, n1)"
    "host_committed n1" "host_abs n1 = [0 \<mapsto> Dir [([46], 0), ([46, 46], 0), ([102], 1)], 1 \<mapsto> File []]"
    "free_blocks n1 = [1..<32]" "fs_s n1 = default_super"
    using host_creat_step [OF fresh_fs(4), of 0 "[([46], 0), ([46, 46], 0)]" "cbytes ''f''" 1 "[2..<32]" UFS_REGULAR_FILE "\<lambda>_. 7"]
    by (auto simp: fresh_fs cbytes_facts blocks_needed_def new_node_def UFS_DIRECTORY_def UFS_REGULAR_FILE_def is_int32_def fun_upd_twist)
  then have eq: "file_fs = n1" by (simp add: file_fs_def ok_or_def)
  have "nat (num_inodes default_super) = 32" by (simp add: default_super_def)
  then have "free_inodes n1 = 2 # [3..<32]"
    by (simp add: host_free_inodes n1(3,5) upt_rec)
  then show "host_fs_ok file_fs" "host_abs file_fs 1 = Some (File [])" "free_blocks file_fs = [1..<32]"
    "host_abs file_fs = [0 \<mapsto> Dir [([46], 0), ([46, 46], 0), ([102], 1)], 1 \<mapsto> File []]"
    "free_inodes file_fs = 2 # [3..<32]" "fs_s file_fs = default_super"
    using n1 by (simp_all add: eq host_committed_def)
qed

lemma host_write_refines_witness:
  "\<exists>nfs'. host_ufs_write file_fs (int 1) [104, 105] (int (length ([] :: byte list))) (int 2) = Ok (0, nfs') \<and>
     host_committed nfs' \<and> host_abs nfs' = (host_abs file_fs)(1 \<mapsto> File ([] @ take 2 [104, 105]))"
  by (rule host_write_refines [OF file_fs(1,2)]) (simp_all add: file_fs(3) append_blocks_def)

definition text_fs :: "host_file ufs" where
  "text_fs = snd (ok_or (0, file_fs) (host_ufs_write file_fs 1 [104, 105, 33] 0 3))"

lemma text_fs: "host_fs_ok text_fs" "host_abs text_fs 1 = Some (File [104, 105, 33])"
proof -
  obtain n1 where "host_ufs_write file_fs (int 1) [104, 105, 33] (int (length ([] :: byte list))) (int 3) = Ok (0, n1)"
    "host_committed n1" "host_abs n1 1 = Some (File [104, 105, 33])"
    using host_write_step [OF file_fs(1,2), of 3 "[104, 105, 33]"] by (auto simp: file_fs append_blocks_def)
  then show "host_fs_ok text_fs" "host_abs text_fs 1 = Some (File [104, 105, 33])"
    by (simp_all add: text_fs_def ok_or_def host_committed_def)
qed

lemma host_file_facts:
  assumes "host_fs_ok nfs" and "host_abs nfs i = Some (File l)"
  shows "int i < num_inodes (fs_s nfs)" "get_bitmap (inode_bp nfs) (int i) = Ok 1" "i < length (inodes nfs)"
    "i_type (inodes nfs ! i) = UFS_REGULAR_FILE" "i_size (inodes nfs ! i) = int (length l)"
proof -
  have wf: "fs_wf (hf_bytes (fs_disk nfs)) (hf_len (fs_disk nfs)) nfs" using assms(1) by (simp add: host_fs_ok_def)
  have al: "alloc nfs i" "i_type (inodes nfs ! i) = UFS_REGULAR_FILE"
    "file_bytes (hf_bytes (fs_disk nfs)) (inodes nfs ! i) = l"
    using assms(2) by (auto simp: host_abs_def fs_abs_def node_of_def split: if_splits)
  note i = fs_wfD [OF wf al(1)]
  have "file_wf (inodes nfs ! i)" using i(1) al(2) by (simp add: node_wf_def)
  then show "i_size (inodes nfs ! i) = int (length l)"
    using arg_cong [OF al(3), of length] by (auto simp: file_bytes_def file_wf_def)
  have "i < bm_cap (inode_bp nfs)" using wf i(6) by (simp add: fs_wf_def tables_ok_def bm_cap_length)
  then show "get_bitmap (inode_bp nfs) (int i) = Ok 1"
    using al(1) by (simp add: get_bitmap_eq alloc_def)
  show "int i < num_inodes (fs_s nfs)" using al(1) by (auto simp: alloc_def)
  show "i < length (inodes nfs)" "i_type (inodes nfs ! i) = UFS_REGULAR_FILE" using al(2) i(5) by auto
qed

lemma host_read_refused:
  assumes "host_fs_ok nfs" and "host_abs nfs i = Some (File l)"
    and "off < 0 \<or> n \<le> 0 \<or> is_int32 (off + n) \<and> int (length l) < off + n"
  shows "host_ufs_read nfs (int i) off n = Ok (- 1, [], nfs)"
  using host_file_facts [OF assms(1,2)] assms(3) by (auto simp: host_ufs_read_def ufs_read_def)

text \<open>
  C9: \<open>ufs_read\<close> of a file returns exactly the requested bytes when the range lies inside the
  file, and -1 with nothing read when it is empty or reaches past the end; the disk is only
  repositioned.
\<close>

theorem host_read_refines:
  assumes "host_fs_ok nfs" and "host_abs nfs i = Some (File l)" and "off + n < 2 ^ 31"
  shows "\<exists>d'. host_ufs_read nfs (int i) (int off) (int n) =
      Ok (if 0 < n \<and> off + n \<le> length l then (0, take n (drop off l), nfs\<lparr>fs_disk := d'\<rparr>) else (- 1, [], nfs)) \<and>
     hf_bytes d' = hf_bytes (fs_disk nfs) \<and> hf_len d' = hf_len (fs_disk nfs)"
proof (cases "0 < n \<and> off + n \<le> length l")
  case True
  then show ?thesis
    using host.ufs_read_file [unfolded host_fs_simps, OF assms(1,2)] by (auto simp: host_ufs_read_def host.same_def)
next
  case False
  have "is_int32 (int off + int n)" using assms(3) by (auto simp: is_int32_def)
  then have "host_ufs_read nfs (int i) (int off) (int n) = Ok (- 1, [], nfs)"
    using False by (intro host_read_refused [OF assms(1,2)]) auto
  then show ?thesis using False by auto
qed

lemma host_read_refines_witness:
  "\<exists>d'. host_ufs_read text_fs (int 1) (int 1) (int 2) =
      Ok (if 0 < (2 :: nat) \<and> 1 + 2 \<le> length [104, 105, 33 :: byte] then (0, take 2 (drop 1 [104, 105, 33]), text_fs\<lparr>fs_disk := d'\<rparr>)
        else (- 1, [], text_fs)) \<and>
     hf_bytes d' = hf_bytes (fs_disk text_fs) \<and> hf_len d' = hf_len (fs_disk text_fs)"
  by (rule host_read_refines [OF text_fs]) simp

lemma host_write_refused:
  assumes "host_fs_ok nfs"
    and "\<not> (\<exists>i l. inum = int i \<and> host_abs nfs i = Some (File l) \<and> 0 \<le> off \<and> off \<le> int (length l) \<and> 0 < n \<and> n \<le> 4096)"
  shows "host_ufs_write nfs inum buf off n = Ok (- 1, nfs)"
proof (cases "inum < 0 \<or> num_inodes (fs_s nfs) \<le> inum")
  case True
  then show ?thesis by (auto simp: host_ufs_write_def ufs_write_def)
next
  case False
  then obtain i where inum: "inum = int i" "i < nat (num_inodes (fs_s nfs))"
    by (metis linorder_not_less nonneg_int_cases zless_nat_eq_int_zless)
  have wf: "fs_wf (hf_bytes (fs_disk nfs)) (hf_len (fs_disk nfs)) nfs" using assms(1) by (simp add: host_fs_ok_def)
  then have lay: "layout_ok (fs_s nfs) (hf_len (fs_disk nfs))" and tab: "tables_ok nfs" by (simp_all add: fs_wf_def)
  have i32: "i < bm_cap (inode_bp nfs)"
    using inum(2) layout_counts(1) [OF lay] tab by (simp add: tables_ok_def bm_cap_length)
  show ?thesis
  proof (cases "alloc nfs i \<and> i_type (inodes nfs ! i) = UFS_REGULAR_FILE")
    case True
    let ?l = "file_bytes (hf_bytes (fs_disk nfs)) (inodes nfs ! i)"
    have "host_abs nfs i = Some (File ?l)"
      using True by (simp add: host_abs_def fs_abs_def node_of_def UFS_REGULAR_FILE_def UFS_DIRECTORY_def)
    then have "\<not> (0 \<le> off \<and> off \<le> int (length ?l) \<and> 0 < n \<and> n \<le> 4096)"
      and "i_size (inodes nfs ! i) = int (length ?l)" "get_bitmap (inode_bp nfs) (int i) = Ok 1" "i < length (inodes nfs)"
      using assms inum(1) host_file_facts [OF assms(1)] by blast+
    then show ?thesis
      using False inum(1) by (auto simp: host_ufs_write_def ufs_write_def)
  next
    case no: False
    have "i < length (inodes nfs)" using tab inum(2) by (simp add: tables_ok_def)
    then show ?thesis
      using False no inum i32 by (auto simp: host_ufs_write_def ufs_write_def get_bitmap_eq alloc_def)
  qed
qed

text \<open>
  C17: \<open>ufs_write\<close> refuses everything but a write of 1 to 4096 bytes to an existing file at an
  offset inside it or at its end: it returns -1 and changes nothing.
\<close>

theorem host_write_rejects:
  assumes "host_fs_ok nfs"
    and "\<not> (\<exists>i l. inum = int i \<and> host_abs nfs i = Some (File l) \<and> 0 \<le> off \<and> off \<le> int (length l) \<and> 0 < n \<and> n \<le> 4096)"
  shows "host_ufs_write nfs inum buf off n = Ok (- 1, nfs)"
  by (rule host_write_refused [OF assms])

lemma host_write_rejects_witness: "host_ufs_write text_fs (int 1) [1] (int 9) 1 = Ok (- 1, text_fs)"
  by (rule host_write_rejects [OF text_fs(1)]) (use text_fs(2) in auto)

text \<open>
  C18: a write inside a file makes it longer. Overwriting \<open>n\<close> bytes of a block returns 0 and adds
  \<open>n\<close> to the size, while the file's blocks stay the same.
\<close>

theorem host_overwrite_grows:
  assumes "host_fs_ok nfs" and "host_abs nfs i = Some (File l)" and "0 < n" and "n \<le> length buf"
    and "off mod 4096 + n \<le> 4096" and "off + n \<le> length l"
  shows "\<exists>nfs'. host_ufs_write nfs (int i) buf (int off) (int n) = Ok (0, nfs') \<and>
     i_size (inodes nfs ! i) = int (length l) \<and> i_size (inodes nfs' ! i) = int (length l + n) \<and>
     i_direct (inodes nfs' ! i) = i_direct (inodes nfs ! i)"
proof -
  note f = host_file_facts [OF assms(1,2)]
  obtain nfs' where "ufs_write host_driver nfs (int i) buf (int off) (int n) = Ok (0, nfs')"
    "inodes nfs' = (inodes nfs)[i := (inodes nfs ! i)\<lparr>i_size := int (length l + n)\<rparr>]"
    using host.ufs_write_inside [unfolded host_fs_simps, OF assms(1,2,3,4)] assms(5,6) by auto
  then show ?thesis
    using f by (auto simp: host_ufs_write_def)
qed

lemma host_overwrite_grows_witness:
  "\<exists>nfs'. host_ufs_write text_fs (int 1) [72] (int 0) (int 1) = Ok (0, nfs') \<and>
     i_size (inodes text_fs ! 1) = int (length [104, 105, 33 :: byte]) \<and>
     i_size (inodes nfs' ! 1) = int (length [104, 105, 33 :: byte] + 1) \<and>
     i_direct (inodes nfs' ! 1) = i_direct (inodes text_fs ! 1)"
  by (rule host_overwrite_grows [OF text_fs]) simp_all

end
