(* ===== verification/Kernel.thy ===== *)
theory Kernel
  imports KernelFs HostRun
begin

text \<open>
  The boot: \<open>get_initrd_driver\<close> and \<open>kernel_main\<close>. On a machine whose boot module is the image that
  the host tools make, the kernel mounts it, prints its contents and enters the idle loop.
\<close>

section \<open>The boot loader's data (multiboot.h)\<close>

record multiboot_header =
  mb_flags :: u32
  mem_lower :: u32
  mem_upper :: u32
  boot_device :: u32
  cmdline :: u32
  mods_count :: u32
  mods_addr :: u32
  mb_num :: u32
  mb_size :: u32
  mb_addr :: u32
  mb_shndx :: u32
  mmap_length :: u32
  mmap_addr :: u32
  drives_length :: u32
  drives_addr :: u32
  config_table :: u32
  boot_loader_name :: u32
  apm_table :: u32
  vbe_control_info :: u32
  vbe_mode_info :: u32
  vbe_mode :: u32
  vbe_interface_seg :: u32
  vbe_interface_off :: u32
  vbe_interface_len :: u32

definition ram32 :: "(nat \<Rightarrow> byte) \<Rightarrow> u32 \<Rightarrow> u32" where
  "ram32 m a = un_le32 (rd m (unat a) 4)"

section \<open>The initrd driver and the file system on the kernel's heap\<close>

text \<open>\<open>inst\<close> is the static \<open>initrd_instance\<close>; the returned table is \<open>initrd_driver\<close>.\<close>

definition get_initrd_driver :: "multiboot_header \<Rightarrow> initrd \<Rightarrow> kernel \<Rightarrow> (initrd \<times> kernel) res option" where
  "get_initrd_driver mb inst k =
     bindo (kernel_malloc 24 k) (\<lambda>(p, k).
     Some (Ok (inst\<lparr>start_addr := ram32 (k_ram k) (mods_addr mb), end_addr := ram32 (k_ram k) (mods_addr mb + 4),
       ram := k_ram k\<rparr>, k)))"

text \<open>
  \<open>ufs_init\<close> with its allocations: the struct, the two bitmaps and their dirty bitmaps, and the inode
  table. The allocations after the first are taken together; they do not depend on the disk reads
  between them.
\<close>

primrec kernel_mallocs :: "u32 list \<Rightarrow> kernel \<Rightarrow> kernel res option" where
  "kernel_mallocs [] k = Some (Ok k)"
| "kernel_mallocs (sz # szs) k = bindo (kernel_malloc sz k) (\<lambda>(p, k). kernel_mallocs szs k)"

definition kernel_ufs_init ::
    "(nat \<Rightarrow> u32) \<Rightarrow> (nat \<Rightarrow> u32) \<Rightarrow> initrd \<Rightarrow> kernel \<Rightarrow> (initrd ufs \<times> kernel) res option" where
  "kernel_ufs_init junk1 junk2 d k =
     bindo (kernel_malloc 72 k) (\<lambda>(p, k).
     bindo (Some (ufs_init kernel_platform initrd_driver junk1 junk2 d)) (\<lambda>fs.
     bindo (kernel_mallocs [of_int (inode_bp_sz fs * 4), of_int (data_bp_sz fs * 4), of_int (inode_bp_sz fs * 4),
       of_int (data_bp_sz fs * 4), of_int (128 * num_inodes (fs_s fs))] k) (\<lambda>k.
     Some (Ok (fs, k)))))"

section \<open>kernel_main\<close>

text \<open>
  What the kernel finds: the floating point unit, the devices, the video memory, the entry points
  of interrupt.S, the addresses of the two descriptor tables and of the local \<open>et\<close>, uninitialised
  memory, and the string at \<open>boot_loader_name\<close>.
\<close>

record 'x env =
  e_fpu :: "'x fpu"
  e_dev :: devices
  e_vga :: "u16 list"
  e_stubs :: "u32 list"
  e_gdt :: u32
  e_idt :: u32
  e_et :: u32
  e_junk :: "nat \<Rightarrow> byte"
  e_junk1 :: "nat \<Rightarrow> u32"
  e_junk2 :: "nat \<Rightarrow> u32"
  e_loader :: "byte list"

text \<open>
  \<open>kernel_main\<close> in four parts: terminal and descriptor tables, paging, interrupt controller and
  timer, and the file system.
\<close>

definition boot_tables :: "'x env \<Rightarrow> multiboot_header \<Rightarrow> kernel \<Rightarrow> kernel res" where
  "boot_tables e mb k =
     bindr (pre_init_idt (k_handlers k)) (\<lambda>hs. let k = k\<lparr>k_handlers := hs\<rparr> in
     bindr (terminal_initialize (e_vga e) (k_tty k)) (\<lambda>t. let k = k\<lparr>k_tty := t\<rparr> in
     bindr (kprintf (e_fpu e) (cbytes (''Multiboot info: '' @ [CHR 0x0A] @ ''    Modules cnt: %d'' @ [CHR 0x0A] @
       ''    Booted from: %s'' @ [CHR 0x0A])) [Word32 (mods_count mb), Str (boot_loader_name mb) (e_loader e)] k) (\<lambda>k.
     bindr (kprintf (e_fpu e) (cbytes ''IDT, GDT init..'') [] k) (\<lambda>k.
     bindr (init_gdt (e_gdt e) (k_gdt k)) (\<lambda>g. let k = k\<lparr>k_gdt := g\<rparr> in
     bindr (init_idt (e_idt e) (e_stubs e) (k_idt k)) (\<lambda>i. let k = k\<lparr>k_idt := i\<rparr> in
     kprintf (e_fpu e) (cbytes ('' OK'' @ [CHR 0x0A])) [] k))))))"

definition boot_paging :: "'x env \<Rightarrow> multiboot_header \<Rightarrow> kernel \<Rightarrow> kernel res option" where
  "boot_paging e mb k =
     bindo (Some (assert_fn (e_fpu e) (if 0 < mods_count mb then 1 else 0) (k_tty k))) (\<lambda>t. let k = k\<lparr>k_tty := t\<rparr>;
       k = k\<lparr>k_vmm := (k_vmm k)\<lparr>free_addr := ram32 (k_ram k) (mods_addr mb + 4)\<rparr>\<rparr> in
     bindo (Some (kprintf (e_fpu e) (cbytes ''Paging init.. '') [] k)) (\<lambda>k.
     bindo (init_paging (k_handlers k) (k_vmm k)) (\<lambda>(hs, v).
     Some (Ok (k\<lparr>k_handlers := hs, k_vmm := v\<rparr>)))))"

definition boot_irqs :: "'x env \<Rightarrow> kernel \<Rightarrow> kernel res" where
  "boot_irqs e k =
     bindr (kprintf (e_fpu e) (cbytes (''OK'' @ [CHR 0x0A] @ ''PIC remap.. '')) [] k) (\<lambda>k.
     let k = k\<lparr>k_io := PIC_remap (e_dev e) 0x20 0x28 (k_io k)\<rparr>;
         k = k\<lparr>k_io := PIC_disable (k_io k)\<rparr> in
     bindr (init_timer 50 k) (\<lambda>k.
     bindr (IRQ_clear_mask (e_dev e) 0 (k_io k)) (\<lambda>h. Ok (k\<lparr>k_io := h\<rparr>))))"

definition boot_files :: "'x env \<Rightarrow> multiboot_header \<Rightarrow> initrd \<Rightarrow> kernel \<Rightarrow> (initrd ufs \<times> kernel) res option" where
  "boot_files e mb inst k =
     bindo (Some (kprintf (e_fpu e) (cbytes (''OK'' @ [CHR 0x0A] @ ''Initrd init.. '')) [] k)) (\<lambda>k.
     bindo (get_initrd_driver mb inst k) (\<lambda>(d, k).
     bindo (Some (kprintf (e_fpu e) (cbytes (''OK'' @ [CHR 0x0A] @ ''Filesystem init (disk = initrd).. '')) [] k)) (\<lambda>k.
     bindo (kernel_ufs_init (e_junk1 e) (e_junk2 e) d k) (\<lambda>(fs, k).
     bindo (Some (kprintf (e_fpu e) (cbytes (''OK'' @ [CHR 0x0A])) [] k)) (\<lambda>k.
     bindo (print_fs_contents (e_fpu e) initrd_driver (e_et e) (e_junk e) fs 0 k) (\<lambda>(fs, k).
     bindo (Some (kprintf (e_fpu e) (cbytes ([CHR 0x0A] @
       ''After 5 secs, PIT ISR will cause a page fault (to show that PIT, paging works):'' @ [CHR 0x0A])) [] k)) (\<lambda>k.
     Some (Ok (fs, k)))))))))"

text \<open>Up to the last loop, in which the processor waits for interrupts (theory Interrupt).\<close>

definition kernel_main :: "'x env \<Rightarrow> multiboot_header \<Rightarrow> initrd \<Rightarrow> kernel \<Rightarrow> (initrd ufs \<times> kernel) res option" where
  "kernel_main e mb inst k =
     bindo (Some (boot_tables e mb k)) (\<lambda>k.
     bindo (boot_paging e mb k) (\<lambda>k.
     bindo (Some (boot_irqs e k)) (\<lambda>k.
     boot_files e mb inst k)))"

section \<open>Mounting the image\<close>

text \<open>The module in memory is the image of \<open>nfs\<close>, and the blocks in use end before its last byte.\<close>

definition holds_image :: "host_file ufs \<Rightarrow> initrd \<Rightarrow> bool" where
  "holds_image nfs d \<longleftrightarrow> unat (end_addr d) = unat (start_addr d) + hf_len (fs_disk nfs) \<and>
     (\<forall>i < hf_len (fs_disk nfs). ram d (unat (start_addr d) + i) = hf_bytes (fs_disk nfs) i) \<and>
     cursor d = 0 \<and> DR (fs_s nfs) * 4096 < hf_len (fs_disk nfs) \<and>
     (\<forall>p. data_ptr (fs_s nfs) (data_bp nfs) p \<longrightarrow> (unat p + 1) * 4096 < hf_len (fs_disk nfs))"

lemma image_mounts:
  assumes "host_committed nfs" and "holds_image nfs d"
  shows "\<exists>fs. ufs_init kernel_platform initrd_driver junk1 junk2 d = Ok fs \<and>
    initrd.boot_wf (hf_len (fs_disk nfs)) fs \<and> initrd.boot_abs fs = host_abs nfs"
proof -
  let ?L = "hf_len (fs_disk nfs)"
  have wf: "fs_wf (hf_bytes (fs_disk nfs)) ?L nfs" "synced (hf_bytes (fs_disk nfs)) nfs" "?L < 2 ^ 31"
    using assms(1) by (simp_all add: host_committed_def host_fs_ok_def host_ok_def)
  have im: "unat (end_addr d) = unat (start_addr d) + ?L" "cursor d = 0" "DR (fs_s nfs) * 4096 < ?L"
    "\<And>i. i < ?L \<Longrightarrow> ram d (unat (start_addr d) + i) = hf_bytes (fs_disk nfs) i"
    "\<And>p. data_ptr (fs_s nfs) (data_bp nfs) p \<Longrightarrow> (unat p + 1) * 4096 < ?L"
    using assms(2) by (auto simp: holds_image_def)
  have lim: "initrd_lim d = ?L - 1" using im(1) by (simp add: initrd_lim_def)
  have ok: "initrd_ok d" "initrd_pos d = 0"
    using im(1-3) by (auto simp: initrd_ok_def initrd_pos_def word_less_nat_alt)
  have "blk_ok (initrd_lim d) p" if "data_ptr (fs_s nfs) (data_bp nfs) p" for p
    using im(5) [OF that] wf(3) unfolding lim blk_ok_def by simp
  moreover have "DR (fs_s nfs) * UFS_BLOCK_SIZE \<le> initrd_lim d"
    using im(3) unfolding lim by simp
  ultimately show ?thesis
    using initrd.boot_mount [OF wf(1,2) ok, of kernel_platform junk1 junk2] im(4)
    by (auto simp: initrd_bytes_def kernel_platform_def host_abs_def)
qed

section \<open>The parts of the boot\<close>

text \<open>The tables, the video memory and the strings that the kernel is linked and started with.\<close>

definition env_ok :: "'x env \<Rightarrow> multiboot_header \<Rightarrow> kernel \<Rightarrow> bool" where
  "env_ok e mb k \<longleftrightarrow> length (k_handlers k) = 256 \<and> length (gdt_entries (k_gdt k)) = 5 \<and> length (idt (k_idt k)) = 256 \<and>
     length (e_stubs e) = 256 \<and> length (e_vga e) = 2000 \<and> terminated (e_loader e) \<and> length (e_loader e) < 2 ^ 30 \<and>
     0 < mods_count mb \<and> unat (mods_count mb) < 2 ^ 31"

definition banner :: "'x env \<Rightarrow> multiboot_header \<Rightarrow> byte list" where
  "banner e mb = map of_char (''Multiboot info: '' @ [CHR 0x0A] @ ''    Modules cnt: '') @ num_text (uint (mods_count mb)) @
     map of_char ([CHR 0x0A] @ ''    Booted from: '') @ cstr (e_loader e) @ [10]"

lemma banner_prints:
  assumes "env_ok e mb k" and "term_ok (k_tty k')"
  shows "\<exists>k''. kprintf (e_fpu e) (cbytes (''Multiboot info: '' @ [CHR 0x0A] @ ''    Modules cnt: %d'' @ [CHR 0x0A] @
       ''    Booted from: %s'' @ [CHR 0x0A])) [Word32 (mods_count mb), Str (boot_loader_name mb) (e_loader e)] k' = Ok k'' \<and>
    prints (banner e mb) k' k''"
proof -
  let ?ps = "[Lit (map of_char (''Multiboot info: '' @ [CHR 0x0A] @ ''    Modules cnt: '')), Conv_d (mods_count mb),
    Lit (map of_char ([CHR 0x0A] @ ''    Booted from: '')), Conv_s (boot_loader_name mb) (e_loader e), Lit [10]]"
  have "unat (mods_count mb) < 2147483648" using assms(1) by (simp add: env_ok_def)
  then have "int (unat (mods_count mb)) < 2147483648" by linarith
  then have "uint (mods_count mb) < 2 ^ 31" by simp
  then have "piece_ok (Conv_d (mods_count mb))"
    using number_ok [of "uint (mods_count mb)"] by simp
  then have "\<forall>p \<in> set ?ps. piece_ok p" using assms(1) by (simp add: env_ok_def)
  moreover have "length (cstr (e_loader e)) \<le> length (e_loader e)" by (simp add: cstr_def length_takeWhile_le)
  then have "length (concat (map text_of ?ps)) < 2 ^ 31"
    using length_num_text [of "uint (mods_count mb)"] assms(1) by (simp add: num_text_def env_ok_def)
  ultimately show ?thesis
    using kprintf_pieces [OF assms(2), of ?ps _ "[Word32 (mods_count mb), Str (boot_loader_name mb) (e_loader e)]" "e_fpu e"]
    by (simp add: cbytes_def banner_def num_text_def)
qed

lemma say:
  assumes "shown s t (k_tty k)" and "length m < 2 ^ 31" and "0 \<notin> set (map (of_char :: char \<Rightarrow> byte) m)"
    and "37 \<notin> set (map (of_char :: char \<Rightarrow> byte) m)"
  shows "\<exists>k'. kprintf fpu (cbytes m) [] k = Ok k' \<and> shown (s @ map of_char m) t (k_tty k') \<and> k' = k\<lparr>k_tty := k_tty k'\<rparr>"
  using kprintf_message [OF shown_ok [OF assms(1)] assms(2-4), of fpu] shown_append [OF assms(1)]
  by (auto simp: prints_def)

lemma boot_tables_ok:
  assumes "env_ok e mb k"
  shows "\<exists>k'. boot_tables e mb k = Ok k' \<and> shown (banner e mb @ map of_char (''IDT, GDT init.. OK'' @ [CHR 0x0A])) blank_tty (k_tty k') \<and>
    k_handlers k' = replicate 256 None \<and> seg_last (gdt_entries (k_gdt k') ! 2) = 2 ^ 28 - 1 \<and> if_flag (k_idt k') \<and>
    k_tick k' = k_tick k \<and> k_ram k' = k_ram k"
proof -
  let ?k1 = "k\<lparr>k_handlers := replicate 256 None, k_tty := blank_tty\<rparr>"
  obtain k2 where k2: "kprintf (e_fpu e) (cbytes (''Multiboot info: '' @ [CHR 0x0A] @ ''    Modules cnt: %d'' @ [CHR 0x0A] @
       ''    Booted from: %s'' @ [CHR 0x0A])) [Word32 (mods_count mb), Str (boot_loader_name mb) (e_loader e)] ?k1 = Ok k2"
    "prints (banner e mb) ?k1 k2"
    using banner_prints [OF assms, of ?k1] blank_tty_ok by auto
  note s2 = prints_same [OF k2(2)]
  have "shown (banner e mb) blank_tty (k_tty k2)" using k2(2) by (simp add: prints_def)
  then obtain k3 where k3: "kprintf (e_fpu e) (cbytes ''IDT, GDT init..'') [] k2 = Ok k3"
    "shown (banner e mb @ map of_char ''IDT, GDT init..'') blank_tty (k_tty k3)" "k3 = k2\<lparr>k_tty := k_tty k3\<rparr>"
    using say [of "banner e mb" blank_tty k2 "''IDT, GDT init..''" "e_fpu e"] by auto
  have s3: "k_handlers k3 = replicate 256 None" "k_gdt k3 = k_gdt k" "k_idt k3 = k_idt k" "k_tick k3 = k_tick k" "k_ram k3 = k_ram k"
    by (subst k3(3), simp add: s2)+
  obtain g where g: "init_gdt (e_gdt e) (k_gdt k3) = Ok g" "map seg_last (gdt_entries g) = [0, 2 ^ 28 - 1, 2 ^ 28 - 1, 2 ^ 32 - 1, 2 ^ 32 - 1]"
    using init_gdt_table [of "k_gdt k3" "e_gdt e"] assms by (auto simp: s3 env_ok_def)
  obtain i where i: "init_idt (e_idt e) (e_stubs e) (k_idt k3) = Ok i" "if_flag i"
    using init_idt_eq [of "k_idt k3" "e_stubs e" "e_idt e"] assms by (auto simp: s3 env_ok_def)
  let ?k4 = "k3\<lparr>k_gdt := g, k_idt := i\<rparr>"
  obtain k5 where k5: "kprintf (e_fpu e) (cbytes ('' OK'' @ [CHR 0x0A])) [] ?k4 = Ok k5"
    "shown ((banner e mb @ map of_char ''IDT, GDT init..'') @ map of_char ('' OK'' @ [CHR 0x0A])) blank_tty (k_tty k5)" "k5 = ?k4\<lparr>k_tty := k_tty k5\<rparr>"
    using say [of "banner e mb @ map of_char ''IDT, GDT init..''" blank_tty ?k4 "'' OK'' @ [CHR 0x0A]" "e_fpu e"] k3(2) by auto
  have s5: "k_handlers k5 = replicate 256 None" "k_gdt k5 = g" "k_idt k5 = i" "k_tick k5 = k_tick k" "k_ram k5 = k_ram k"
    by (subst k5(3), simp add: s3)+
  have "boot_tables e mb k = Ok k5"
    using assms k2(1) k3(1) g(1) i(1) k5(1)
    by (simp add: boot_tables_def env_ok_def pre_init_idt_eq blank_tty_init s3 Let_def)
  moreover have "length (gdt_entries g) = 5" using arg_cong [OF g(2), of length] by simp
  then have "seg_last (gdt_entries g ! 2) = map seg_last (gdt_entries g) ! 2" by (simp only: nth_map)
  ultimately show ?thesis
    using s5 k5(2) g(2) i(2) by auto
qed

lemma boot_paging_ok:
  assumes "shown s t (k_tty k)" and "0 < mods_count mb" and "length (k_handlers k) = 256"
    and "ram32 (k_ram k) (mods_addr mb + 4) = en" and "kernel_end (unat en) \<le> 2 ^ 22"
  shows "\<exists>k' n. boot_paging e mb k = Some (Ok k') \<and> shown (s @ map of_char ''Paging init.. '') t (k_tty k') \<and>
    k' = k\<lparr>k_tty := k_tty k', k_handlers := (k_handlers k)[14 := Some Page_fault], k_vmm := k_vmm k'\<rparr> \<and>
    heap_pages n k' \<and> n * 4096 = kernel_end (unat en) \<and> paging_on (k_vmm k')"
proof -
  let ?k1 = "k\<lparr>k_vmm := (k_vmm k)\<lparr>free_addr := en\<rparr>\<rparr>"
  obtain k2 where k2: "kprintf (e_fpu e) (cbytes ''Paging init.. '') [] ?k1 = Ok k2"
    "shown (s @ map of_char ''Paging init.. '') t (k_tty k2)" "k2 = ?k1\<lparr>k_tty := k_tty k2\<rparr>"
    using say [of s t ?k1 "''Paging init.. ''" "e_fpu e"] assms(1) by auto
  have s2: "k_handlers k2 = k_handlers k" "k_vmm k2 = (k_vmm k)\<lparr>free_addr := en\<rparr>"
    by (subst k2(3), simp)+
  obtain v u n where v: "init_paging (k_handlers k) ((k_vmm k)\<lparr>free_addr := en\<rparr>) = Some (Ok ((k_handlers k)[14 := Some Page_fault], v))"
    "heap_ok u n v" "n * 4096 = kernel_end (unat en)" "paging_on v"
    using init_paging_heap [OF assms(3), of "(k_vmm k)\<lparr>free_addr := en\<rparr>"] assms(5) by auto
  let ?k' = "k2\<lparr>k_handlers := (k_handlers k)[14 := Some Page_fault], k_vmm := v\<rparr>"
  have "boot_paging e mb k = Some (Ok ?k')"
    using assms(2,4) k2(1) v(1) by (simp add: boot_paging_def assert_fn_def s2 Let_def)
  moreover have "?k' = k\<lparr>k_tty := k_tty ?k', k_handlers := (k_handlers k)[14 := Some Page_fault], k_vmm := k_vmm ?k'\<rparr>"
    by (subst k2(3)) simp
  moreover have "shown (s @ map of_char ''Paging init.. '') t (k_tty ?k')" "heap_pages n ?k'" "paging_on (k_vmm ?k')"
    using k2(2) v by (auto simp: heap_pages_def)
  ultimately show ?thesis using v(3) by (intro exI [of _ ?k'] exI [of _ n] conjI)
qed

lemma boot_irqs_ok:
  assumes "shown s t (k_tty k)" and "length (k_handlers k) = 256"
  shows "\<exists>k'. boot_irqs e k = Ok k' \<and> shown (s @ map of_char (''OK'' @ [CHR 0x0A] @ ''PIC remap.. '')) t (k_tty k') \<and>
    k' = k\<lparr>k_tty := k_tty k', k_handlers := (k_handlers k)[32 := Some Timer_callback], k_io := k_io k'\<rparr>"
proof -
  let ?m = "''OK'' @ [CHR 0x0A] @ ''PIC remap.. ''"
  obtain k1 where k1: "kprintf (e_fpu e) (cbytes ?m) [] k = Ok k1"
    "shown (s @ map of_char ?m) t (k_tty k1)" "k1 = k\<lparr>k_tty := k_tty k1\<rparr>"
    using say [of s t k ?m "e_fpu e"] assms(1) by auto
  let ?k2 = "k1\<lparr>k_io := PIC_disable (PIC_remap (e_dev e) 0x20 0x28 (k_io k1))\<rparr>"
  have s1: "k_handlers k1 = k_handlers k" by (subst k1(3)) simp
  obtain h where h: "init_timer 50 ?k2 = Ok (?k2\<lparr>k_handlers := (k_handlers k)[32 := Some Timer_callback], k_io := h\<rparr>)"
    using assms(2) by (simp add: init_timer_def register_int_handler_def arr_set_def s1 Let_def)
  obtain h' where h': "IRQ_clear_mask (e_dev e) 0 h = Ok h'"
    by (simp add: IRQ_clear_mask_def irq_port_def shl1_def inb_def Let_def)
  let ?k' = "?k2\<lparr>k_handlers := (k_handlers k)[32 := Some Timer_callback], k_io := h'\<rparr>"
  have "boot_irqs e k = Ok ?k'"
    using k1(1) h h' by (simp add: boot_irqs_def Let_def)
  moreover have "?k' = k\<lparr>k_tty := k_tty ?k', k_handlers := (k_handlers k)[32 := Some Timer_callback], k_io := k_io ?k'\<rparr>"
    by (subst k1(3)) simp
  ultimately show ?thesis using k1(2) by (intro exI [of _ ?k'] conjI) simp_all
qed

lemma kernel_mallocs_ok:
  assumes "heap_pages n k" and "n + length szs \<le> 1024" and "term_ok (k_tty k)" and "\<forall>sz \<in> set szs. 0 < sz \<and> sz \<le> 4096"
  shows "\<exists>k'. kernel_mallocs (map of_nat szs) k = Some (Ok k') \<and> outputs [] (length szs) k k'"
  using assms
proof (induction szs arbitrary: n k)
  case Nil
  then show ?case by (simp add: outputs_def shown_Nil)
next
  case (Cons sz szs)
  obtain p k1 where k1: "kernel_malloc (of_nat sz) k = Some (Ok (p, k1))" "outputs [] 1 k k1"
    using kernel_malloc_page [of n k sz] Cons.prems by auto
  obtain k2 where k2: "kernel_mallocs (map of_nat szs) k1 = Some (Ok k2)" "outputs [] (length szs) k1 k2"
    using Cons.IH [of "n + 1" k1] outputs_heap [OF k1(2) Cons.prems(1)] outputs_ok [OF k1(2)] Cons.prems by auto
  then show ?case
    using k1(1) outputs_append [OF k1(2) k2(2)] by simp
qed

lemma kernel_ufs_init_ok:
  assumes "ufs_init kernel_platform initrd_driver junk1 junk2 d = Ok fs" and "initrd.boot_wf L fs"
    and "heap_pages n k" and "n + 6 \<le> 1024" and "term_ok (k_tty k)"
  shows "\<exists>k'. kernel_ufs_init junk1 junk2 d k = Some (Ok (fs, k')) \<and> outputs [] 6 k k'"
proof -
  have lay: "layout_ok (fs_s fs) L" using assms(2) by (simp add: initrd.boot_wf_def fs_wf_def)
  have "inode_bp_sz fs = 1" "data_bp_sz fs = 1"
    using ufs_init_sizes [OF assms(1)] lay by (auto simp: layout_ok_def get_bitmap_sz_def int32_def is_int32_def)
  moreover obtain m where m: "num_inodes (fs_s fs) = int m" "0 < m" "m \<le> 32"
    using lay unfolding layout_ok_def by (metis of_nat_0_less_iff of_nat_le_iff of_nat_numeral zero_less_imp_eq_int)
  moreover obtain p k1 where k1: "kernel_malloc 72 k = Some (Ok (p, k1))" "outputs [] 1 k k1"
    using kernel_malloc_page [OF assms(3) _ _ _ assms(5), of 72] assms(4) by auto
  let ?szs = "[4, 4, 4, 4, 128 * m]"
  have "\<exists>k'. kernel_mallocs (map of_nat ?szs) k1 = Some (Ok k') \<and> outputs [] (length ?szs) k1 k'"
    using assms(4) m(2,3) by (intro kernel_mallocs_ok [OF outputs_heap [OF k1(2) assms(3)] _ outputs_ok [OF k1(2)]]) auto
  then obtain k2 where k2: "kernel_mallocs (map of_nat ?szs) k1 = Some (Ok k2)" "outputs [] (length ?szs) k1 k2"
    by blast
  ultimately have "kernel_ufs_init junk1 junk2 d k = Some (Ok (fs, k2))"
    using assms(1) k1(1) by (simp add: kernel_ufs_init_def)
  moreover have "1 + length ?szs = 6" by simp
  ultimately show ?thesis using outputs_append [OF k1(2) k2(2)] by (metis append_Nil)
qed

text \<open>From the driver to the last message, on a module that holds an image with a text.\<close>

definition initrd_of :: "multiboot_header \<Rightarrow> initrd \<Rightarrow> kernel \<Rightarrow> initrd" where
  "initrd_of mb inst k = inst\<lparr>start_addr := ram32 (k_ram k) (mods_addr mb), end_addr := ram32 (k_ram k) (mods_addr mb + 4),
     ram := k_ram k\<rparr>"

definition files_text :: "byte list \<Rightarrow> byte list" where
  "files_text out = map of_char (''OK'' @ [CHR 0x0A] @ ''Initrd init.. OK'' @ [CHR 0x0A] @ ''Filesystem init (disk = initrd).. OK'' @ [CHR 0x0A]) @
     out @ map of_char ([CHR 0x0A] @ ''After 5 secs, PIT ISR will cause a page fault (to show that PIT, paging works):'' @ [CHR 0x0A])"

lemma boot_files_ok:
  assumes "host_committed nfs" and "holds_image nfs (initrd_of mb inst k)" and "dir_text depth (host_abs nfs) 0 = Some (out, f)"
    and "shown s t (k_tty k)" and "heap_pages n k" and "n + 7 + f \<le> 1024"
  shows "\<exists>fs k'. boot_files e mb inst k = Some (Ok (fs, k')) \<and> initrd.boot_abs fs = host_abs nfs \<and>
    shown (s @ files_text out) t (k_tty k') \<and> k' = k\<lparr>k_tty := k_tty k', k_vmm := k_vmm k'\<rparr>"
proof -
  let ?m1 = "''OK'' @ [CHR 0x0A] @ ''Initrd init.. ''" and ?m2 = "''OK'' @ [CHR 0x0A] @ ''Filesystem init (disk = initrd).. ''"
  let ?m3 = "''OK'' @ [CHR 0x0A]"
  let ?m4 = "[CHR 0x0A] @ ''After 5 secs, PIT ISR will cause a page fault (to show that PIT, paging works):'' @ [CHR 0x0A]"
  obtain k1 where k1: "kprintf (e_fpu e) (cbytes ?m1) [] k = Ok k1" "prints (map of_char ?m1) k k1"
    using kprintf_message [OF shown_ok [OF assms(4)], of ?m1 "e_fpu e"] by auto
  have "heap_pages n k1" "n < 1024" using assms(5,6) prints_same [OF k1(2)] by (simp_all add: heap_pages_def)
  then obtain p k2 where k2: "kernel_malloc 24 k1 = Some (Ok (p, k2))" "outputs [] 1 k1 k2"
    using kernel_malloc_page [OF _ _ _ _ prints_ok [OF k1(2)], of n 24] by auto
  have "k_ram k2 = k_ram k" using k2(2) prints_same [OF k1(2)] unfolding outputs_def by (metis kernel.select_convs(8) kernel.surjective kernel.update_convs(1) kernel.update_convs(5))
  then have g: "get_initrd_driver mb inst k1 = Some (Ok (initrd_of mb inst k, k2))"
    using k2(1) by (simp add: get_initrd_driver_def initrd_of_def)
  obtain k3 where k3: "kprintf (e_fpu e) (cbytes ?m2) [] k2 = Ok k3" "prints (map of_char ?m2) k2 k3"
    using kprintf_message [OF outputs_ok [OF k2(2)], of ?m2 "e_fpu e"] by auto
  note o3 = outputs_append [OF outputs_prints [OF k1(2)] outputs_append [OF k2(2) outputs_prints [OF k3(2)]]]
  have h3: "heap_pages (n + 1) k3" using outputs_heap [OF o3 assms(5)] by simp
  obtain fs1 where fs1: "ufs_init kernel_platform initrd_driver (e_junk1 e) (e_junk2 e) (initrd_of mb inst k) = Ok fs1"
    "initrd.boot_wf (hf_len (fs_disk nfs)) fs1" "initrd.boot_abs fs1 = host_abs nfs"
    using image_mounts [OF assms(1,2)] by blast
  obtain k4 where k4: "kernel_ufs_init (e_junk1 e) (e_junk2 e) (initrd_of mb inst k) k3 = Some (Ok (fs1, k4))" "outputs [] 6 k3 k4"
    using kernel_ufs_init_ok [OF fs1(1,2) h3 _ prints_ok [OF k3(2)]] assms(6) by auto
  obtain k5 where k5: "kprintf (e_fpu e) (cbytes ?m3) [] k4 = Ok k5" "prints (map of_char ?m3) k4 k5"
    using kprintf_message [OF outputs_ok [OF k4(2)], of ?m3 "e_fpu e"] by auto
  note o5 = outputs_append [OF k4(2) outputs_prints [OF k5(2)]]
  have "heap_pages (n + 7) k5" using outputs_heap [OF o5 h3] by (simp add: add.commute)
  then obtain fs2 k6 where k6: "print_fs_contents (e_fpu e) initrd_driver (e_et e) (e_junk e) fs1 0 k5 = Some (Ok (fs2, k6))"
    "initrd.boot_read (hf_len (fs_disk nfs)) fs1 fs2" "outputs out f k5 k6"
    using initrd.print_fs_contents_ok [OF assms(3) fs1(2,3) prints_ok [OF k5(2)], of "n + 7" "e_fpu e" "e_et e" "e_junk e"] assms(6) by auto
  obtain k7 where k7: "kprintf (e_fpu e) (cbytes ?m4) [] k6 = Ok k7" "prints (map of_char ?m4) k6 k7"
    using kprintf_message [OF outputs_ok [OF k6(3)], of ?m4 "e_fpu e"] by auto
  have "boot_files e mb inst k = Some (Ok (fs2, k7))"
    using k1(1) g k3(1) k4(1) k5(1) k6(1) k7(1) by (simp add: boot_files_def)
  moreover have "outputs (files_text out) (7 + f) k k7"
    using outputs_append [OF outputs_append [OF o3 o5] outputs_append [OF k6(3) outputs_prints [OF k7(2)]]]
    by (simp add: files_text_def numeral_eq_Suc)
  ultimately show ?thesis
    using k6(2) fs1(3) assms(4) by (auto simp: initrd.boot_read_def outputs_def intro: shown_append)
qed

text \<open>The text of a whole boot.\<close>

definition boot_text :: "'x env \<Rightarrow> multiboot_header \<Rightarrow> byte list \<Rightarrow> byte list" where
  "boot_text e mb out = banner e mb @ map of_char (''IDT, GDT init.. OK'' @ [CHR 0x0A] @ ''Paging init.. OK'' @ [CHR 0x0A] @ ''PIC remap.. '') @
     files_text out"

lemma kernel_main_ok:
  assumes "env_ok e mb k" and "host_committed nfs" and "holds_image nfs (initrd_of mb inst k)"
    and "dir_text depth (host_abs nfs) 0 = Some (out, f)"
    and "kernel_end (unat (end_addr (initrd_of mb inst k))) + (7 + f) * 4096 \<le> 2 ^ 22"
  shows "\<exists>fs k'. kernel_main e mb inst k = Some (Ok (fs, k')) \<and> initrd.boot_abs fs = host_abs nfs \<and>
    shown (boot_text e mb out) blank_tty (k_tty k') \<and> timer_ready k' \<and> k_tick k' = k_tick k"
proof -
  let ?s1 = "banner e mb @ map of_char (''IDT, GDT init.. OK'' @ [CHR 0x0A])"
  let ?s2 = "?s1 @ map of_char ''Paging init.. ''"
  let ?s3 = "?s2 @ map of_char (''OK'' @ [CHR 0x0A] @ ''PIC remap.. '')"
  obtain k1 where k1: "boot_tables e mb k = Ok k1" "shown ?s1 blank_tty (k_tty k1)" "k_handlers k1 = replicate 256 None"
    "seg_last (gdt_entries (k_gdt k1) ! 2) = 2 ^ 28 - 1" "if_flag (k_idt k1)" "k_tick k1 = k_tick k" "k_ram k1 = k_ram k"
    using boot_tables_ok [OF assms(1)] by blast
  obtain k2 n where k2: "boot_paging e mb k1 = Some (Ok k2)" "shown ?s2 blank_tty (k_tty k2)"
    "k2 = k1\<lparr>k_tty := k_tty k2, k_handlers := (k_handlers k1)[14 := Some Page_fault], k_vmm := k_vmm k2\<rparr>"
    "heap_pages n k2" "n * 4096 = kernel_end (unat (end_addr (initrd_of mb inst k)))"
    using boot_paging_ok [OF k1(2), of mb "end_addr (initrd_of mb inst k)" e] k1(3,7) assms(1,5)
    by (auto simp: env_ok_def initrd_of_def)
  have s2: "k_handlers k2 = (replicate 256 None)[14 := Some Page_fault]" "k_gdt k2 = k_gdt k1" "k_idt k2 = k_idt k1"
    "k_tick k2 = k_tick k" "k_ram k2 = k_ram k"
    by (subst k2(3), simp add: k1)+
  obtain k3 where k3: "boot_irqs e k2 = Ok k3" "shown ?s3 blank_tty (k_tty k3)"
    "k3 = k2\<lparr>k_tty := k_tty k3, k_handlers := (k_handlers k2)[32 := Some Timer_callback], k_io := k_io k3\<rparr>"
    using boot_irqs_ok [OF k2(2), of e] s2(1) by auto
  have s3: "k_handlers k3 = (replicate 256 None)[14 := Some Page_fault, 32 := Some Timer_callback]" "k_gdt k3 = k_gdt k1"
    "k_idt k3 = k_idt k1" "k_tick k3 = k_tick k" "k_ram k3 = k_ram k" "k_vmm k3 = k_vmm k2"
    by (subst k3(3), simp add: s2)+
  have "heap_pages n k3" using k2(4) by (simp add: heap_pages_def s3)
  moreover have "n + 7 + f \<le> 1024" using k2(5) assms(5) by simp
  moreover have "initrd_of mb inst k3 = initrd_of mb inst k" by (simp add: initrd_of_def s3)
  ultimately obtain fs k4 where k4: "boot_files e mb inst k3 = Some (Ok (fs, k4))" "initrd.boot_abs fs = host_abs nfs"
    "shown (?s3 @ files_text out) blank_tty (k_tty k4)" "k4 = k3\<lparr>k_tty := k_tty k4, k_vmm := k_vmm k4\<rparr>"
    using boot_files_ok [OF assms(2) _ assms(4) k3(2), of mb inst n e] assms(3) by auto
  have s4: "k_handlers k4 = (replicate 256 None)[14 := Some Page_fault, 32 := Some Timer_callback]" "k_gdt k4 = k_gdt k1"
    "k_idt k4 = k_idt k1" "k_tick k4 = k_tick k"
    by (subst k4(4), simp add: s3)+
  have "kernel_main e mb inst k = Some (Ok (fs, k4))"
    using k1(1) k2(1) k3(1) k4(1) by (simp add: kernel_main_def)
  moreover have "shown (boot_text e mb out) blank_tty (k_tty k4)"
    using k4(3) by (simp add: boot_text_def)
  moreover have "timer_ready k4"
    using shown_ok [OF k4(3)] by (simp add: timer_ready_def s4 k1(4,5))
  ultimately show ?thesis using k4(2) s4(4) by blast
qed

section \<open>The image of the host tools\<close>

lemma num_texts: "num_text 0 = map of_char ''0''" "num_text 1 = map of_char ''1''" "num_text 2 = map of_char ''2''" "num_text 3 = map of_char ''3''"
  by (simp_all add: num_text_def raw_text_def sign_text_def digits.simps table_def table_text_def radix_def)

text \<open>The listing of the file system that \<open>main\<close> of fs/ufs.c leaves.\<close>

definition nl :: string where "nl = [CHR 0x0A]"

definition initrd_listing :: string where
  "initrd_listing =
     nl @ ''contents of directory (inode no. 0) [fmt: (inode no., name)]: '' @ nl @
     ''    (0, .),  (0, ..),  (1, dir),  (2, file1.txt),  '' @ nl @
     nl @ ''contents of directory (inode no. 1) [fmt: (inode no., name)]: '' @ nl @
     ''    (1, .),  (0, ..),  (3, file2.txt),  '' @ nl @
     nl @ ''contents of file (inode no. 3): '' @ nl @
     ''    Example contents of /dir/file2.txt, stored on initrd'' @ nl @
     nl @ ''contents of file (inode no. 2): '' @ nl @
     ''    Example contents of /file1.txt, stored on initrd'' @ nl"

lemma initrd_fs_text: "dir_text 2 initrd_fs 0 = Some (map of_char initrd_listing, 2)"
proof -
  have "dir_text (Suc (Suc 0)) initrd_fs 0 = Some (map of_char initrd_listing, 2)"
    by (simp add: initrd_fs_def d_name_def dot_def dotdot_def listing_text_def entry_text_def child_text_def file_text_def num_texts
        initrd_listing_def nl_def)
  then show ?thesis by (simp only: numeral_2_eq_2)
qed

lemma main_image_fits:
  assumes "fs_s nfs = default_super" and "hf_len (fs_disk nfs) = 147456" and "free_blocks nfs = [b..<32]" and "b < 32"
    and "unat (end_addr d) = unat (start_addr d) + 147456" and "cursor d = 0"
    and "\<forall>i < 147456. ram d (unat (start_addr d) + i) = hf_bytes (fs_disk nfs) i"
  shows "holds_image nfs d"
proof -
  have "(unat p + 1) * 4096 < 147456" if p: "data_ptr default_super (data_bp nfs) p" for p
  proof -
    obtain j where j: "j < 32" "p = of_nat (4 + j)" "bm_bit (data_bp nfs) j"
      using p by (auto simp: data_ptr_def default_super_def DR_def)
    then have "j \<notin> set (free_blocks nfs)" by (simp add: free_blocks_def)
    then have "j < 31" using j(1) assms(3,4) by auto
    moreover have "unat p = 4 + j" unfolding j(2) using j(1) by (subst unat_of_nat) simp
    ultimately show ?thesis by simp
  qed
  then show ?thesis
    using assms by (simp add: holds_image_def DR_def default_super_def)
qed

section \<open>Properties\<close>

text \<open>
  C5: the initrd driver and the kernel's file system on it mount the image of every committed file
  system of the host tool whose blocks in use end before the last byte of the module: the mounted
  file system is the host's, lookups find the same inodes and the files have the same bytes.
\<close>

theorem kernel_mounts_image:
  assumes "host_committed nfs" and "holds_image nfs d"
    and "host_abs nfs i = Some (Dir l)" and "terminated name" and "host_abs nfs j = Some (File b)" and "x < length b"
  shows "\<exists>fs fs1 fs2. ufs_init kernel_platform initrd_driver junk1 junk2 d = Ok fs \<and> initrd.boot_abs fs = host_abs nfs \<and>
    ufs_lookup kernel_platform initrd_driver fs (int i) name = Ok (case map_of l (cstr name) of Some k \<Rightarrow> k | None \<Rightarrow> - 1, fs1) \<and>
    ufs_read initrd_driver fs (int j) (int x) 1 = Ok (0, [b ! x], fs2)"
proof -
  obtain fs where fs: "ufs_init kernel_platform initrd_driver junk1 junk2 d = Ok fs"
    "initrd.boot_wf (hf_len (fs_disk nfs)) fs" "initrd.boot_abs fs = host_abs nfs"
    using image_mounts [OF assms(1,2)] by blast
  have "initrd.boot_abs fs i = Some (Dir l)" "initrd.boot_abs fs j = Some (File b)" "32 \<le> size_bits kernel_platform"
    using assms(3,5) fs(3) by (simp_all add: kernel_platform_def)
  then show ?thesis
    using initrd.boot_lookup [OF fs(2) _ assms(4)] initrd.boot_read_byte [OF fs(2) _ assms(6)] fs(1,3) by blast
qed

text \<open>A module with a given image at 2 MB, and a list of modules at 64 KB.\<close>

definition module_ram :: "host_file ufs \<Rightarrow> nat \<Rightarrow> byte" where
  "module_ram nfs x = (if 0x200000 \<le> x then hf_bytes (fs_disk nfs) (x - 0x200000) else (le32 0x200000 @ le32 0x224000) ! (x - 0x10000))"

definition no_initrd :: initrd where
  "no_initrd = \<lparr>start_addr = 0, cursor = 0, end_addr = 0, ram = \<lambda>_. 0\<rparr>"

definition module_at :: "host_file ufs \<Rightarrow> initrd" where
  "module_at nfs = \<lparr>start_addr = 0x200000, cursor = 0, end_addr = 0x224000, ram = module_ram nfs\<rparr>"

definition test_mb :: multiboot_header where
  "test_mb = \<lparr>mb_flags = 0x001, mem_lower = 0, mem_upper = 0, boot_device = 0, cmdline = 0, mods_count = 1, mods_addr = 0x10000,
     mb_num = 0, mb_size = 0, mb_addr = 0, mb_shndx = 0, mmap_length = 0, mmap_addr = 0, drives_length = 0, drives_addr = 0,
     config_table = 0, boot_loader_name = 0x9000, apm_table = 0, vbe_control_info = 0, vbe_mode_info = 0, vbe_mode = 0,
     vbe_interface_seg = 0, vbe_interface_off = 0, vbe_interface_len = 0\<rparr>"

definition test_env :: "unit env" where
  "test_env = \<lparr>e_fpu = no_fpu, e_dev = pics, e_vga = replicate 2000 0, e_stubs = replicate 256 0x100000, e_gdt = 0x110000,
     e_idt = 0x110100, e_et = 0x120000, e_junk = \<lambda>_. 7, e_junk1 = \<lambda>_. 7, e_junk2 = \<lambda>_. 7, e_loader = cbytes ''GRUB''\<rparr>"

definition test_kernel :: "host_file ufs \<Rightarrow> kernel" where
  "test_kernel nfs = idle_kernel\<lparr>k_handlers := replicate 256 None, k_idt := (k_idt idle_kernel)\<lparr>idt := replicate 256 zero_idt_entry\<rparr>,
     k_ram := module_ram nfs\<rparr>"

lemma test_machine:
  "env_ok test_env test_mb (test_kernel nfs)" "initrd_of test_mb no_initrd (test_kernel nfs) = module_at nfs"
  "kernel_end (unat (end_addr (module_at nfs))) + (7 + 2) * 4096 \<le> 2 ^ 22" "k_tick (test_kernel nfs) = 0"
proof -
  show "env_ok test_env test_mb (test_kernel nfs)"
    by (simp add: env_ok_def test_env_def test_mb_def test_kernel_def idle_kernel_def cbytes_facts) (simp add: cbytes_def)
  have "rd (module_ram nfs) 65536 4 = le32 0x200000" "rd (module_ram nfs) 65540 4 = le32 0x224000"
    by (simp_all add: rd_def module_ram_def upt_rec le32_def)
  then show "initrd_of test_mb no_initrd (test_kernel nfs) = module_at nfs"
    by (simp add: initrd_of_def test_mb_def no_initrd_def test_kernel_def module_at_def ram32_def)
  show "kernel_end (unat (end_addr (module_at nfs))) + (7 + 2) * 4096 \<le> 2 ^ 22" "k_tick (test_kernel nfs) = 0"
    by (simp_all add: module_at_def kernel_end_def dir_start_def page_up_def test_kernel_def idle_kernel_def)
qed

lemma fresh_module: "holds_image fresh_fs (module_at fresh_fs)"
  by (rule main_image_fits [OF fresh_fs(8,9,7)]) (simp_all add: module_at_def module_ram_def)

text \<open>
  C2: \<open>kernel_main\<close> on a machine whose module holds such an image, and whose modules, page tables and
  heap end at or below 4 MB, reaches its idle loop with the timer's interrupt ready, having printed
  its messages and the text of the file system: the recursion of \<open>print_fs_contents\<close> and all loops
  end.
\<close>

theorem kernel_main_prints:
  assumes "env_ok e mb k" and "host_committed nfs" and "holds_image nfs (initrd_of mb inst k)"
    and "dir_text depth (host_abs nfs) 0 = Some (out, f)"
    and "kernel_end (unat (end_addr (initrd_of mb inst k))) + (7 + f) * 4096 \<le> 2 ^ 22"
  shows "\<exists>fs k'. kernel_main e mb inst k = Some (Ok (fs, k')) \<and> initrd.boot_abs fs = host_abs nfs \<and>
    shown (boot_text e mb out) blank_tty (k_tty k') \<and> timer_ready k' \<and> k_tick k' = k_tick k"
  using kernel_main_ok [OF assms] .

definition root_listing :: string where
  "root_listing = nl @ ''contents of directory (inode no. 0) [fmt: (inode no., name)]: '' @ nl @ ''    (0, .),  (0, ..),  '' @ nl"

lemma fresh_text: "dir_text 1 (host_abs fresh_fs) 0 = Some (map of_char root_listing, 0)"
proof -
  have "dir_text (Suc 0) (host_abs fresh_fs) 0 = Some (map of_char root_listing, 0)"
    by (simp add: fresh_fs(5) d_name_def dot_def dotdot_def listing_text_def entry_text_def child_text_def num_texts root_listing_def nl_def)
  then show ?thesis by (simp only: One_nat_def)
qed

lemma kernel_main_prints_witness:
  "\<exists>fs k'. kernel_main test_env test_mb no_initrd (test_kernel fresh_fs) = Some (Ok (fs, k')) \<and>
    initrd.boot_abs fs = host_abs fresh_fs \<and>
    shown (boot_text test_env test_mb (map of_char root_listing)) blank_tty (k_tty k') \<and> timer_ready k' \<and>
    k_tick k' = k_tick (test_kernel fresh_fs)"
  by (rule kernel_main_prints [OF test_machine(1) fresh_fs(3) _ fresh_text])
    (use test_machine(2,3) [of fresh_fs] fresh_module in simp_all)

text \<open>
  C1: the whole chain. The image that mkfs and \<open>main\<close> of fs/ufs.c write, placed in memory as the boot
  module, makes the kernel boot and print the two directories and the contents of the two files, as
  the host program stored them.
\<close>

theorem icix_boots:
  assumes "env_ok e mb k" and "mkfs junk1 junk2 32 32 = Ok d" and "host_main junk3 junk4 junk d = Ok (0, nfs)"
    and "unat (end_addr (initrd_of mb inst k)) = unat (start_addr (initrd_of mb inst k)) + 147456" and "cursor inst = 0"
    and "\<forall>i < 147456. k_ram k (unat (start_addr (initrd_of mb inst k)) + i) = hf_bytes (fs_disk nfs) i"
    and "kernel_end (unat (end_addr (initrd_of mb inst k))) + (7 + 2) * 4096 \<le> 2 ^ 22"
  shows "\<exists>fs k'. kernel_main e mb inst k = Some (Ok (fs, k')) \<and>
    shown (boot_text e mb (map of_char initrd_listing)) blank_tty (k_tty k') \<and> timer_ready k'"
proof -
  have nfs: "host_committed nfs" "host_abs nfs = initrd_fs" "fs_s nfs = default_super" "hf_len (fs_disk nfs) = 147456"
    "free_blocks nfs = [4..<32]"
    using host_main_ok [OF assms(2), of junk3 junk4 junk] assms(3) by auto
  have im: "holds_image nfs (initrd_of mb inst k)"
    using assms(4-6) by (intro main_image_fits [OF nfs(3-5)]) (simp_all add: initrd_of_def)
  have "dir_text 2 (host_abs nfs) 0 = Some (map of_char initrd_listing, 2)"
    using initrd_fs_text nfs(2) by simp
  from kernel_main_ok [OF assms(1) nfs(1) im this assms(7)] show ?thesis by blast
qed

definition main_fs :: "host_file ufs" where
  "main_fs = snd (ok_or (0, fresh_fs) (host_main (\<lambda>_. 7) (\<lambda>_. 7) (\<lambda>_. 7) fresh_image))"

lemma main_fs: "host_main (\<lambda>_. 7) (\<lambda>_. 7) (\<lambda>_. 7) fresh_image = Ok (0, main_fs)"
  using host_main_ok [OF fresh_fs(1), of "\<lambda>_. 7" "\<lambda>_. 7" "\<lambda>_. 7"] by (auto simp: main_fs_def ok_or_def)

lemma kernel_mounts_image_witness:
  "\<exists>fs fs1 fs2. ufs_init kernel_platform initrd_driver (\<lambda>_. 7) (\<lambda>_. 7) (module_at main_fs) = Ok fs \<and>
    initrd.boot_abs fs = host_abs main_fs \<and>
    ufs_lookup kernel_platform initrd_driver fs (int 1) (cbytes ''file2.txt'') =
      Ok (case map_of [([46], 1), ([46, 46], 0), (map of_char ''file2.txt'', 3)] (cstr (cbytes ''file2.txt'')) of Some k \<Rightarrow> k | None \<Rightarrow> - 1, fs1) \<and>
    ufs_read initrd_driver fs (int 2) (int 0) 1 =
      Ok (0, [map of_char ''Example contents of /file1.txt, stored on initrd'' ! 0], fs2)"
proof (rule kernel_mounts_image)
  obtain n where "host_main (\<lambda>_. 7) (\<lambda>_. 7) (\<lambda>_. 7) fresh_image = Ok (0, n)" "host_committed n" "host_abs n = initrd_fs"
    "fs_s n = default_super" "hf_len (fs_disk n) = 147456" "free_blocks n = [4..<32]"
    using host_main_ok [OF fresh_fs(1)] by blast
  then have n: "host_committed main_fs" "host_abs main_fs = initrd_fs" "fs_s main_fs = default_super"
    "hf_len (fs_disk main_fs) = 147456" "free_blocks main_fs = [4..<32]"
    using main_fs by auto
  show "host_committed main_fs" using n(1) .
  show "holds_image main_fs (module_at main_fs)"
    by (rule main_image_fits [OF n(3-5)]) (simp_all add: module_at_def module_ram_def)
  show "host_abs main_fs 1 = Some (Dir [([46], 1), ([46, 46], 0), (map of_char ''file2.txt'', 3)])"
    "host_abs main_fs 2 = Some (File (map of_char ''Example contents of /file1.txt, stored on initrd''))"
    by (simp_all add: n(2) initrd_fs_def)
qed (simp_all add: cbytes_facts)

lemma icix_boots_witness:
  "\<exists>fs k'. kernel_main test_env test_mb no_initrd (test_kernel main_fs) = Some (Ok (fs, k')) \<and>
    shown (boot_text test_env test_mb (map of_char initrd_listing)) blank_tty (k_tty k') \<and> timer_ready k'"
  by (rule icix_boots [OF test_machine(1) fresh_fs(1) main_fs])
    (use test_machine(2,3) [of main_fs] in \<open>simp_all add: module_at_def module_ram_def no_initrd_def test_kernel_def\<close>)

end
