(* ===== verification/HostUnlink.thy ===== *)
theory HostUnlink
  imports "HostRun"
begin

text \<open>
  \<open>ufs_unlink\<close> on an image: what it refuses, when it removes an entry as it should, which blocks
  it frees, and what it does to later lookups in the directory.
\<close>

section \<open>Facts of the abstract state\<close>

lemma host_fileD:
  assumes "host_abs nfs j = Some (File b)"
  shows "alloc nfs j" "i_type (inodes nfs ! j) \<noteq> UFS_DIRECTORY"
  using assms by (auto simp: host_abs_def fs_abs_def node_of_def split: if_splits)

lemma host_dirD:
  assumes "host_abs nfs i = Some (Dir l)"
  shows "alloc nfs i" "i_type (inodes nfs ! i) = UFS_DIRECTORY" "dir_list (hf_bytes (fs_disk nfs)) (inodes nfs ! i) = l"
  using assms by (auto simp: host_abs_def fs_abs_def node_of_def split: if_splits)

text \<open>The numbers of the data blocks of a node.\<close>

definition node_blocks :: "host_file ufs \<Rightarrow> nat \<Rightarrow> nat set" where
  "node_blocks nfs j = (\<lambda>p. unat p - DR (fs_s nfs)) ` {p \<in> set (i_direct (inodes nfs ! j)). p \<noteq> - 1}"

lemma node_blocks_ptr:
  assumes "host_fs_ok nfs" and "alloc nfs j" and "p \<in> set (i_direct (inodes nfs ! j))" "p \<noteq> - 1"
  obtains k where "unat p = DR (fs_s nfs) + k" "k \<in> node_blocks nfs j" "k < nat (num_data (fs_s nfs))" "k \<notin> set (free_blocks nfs)"
proof -
  have wf: "fs_wf (hf_bytes (fs_disk nfs)) (hf_len (fs_disk nfs)) nfs" using assms(1) by (simp add: host_fs_ok_def)
  then have lay: "layout_ok (fs_s nfs) (hf_len (fs_disk nfs))" by (simp add: fs_wf_def)
  have "length (i_direct (inodes nfs ! j)) = 30" using fs_wfD(4) [OF wf assms(2)] by (simp add: inode_typed_def)
  then obtain h where "h < 30" "i_direct (inodes nfs ! j) ! h = p"
    using assms(3) by (auto simp: in_set_conv_nth)
  then have "data_ptr (fs_s nfs) (data_bp nfs) p" using fs_wfD(2) [OF wf assms(2), of h] assms(4) by simp
  then obtain k where k: "k < nat (num_data (fs_s nfs))" "p = of_nat (DR (fs_s nfs) + k)" "bm_bit (data_bp nfs) k"
    unfolding data_ptr_def by blast
  have "unat p = DR (fs_s nfs) + k" using data_ptr_unat [OF lay k(1)] k(2) by simp
  then show thesis
    using that [of k] assms(3,4) k(1,3) by (force simp: node_blocks_def free_blocks_def image_iff)
qed

lemma shifted_blocks:
  assumes "host_fs_ok nfs" and "alloc nfs j"
  shows "(\<forall>p \<in> set (i_direct (inodes nfs ! j)). p \<noteq> - 1 \<longrightarrow> P (unat p)) \<longleftrightarrow>
    (\<forall>k \<in> node_blocks nfs j. P (DR (fs_s nfs) + k))"
proof -
  have "unat p = DR (fs_s nfs) + (unat p - DR (fs_s nfs))" if "p \<in> set (i_direct (inodes nfs ! j))" "p \<noteq> - 1" for p
    using node_blocks_ptr [OF assms that] by (metis diff_add_inverse)
  then show ?thesis unfolding node_blocks_def by auto
qed

section \<open>Properties\<close>

text \<open>
  C10: removing the last entry of a directory, for a file that nothing else refers to: when the
  entry is not alone in its block of the directory (the number of the entries before it is not a multiple of
  128, so no block of the directory becomes empty), and when the block numbers that \<open>ufs_unlink\<close> derives from
  the file's pointers are free anyway, the file and
  its entry are gone, nothing else changes, and the result is well-formed and committed. The
  blocks of the file are not given back. (With an entry that is alone in its block, \<open>ufs_unlink\<close> also resets the
  directory's pointer to the block and clears a bit for it in the data bitmap, which is not the block's own; that
  case is not covered here.)
\<close>

theorem host_unlink_refines:
  assumes "host_fs_ok nfs" and "host_abs nfs i = Some (Dir (l @ [(cstr name, int j)]))" and "length l mod 128 \<noteq> 0"
    and "terminated name" and "cstr name \<notin> {[46], [46, 46]}" and "host_abs nfs j = Some (File b)"
    and "\<forall>h l'. host_abs nfs h = Some (Dir l') \<longrightarrow> int j \<in> snd ` set l' \<longrightarrow> h = i" and "int j \<notin> snd ` set l"
    and "\<forall>k \<in> node_blocks nfs j. DR (fs_s nfs) + k \<in> set (free_blocks nfs)"
  shows "\<exists>nfs'. host_ufs_unlink junk nfs (int i) name = Ok (0, nfs') \<and> host_committed nfs' \<and>
    host_abs nfs' = (host_abs nfs)(j := None, i \<mapsto> Dir l) \<and> free_blocks nfs' = free_blocks nfs"
proof -
  have n: "cstr name \<noteq> [46]" "cstr name \<noteq> [46, 46]" using assms(5) by simp_all
  have "\<forall>p \<in> set (i_direct (inodes nfs ! j)). p \<noteq> - 1 \<longrightarrow> unat p \<in> set (free_blocks nfs)"
    using assms(9) shifted_blocks [OF assms(1) host_fileD(1) [OF assms(6)], of "\<lambda>x. x \<in> set (free_blocks nfs)"] by simp
  then obtain nfs' where "ufs_unlink host_platform host_driver junk nfs (int i) name = Ok (0, nfs')"
    "host.done_with nfs ((host_abs nfs)(j := None, i \<mapsto> Dir l)) nfs'" "free_blocks nfs' = free_blocks nfs"
    using hfs.unlink_last_ok [unfolded host_fs_simps, OF assms(1-4) n assms(6-8), of junk] by blast
  then show ?thesis
    using host_done by (auto simp: host_ufs_unlink_def)
qed

text \<open>
  C11: \<open>ufs_unlink\<close> frees the wrong blocks. For a file whose block numbers, each shifted by the start of the
  data region, all stay below the number of data blocks (otherwise the bitmap is accessed out of range), and
  whose entry is not alone in the last block of its directory, it returns 0 and clears, for every data block of the
  file, the bit that is further by the start of the data region: those blocks count as free afterwards,
  whichever node they belong to, and all others stay as they were, so a block of the file is only freed if it is
  one of the shifted numbers. The blocks of every node stay the same.
\<close>

theorem host_unlink_frees_wrong_blocks:
  assumes "host_fs_ok nfs" and "host_abs nfs i = Some (Dir l)" and "m < length l" and "l ! m = (cstr name, int j)"
    and "terminated name" and "cstr name \<notin> {[46], [46, 46]}" and "m mod 128 \<noteq> 0 \<or> Suc m < length l"
    and "host_abs nfs j = Some (File b)" and "\<forall>k \<in> node_blocks nfs j. DR (fs_s nfs) + k < nat (num_data (fs_s nfs))"
  shows "\<exists>nfs'. host_ufs_unlink junk nfs (int i) name = Ok (0, nfs') \<and>
    set (free_blocks nfs') = set (free_blocks nfs) \<union> (\<lambda>k. DR (fs_s nfs) + k) ` node_blocks nfs j \<and>
    node_blocks nfs' = node_blocks nfs"
proof -
  have n: "cstr name \<noteq> [46]" "cstr name \<noteq> [46, 46]" using assms(6) by simp_all
  note jt = host_fileD [OF assms(8)] and it = host_dirD [OF assms(2)]
  have ji: "j \<noteq> i" using jt(2) it(2) by blast
  have ptr: "\<forall>p \<in> set (i_direct (inodes nfs ! j)). p \<noteq> - 1 \<longrightarrow> unat p < nat (num_data (fs_s nfs))"
    using assms(9) shifted_blocks [OF assms(1) jt(1), of "\<lambda>x. x < nat (num_data (fs_s nfs))"] by simp
  have wf: "fs_wf (hf_bytes (fs_disk nfs)) (hf_len (fs_disk nfs)) nfs" using assms(1) by (simp add: host_fs_ok_def)
  then have m32: "nat (num_data (fs_s nfs)) \<le> 32" using layout_counts(2) by (auto simp: fs_wf_def)
  obtain nfs' where r: "ufs_unlink host_platform host_driver junk nfs (int i) name = Ok (0, nfs')"
    and "hfs.unlinked junk nfs i (length l) m j nfs'"
    by (rule hfs.unlink_done [unfolded host_fs_simps, where junk = junk, OF assms(1-5) n assms(7) ji _ ptr]) (use jt in auto)
  then have s: "fs_s nfs' = fs_s nfs"
    and ino: "inodes nfs' = (inodes nfs)[i := (inodes nfs ! i)\<lparr>i_size := int (32 * (length l - 1))\<rparr>]"
    and db: "\<forall>k < 32. bm_bit (data_bp nfs') k \<longleftrightarrow> bm_bit (data_bp nfs) k \<and>
      (\<forall>p \<in> set (i_direct (inodes nfs ! j)). p \<noteq> - 1 \<longrightarrow> unat p \<noteq> k)"
    by (simp_all add: hfs.unlinked_def)
  have "k \<in> set (free_blocks nfs') \<longleftrightarrow> k \<in> set (free_blocks nfs) \<union> (\<lambda>k. DR (fs_s nfs) + k) ` node_blocks nfs j" for k
    using db m32 assms(9) shifted_blocks [OF assms(1) jt(1), of "\<lambda>x. x \<noteq> k"] by (auto simp: free_blocks_def s)
  moreover have "node_blocks nfs' h = node_blocks nfs h" for h
    using fs_wfD(5) [OF wf it(1)] by (cases "h = i") (simp_all add: node_blocks_def s ino)
  ultimately show ?thesis using r by (auto simp: host_ufs_unlink_def)
qed

text \<open>
  C12: \<open>ufs_unlink\<close> of an entry that is not the last of its directory, for a file whose block
  numbers, each shifted by the start of the data region, stay below the number of data blocks, returns 0 and breaks the directory. The entry
  becomes a hole, and \<open>ufs_lookup\<close>, which asserts that there is none, ends the program for every
  name that is not found before the hole: for the removed name, and for all that follow it.
\<close>

theorem host_unlink_breaks_lookup:
  assumes "host_fs_ok nfs" and "host_abs nfs i = Some (Dir l)" and "Suc m < length l" and "l ! m = (cstr name, int j)"
    and "terminated name" and "cstr name \<notin> {[46], [46, 46]}"
    and "host_abs nfs j = Some (File b)" and "\<forall>k \<in> node_blocks nfs j. DR (fs_s nfs) + k < nat (num_data (fs_s nfs))"
    and "terminated nm" and "cstr nm \<notin> fst ` set (take m l)"
  shows "\<exists>nfs'. host_ufs_unlink junk nfs (int i) name = Ok (0, nfs') \<and> host_ufs_lookup nfs' (int i) nm = Err Aborted"
proof -
  have n: "cstr name \<noteq> [46]" "cstr name \<noteq> [46, 46]" using assms(6) by simp_all
  note jt = host_fileD [OF assms(7)] and it = host_dirD [OF assms(2)]
  have ji: "j \<noteq> i" and nd: "i_type (inodes nfs ! j) = UFS_DIRECTORY \<longrightarrow> i_size (inodes nfs ! j) = 64"
    using jt(2) it(2) by auto
  have ptr: "\<forall>p \<in> set (i_direct (inodes nfs ! j)). p \<noteq> - 1 \<longrightarrow> unat p < nat (num_data (fs_s nfs))"
    using assms(8) shifted_blocks [OF assms(1) jt(1), of "\<lambda>x. x < nat (num_data (fs_s nfs))"] by simp
  show ?thesis
    using hfs.unlink_lookup_aborts [unfolded host_fs_simps, OF assms(1-5) n ji nd ptr assms(9,10), of junk]
    by (simp add: host_ufs_unlink_def host_ufs_lookup_def)
qed

lemma host_dir_size:
  assumes "host_fs_ok nfs" and "host_abs nfs k = Some (Dir l)"
  shows "usize host_platform (i_size (inodes nfs ! k)) = 32 * int (length l)"
proof -
  have wf: "fs_wf (hf_bytes (fs_disk nfs)) (hf_len (fs_disk nfs)) nfs" using assms(1) by (simp add: host_fs_ok_def)
  note kt = host_dirD [OF assms(2)]
  have "i_size (inodes nfs ! k) = 32 * int (length l) \<and> length l \<le> 3840"
    using dir_wf_ok(1) [OF wf kt(1,2)] length_dir_list [of "hf_bytes (fs_disk nfs)" "inodes nfs ! k"] kt(3)
    by (auto simp: dir_wf_def dir_size_def)
  then show ?thesis by (simp add: usize_def host_platform_def)
qed

lemma host_in_table:
  assumes "host_fs_ok nfs" and "i < nat (num_inodes (fs_s nfs))"
  shows "i < bm_cap (inode_bp nfs)"
proof -
  have lay: "layout_ok (fs_s nfs) (hf_len (fs_disk nfs))" and "tables_ok nfs" using assms(1) by (simp_all add: host_fs_ok_def fs_wf_def)
  then show ?thesis using assms(2) layout_counts(1) [OF lay] by (simp add: tables_ok_def bm_cap_length)
qed

lemma strcmp_dots:
  assumes "terminated name"
  shows "\<exists>c1 c2. arr_strcmp name dot = Ok c1 \<and> (c1 = 0 \<longleftrightarrow> cstr name = [46]) \<and>
    arr_strcmp name dotdot = Ok c2 \<and> (c2 = 0 \<longleftrightarrow> cstr name = [46, 46])"
  using arr_strcmp_terminated [OF assms, of dot] arr_strcmp_terminated [OF assms, of dotdot]
  by (auto simp: dot_def dotdot_def)

text \<open>The refusals that need the directory: a missing name, and a directory that is not empty.\<close>

lemma host_unlink_dir_rejects:
  assumes "host_fs_ok nfs" and "terminated name" and "i < nat (num_inodes (fs_s nfs))"
    and "host_abs nfs i = Some (Dir l)" and "cstr name \<notin> {[46], [46, 46]}"
    and "map_of l (cstr name) = None \<or>
        (\<exists>k l'. map_of l (cstr name) = Some (int k) \<and> host_abs nfs k = Some (Dir l') \<and> length l' \<noteq> 2)"
  shows "\<exists>d'. host_ufs_unlink junk nfs (int i) name = Ok (- 1, nfs\<lparr>fs_disk := d'\<rparr>) \<and>
    host.same (fs_disk nfs) d'"
proof -
  have wf: "fs_wf (hf_bytes (fs_disk nfs)) (hf_len (fs_disk nfs)) nfs" using assms(1) by (simp add: host_fs_ok_def)
  obtain c1 c2 where c: "arr_strcmp name dot = Ok c1" "c1 \<noteq> 0" "arr_strcmp name dotdot = Ok c2" "c2 \<noteq> 0"
    using strcmp_dots [OF assms(2)] assms(5) by auto
  obtain d' where d: "ufs_lookup host_platform host_driver nfs (int i) name =
      Ok (case map_of l (cstr name) of Some k \<Rightarrow> k | None \<Rightarrow> - 1, nfs\<lparr>fs_disk := d'\<rparr>)" "host.same (fs_disk nfs) d'"
    using hfs.lookup_wf [unfolded host_fs_simps, OF assms(1,4,2)] by blast
  have al: "bm_bit (inode_bp nfs) i" using host_dirD(1) [OF assms(4)] by (simp add: alloc_def)
  note i32 = host_in_table [OF assms(1,3)]
  from assms(6) show ?thesis
  proof (elim disjE exE conjE)
    assume "map_of l (cstr name) = None"
    then show ?thesis
      using d assms(3) i32 c al by (intro exI [of _ d']) (auto simp: host_ufs_unlink_def ufs_unlink_def get_bitmap_eq)
  next
    fix k l' assume k: "map_of l (cstr name) = Some (int k)" "host_abs nfs k = Some (Dir l')" "length l' \<noteq> 2"
    show ?thesis
      using d assms(3) i32 c al k host_dirD(2) [OF k(2)] fs_wfD(5) [OF wf host_dirD(1) [OF k(2)]] host_dir_size [OF assms(1) k(2)]
      by (intro exI [of _ d']) (auto simp: host_ufs_unlink_def ufs_unlink_def get_bitmap_eq)
  qed
qed

lemma host_unlink_refused:
  assumes "host_fs_ok nfs" and "terminated name"
    and "pinum < 0 \<or> num_inodes (fs_s nfs) \<le> pinum \<or> host_abs nfs (nat pinum) = None \<or> cstr name \<in> {[46], [46, 46]} \<or>
      (\<exists>l. host_abs nfs (nat pinum) = Some (Dir l) \<and> (map_of l (cstr name) = None \<or>
        (\<exists>k l'. map_of l (cstr name) = Some (int k) \<and> host_abs nfs k = Some (Dir l') \<and> length l' \<noteq> 2)))"
  shows "\<exists>d'. host_ufs_unlink junk nfs pinum name = Ok (- 1, nfs\<lparr>fs_disk := d'\<rparr>) \<and>
    host.same (fs_disk nfs) d'"
proof -
  have sm: "host.same (fs_disk nfs) (fs_disk nfs)" using assms(1) by (simp add: host.same_def host_fs_ok_def)
  show ?thesis
  proof (cases "pinum < 0 \<or> num_inodes (fs_s nfs) \<le> pinum")
    case True
    then show ?thesis
      by (intro exI [of _ "fs_disk nfs"]) (auto simp: host_ufs_unlink_def ufs_unlink_def sm)
  next
    case in_range: False
    then obtain i where i: "pinum = int i" "i < nat (num_inodes (fs_s nfs))"
      by (metis linorder_not_less nonneg_int_cases zless_nat_eq_int_zless)
    show ?thesis
    proof (cases "host_abs nfs i = None \<or> cstr name \<in> {[46], [46, 46]}")
      case True
      obtain c1 c2 where "arr_strcmp name dot = Ok c1" "c1 = 0 \<longleftrightarrow> cstr name = [46]"
          "arr_strcmp name dotdot = Ok c2" "c2 = 0 \<longleftrightarrow> cstr name = [46, 46]"
        using strcmp_dots [OF assms(2)] by blast
      then show ?thesis
        using True i in_range host_in_table [OF assms(1) i(2)] by (intro exI [of _ "fs_disk nfs"])
          (auto simp: host_ufs_unlink_def ufs_unlink_def get_bitmap_eq host_abs_def fs_abs_def alloc_def sm)
    next
      case False
      then obtain l where l: "host_abs nfs i = Some (Dir l)" and m: "map_of l (cstr name) = None \<or>
          (\<exists>k l'. map_of l (cstr name) = Some (int k) \<and> host_abs nfs k = Some (Dir l') \<and> length l' \<noteq> 2)"
        using assms(3) in_range i(1) by auto
      show ?thesis
        using host_unlink_dir_rejects [OF assms(1,2) i(2) l _ m, of junk] False i(1) by simp
    qed
  qed
qed

text \<open>
  C14: what \<open>ufs_unlink\<close> refuses: an inode number out of range or not allocated, the names "." and
  "..", a name that the directory does not have, and a directory that has more than its two first
  entries. It returns -1, and only the file offset may have moved.
\<close>

theorem host_unlink_rejects:
  assumes "host_fs_ok nfs" and "terminated name"
    and "pinum < 0 \<or> num_inodes (fs_s nfs) \<le> pinum \<or> host_abs nfs (nat pinum) = None \<or> cstr name \<in> {[46], [46, 46]} \<or>
      (\<exists>l. host_abs nfs (nat pinum) = Some (Dir l) \<and> (map_of l (cstr name) = None \<or>
        (\<exists>k l'. map_of l (cstr name) = Some (int k) \<and> host_abs nfs k = Some (Dir l') \<and> length l' \<noteq> 2)))"
  shows "\<exists>d'. host_ufs_unlink junk nfs pinum name = Ok (- 1, nfs\<lparr>fs_disk := d'\<rparr>) \<and>
    hf_bytes d' = hf_bytes (fs_disk nfs) \<and> hf_len d' = hf_len (fs_disk nfs)"
proof -
  obtain d' where "host_ufs_unlink junk nfs pinum name = Ok (- 1, nfs\<lparr>fs_disk := d'\<rparr>)" "host.same (fs_disk nfs) d'"
    using host_unlink_refused [OF assms, of junk] by blast
  then show ?thesis by (intro exI [of _ d']) (simp add: host.same_def)
qed

text \<open>
  A file in place of the directory is not refused: \<open>ufs_lookup\<close> answers -4, which is taken for an
  inode number.
\<close>

lemma host_unlink_in_file:
  assumes "host_fs_ok nfs" and "host_abs nfs i = Some (File b)" and "terminated name" and "cstr name \<notin> {[46], [46, 46]}"
  shows "host_ufs_unlink junk nfs (int i) name = Err Undefined"
proof -
  note f = host_file_facts [OF assms(1,2)]
  obtain c1 c2 where "arr_strcmp name dot = Ok c1" "c1 \<noteq> 0" "arr_strcmp name dotdot = Ok c2" "c2 \<noteq> 0"
    using strcmp_dots [OF assms(3)] assms(4) by auto
  then show ?thesis
    using f by (simp add: host_ufs_unlink_def ufs_unlink_def ufs_lookup_def UFS_REGULAR_FILE_def UFS_DIRECTORY_def arr_get_def)
qed

section \<open>Witnesses\<close>

text \<open>The image that \<open>main\<close> of fs/ufs.c makes, and an image with two files in the root.\<close>

definition ramdisk_fs :: "host_file ufs" where
  "ramdisk_fs = snd (ok_or (0, fresh_fs) (host_main (\<lambda>_. 0) (\<lambda>_. 0) (\<lambda>_. 7) fresh_image))"

lemma ramdisk_fs:
  "host_fs_ok ramdisk_fs" "host_abs ramdisk_fs = initrd_fs" "fs_s ramdisk_fs = default_super"
  "free_blocks ramdisk_fs = [4..<32]"
  using host_main_ok [OF fresh_fs(1), of "\<lambda>_. 0" "\<lambda>_. 0" "\<lambda>_. 7"]
  by (auto simp: ramdisk_fs_def ok_or_def host_committed_def)

definition pair_fs :: "host_file ufs" where
  "pair_fs = snd (ok_or (None, fresh_fs) (host_ufs_creat (\<lambda>_. 7) file_fs 0 UFS_REGULAR_FILE (cbytes ''g'')))"

lemma pair_fs:
  "host_fs_ok pair_fs" "host_abs pair_fs 0 = Some (Dir [([46], 0), ([46, 46], 0), ([102], 1), ([103], 2)])"
  "host_abs pair_fs 1 = Some (File [])" "fs_s pair_fs = default_super" "free_blocks pair_fs = [1..<32]"
proof -
  obtain n where "host_ufs_creat (\<lambda>_. 7) file_fs (int 0) UFS_REGULAR_FILE (cbytes ''g'') = Ok (None, n)"
    "host_committed n" "host_abs n 0 = Some (Dir [([46], 0), ([46, 46], 0), ([102], 1), ([103], 2)])"
    "host_abs n 1 = Some (File [])" "fs_s n = default_super" "free_blocks n = [1..<32]"
    using host_creat_step [OF file_fs(1), of 0 "[([46], 0), ([46, 46], 0), ([102], 1)]" "cbytes ''g''" 2 "[3..<32]" UFS_REGULAR_FILE "\<lambda>_. 7"]
    by (auto simp: file_fs cbytes_facts blocks_needed_def UFS_DIRECTORY_def UFS_REGULAR_FILE_def is_int32_def)
  then show "host_fs_ok pair_fs" "host_abs pair_fs 0 = Some (Dir [([46], 0), ([46, 46], 0), ([102], 1), ([103], 2)])"
    "host_abs pair_fs 1 = Some (File [])" "fs_s pair_fs = default_super" "free_blocks pair_fs = [1..<32]"
    by (simp_all add: pair_fs_def ok_or_def host_committed_def)
qed

lemma small_blocks:
  assumes "host_fs_ok nfs" and "alloc nfs j" and "fs_s nfs = default_super" and "free_blocks nfs = [n..<32]" and "n \<le> 4"
  shows "\<forall>k \<in> node_blocks nfs j. DR (fs_s nfs) + k \<in> set (free_blocks nfs) \<and> DR (fs_s nfs) + k < nat (num_data (fs_s nfs))"
proof
  fix k assume "k \<in> node_blocks nfs j"
  then obtain p where p: "p \<in> set (i_direct (inodes nfs ! j))" "p \<noteq> - 1" "k = unat p - DR (fs_s nfs)"
    by (auto simp: node_blocks_def)
  obtain k' where "unat p = DR (fs_s nfs) + k'" "k' < nat (num_data (fs_s nfs))" "k' \<notin> set (free_blocks nfs)"
    using node_blocks_ptr [OF assms(1,2) p(1,2)] by metis
  then show "DR (fs_s nfs) + k \<in> set (free_blocks nfs) \<and> DR (fs_s nfs) + k < nat (num_data (fs_s nfs))"
    using p(3) assms(3-5) by (auto simp: DR_def default_super_def)
qed

lemma ramdisk_file1:
  "host_abs ramdisk_fs 0 = Some (Dir ([(map of_char ''.'', 0), (map of_char ''..'', 0), (map of_char ''dir'', 1)] @
     [(cstr (cbytes ''file1.txt''), int 2)]))"
  "host_abs ramdisk_fs 2 = Some (File (map of_char ''Example contents of /file1.txt, stored on initrd''))"
  by (simp_all add: ramdisk_fs(2) initrd_fs_def cbytes_facts)

lemma host_unlink_refines_witness:
  "\<exists>nfs'. host_ufs_unlink (\<lambda>_. 7) ramdisk_fs (int 0) (cbytes ''file1.txt'') = Ok (0, nfs') \<and> host_committed nfs' \<and>
    host_abs nfs' = (host_abs ramdisk_fs)(2 := None, 0 \<mapsto> Dir [(map of_char ''.'', 0), (map of_char ''..'', 0), (map of_char ''dir'', 1)]) \<and>
    free_blocks nfs' = free_blocks ramdisk_fs"
proof (rule host_unlink_refines [OF ramdisk_fs(1) ramdisk_file1(1) _ _ _ ramdisk_file1(2)])
  show "\<forall>h l'. host_abs ramdisk_fs h = Some (Dir l') \<longrightarrow> int 2 \<in> snd ` set l' \<longrightarrow> h = 0"
    by (auto simp: ramdisk_fs(2) initrd_fs_def split: if_splits)
  show "\<forall>k \<in> node_blocks ramdisk_fs 2. DR (fs_s ramdisk_fs) + k \<in> set (free_blocks ramdisk_fs)"
    using small_blocks [OF ramdisk_fs(1) host_fileD(1) [OF ramdisk_file1(2)] ramdisk_fs(3,4)] by simp
qed (simp_all add: cbytes_facts)

lemma host_unlink_frees_wrong_blocks_witness:
  "\<exists>nfs'. host_ufs_unlink (\<lambda>_. 7) ramdisk_fs (int 0) (cbytes ''file1.txt'') = Ok (0, nfs') \<and>
    set (free_blocks nfs') = set (free_blocks ramdisk_fs) \<union> (\<lambda>k. DR (fs_s ramdisk_fs) + k) ` node_blocks ramdisk_fs 2 \<and>
    node_blocks nfs' = node_blocks ramdisk_fs"
proof (rule host_unlink_frees_wrong_blocks [OF ramdisk_fs(1) ramdisk_file1(1), where m = 3, OF _ _ _ _ _ ramdisk_file1(2)])
  show "\<forall>k \<in> node_blocks ramdisk_fs 2. DR (fs_s ramdisk_fs) + k < nat (num_data (fs_s ramdisk_fs))"
    using small_blocks [OF ramdisk_fs(1) host_fileD(1) [OF ramdisk_file1(2)] ramdisk_fs(3,4)] by simp
qed (simp_all add: cbytes_facts)

lemma host_unlink_breaks_lookup_witness:
  "\<exists>nfs'. host_ufs_unlink (\<lambda>_. 7) pair_fs (int 0) (cbytes ''f'') = Ok (0, nfs') \<and>
    host_ufs_lookup nfs' (int 0) (cbytes ''g'') = Err Aborted"
proof (rule host_unlink_breaks_lookup [OF pair_fs(1,2), where m = 2, OF _ _ _ _ pair_fs(3)])
  show "\<forall>k \<in> node_blocks pair_fs 1. DR (fs_s pair_fs) + k < nat (num_data (fs_s pair_fs))"
    using small_blocks [OF pair_fs(1) host_fileD(1) [OF pair_fs(3)] pair_fs(4,5)] by simp
qed (simp_all add: cbytes_facts)

lemma host_unlink_rejects_witness:
  "\<exists>d'. host_ufs_unlink (\<lambda>_. 7) file_fs 0 [103, 0] = Ok (- 1, file_fs\<lparr>fs_disk := d'\<rparr>) \<and>
    hf_bytes d' = hf_bytes (fs_disk file_fs) \<and> hf_len d' = hf_len (fs_disk file_fs)"
  by (rule host_unlink_rejects) (simp_all add: file_fs)

end
