(* ===== verification/HostFull.thy ===== *)
theory HostFull
  imports HostUnlink
begin

text \<open>
  \<open>ufs_creat\<close> on an image when it fails: the refusals that change nothing, and the inode that is
  lost when the directory or the disk turns out to be full.
\<close>

section \<open>Refusals\<close>

text \<open>
  C15: what \<open>ufs_creat\<close> refuses: a parent that is out of range, not allocated or not a directory, a
  name of more than 27 bytes or one that the parent has already, and any name when no inode is free. It
  returns -1, and only the file offset may have moved.
\<close>

theorem host_creat_rejects:
  assumes "host_fs_ok nfs" and "terminated name"
    and "pinum < 0 \<or> num_inodes (fs_s nfs) \<le> pinum \<or> (\<forall>l. host_abs nfs (nat pinum) \<noteq> Some (Dir l)) \<or>
      27 < length (cstr name) \<or> free_inodes nfs = [] \<or>
      (\<exists>l k. host_abs nfs (nat pinum) = Some (Dir l) \<and> map_of l (cstr name) = Some (int k))"
  shows "\<exists>d'. host_ufs_creat junk nfs pinum type name = Ok (Some (- 1), nfs\<lparr>fs_disk := d'\<rparr>) \<and>
    hf_bytes d' = hf_bytes (fs_disk nfs) \<and> hf_len d' = hf_len (fs_disk nfs)"
proof -
  obtain d' where "ufs_creat host_platform host_driver junk nfs pinum type name = Ok (- 1, nfs\<lparr>fs_disk := d'\<rparr>)"
    "host.same (fs_disk nfs) d'"
    using hfs.ufs_creat_refuses [unfolded host_fs_simps, OF assms, of junk type] by blast
  then show ?thesis
    by (intro exI [of _ d']) (simp add: host_ufs_creat_def host.same_def)
qed

lemma host_creat_rejects_witness:
  "\<exists>d'. host_ufs_creat (\<lambda>_. 7) ramdisk_fs 1 UFS_DIRECTORY (cbytes ''file2.txt'') = Ok (Some (- 1), ramdisk_fs\<lparr>fs_disk := d'\<rparr>) \<and>
    hf_bytes d' = hf_bytes (fs_disk ramdisk_fs) \<and> hf_len d' = hf_len (fs_disk ramdisk_fs)"
  by (rule host_creat_rejects [OF ramdisk_fs(1)])
    (auto simp: ramdisk_fs(2) initrd_fs_def cbytes_facts)

section \<open>A full directory, a full disk\<close>

text \<open>
  C16: when the parent has its 3840 entries, or too few blocks are free for the new node and for a new
  block of the parent, \<open>ufs_creat\<close> also returns -1, but the inode it had chosen stays taken: no directory lists
  it and its dirty bit is set, so the next commit writes it to the disk. The blocks, the other nodes and
  the bytes of the image are the same.
\<close>

theorem host_creat_leaks_inode:
  assumes "host_fs_ok nfs" and "host_abs nfs i = Some (Dir l)"
    and "terminated name" and "length (cstr name) \<le> 27" and "cstr name \<notin> fst ` set l"
    and "free_inodes nfs = ei # rest" and "is_int32 type"
    and "length l = 128 * 30 \<or> length l < 128 * 30 \<and> length (free_blocks nfs) < blocks_needed type (length l)"
  shows "\<exists>nfs' nd. host_ufs_creat junk nfs (int i) type name = Ok (Some (- 1), nfs') \<and>
    host_abs nfs' = (host_abs nfs)(ei \<mapsto> nd) \<and> free_inodes nfs' = rest \<and> free_blocks nfs' = free_blocks nfs \<and>
    bm_bit (dirty_inode_bp nfs') ei \<and> hf_bytes (fs_disk nfs') = hf_bytes (fs_disk nfs)"
proof -
  obtain nfs' where c: "ufs_creat host_platform host_driver junk nfs (int i) type name = Ok (- 1, nfs')"
    and lk: "hfs.leaked nfs ei nfs'"
    using hfs.ufs_creat_leaks [unfolded host_fs_simps, OF assms, of junk] by blast
  note la = hfs.leaked_abs [unfolded host_fs_simps, OF assms(1,6) lk]
  obtain nd where "host_abs nfs' = (host_abs nfs)(ei \<mapsto> nd)" using la(2) by blast
  moreover have "hf_bytes (fs_disk nfs') = hf_bytes (fs_disk nfs)" "bm_bit (dirty_inode_bp nfs') ei"
    using lk by (simp_all add: hfs.leaked_def host.same_def)
  ultimately show ?thesis
    using c la(1,3) by (intro exI [of _ nfs'] exI [of _ nd]) (simp add: host_ufs_creat_def)
qed

text \<open>The image with one file whose 30 blocks and a directory leave no free block.\<close>

primrec filled_fs :: "nat \<Rightarrow> host_file ufs" where
  "filled_fs 0 = file_fs"
| "filled_fs (Suc k) = snd (ok_or (0, file_fs) (host_ufs_write (filled_fs k) 1 (replicate 4096 0) (int (4096 * k)) 4096))"

lemma filled_fs:
  assumes "k \<le> 30"
  shows "host_fs_ok (filled_fs k) \<and> free_blocks (filled_fs k) = drop k [1..<32] \<and> fs_s (filled_fs k) = default_super \<and>
    host_abs (filled_fs k) = [0 \<mapsto> Dir [([46], 0), ([46, 46], 0), ([102], 1)], 1 \<mapsto> File (replicate (4096 * k) 0)]"
  using assms
proof (induction k)
  case 0
  show ?case using file_fs by (auto simp: fun_eq_iff)
next
  case (Suc k)
  then have IH: "host_fs_ok (filled_fs k)" "host_abs (filled_fs k) 1 = Some (File (replicate (4096 * k) 0))"
    "host_abs (filled_fs k) = [0 \<mapsto> Dir [([46], 0), ([46, 46], 0), ([102], 1)], 1 \<mapsto> File (replicate (4096 * k) 0)]"
    "free_blocks (filled_fs k) = drop k [1..<32]" "fs_s (filled_fs k) = default_super" by auto
  have "append_blocks (4096 * k) 4096 = 1" by (simp add: append_blocks_def)
  moreover have "Suc 0 \<le> 31 - k" using Suc.prems by simp
  ultimately obtain n1 where "host_ufs_write (filled_fs k) 1 (replicate 4096 0) (int (4096 * k)) 4096 = Ok (0, n1)"
    "host_committed n1" "host_abs n1 = (host_abs (filled_fs k))(1 \<mapsto> File (replicate (4096 * k) 0 @ replicate 4096 0))"
    "fs_s n1 = default_super" "free_blocks n1 = drop 1 (free_blocks (filled_fs k))"
    using host_write_step [OF IH(1,2), of 4096 "replicate 4096 0"] IH(4,5) Suc.prems by auto
  moreover have "replicate (4096 * k) 0 @ replicate 4096 0 = replicate (4096 * Suc k) (0 :: byte)"
    by (simp add: replicate_add [symmetric] add.commute)
  ultimately show ?case
    using IH by (auto simp: ok_or_def host_committed_def fun_eq_iff)
qed

definition full_fs :: "host_file ufs" where
  "full_fs = snd (ok_or (None, file_fs) (host_ufs_creat (\<lambda>_. 7) (filled_fs 30) 0 UFS_DIRECTORY (cbytes ''d'')))"

lemma full_fs:
  "host_fs_ok full_fs" "host_abs full_fs 0 = Some (Dir [([46], 0), ([46, 46], 0), ([102], 1), ([100], 2)])"
  "free_inodes full_fs = 3 # [4..<32]" "free_blocks full_fs = []"
proof -
  let ?n = "filled_fs 30" and ?l = "[([46], 0), ([46, 46], 0), ([102], 1)] :: (byte list \<times> int) list"
  have f: "host_fs_ok ?n" "free_blocks ?n = [31]" "fs_s ?n = default_super"
    "host_abs ?n = [0 \<mapsto> Dir ?l, 1 \<mapsto> File (replicate (4096 * 30) 0)]"
    using filled_fs [of 30] by (auto simp: upt_rec)
  have n32: "nat (num_inodes default_super) = 32" by (simp add: default_super_def)
  have "free_inodes ?n = 2 # [3..<32]" by (simp add: host_free_inodes f(3,4) n32 upt_rec)
  then obtain n1 where n1: "host_ufs_creat (\<lambda>_. 7) ?n (int 0) UFS_DIRECTORY (cbytes ''d'') = Ok (None, n1)"
    "host_committed n1" "host_abs n1 = (host_abs ?n)(2 \<mapsto> new_node UFS_DIRECTORY 2 0, 0 \<mapsto> Dir (?l @ [([100], 2)]))"
    "fs_s n1 = default_super" "free_blocks n1 = []"
    using host_creat_step [OF f(1), of 0 ?l "cbytes ''d''" 2 "[3..<32]" UFS_DIRECTORY "\<lambda>_. 7"]
    by (auto simp: f(2-4) cbytes_facts blocks_needed_def UFS_DIRECTORY_def is_int32_def)
  have eq: "full_fs = n1" using n1(1) by (simp add: full_fs_def ok_or_def)
  show "host_fs_ok full_fs" "host_abs full_fs 0 = Some (Dir [([46], 0), ([46, 46], 0), ([102], 1), ([100], 2)])"
    "free_blocks full_fs = []"
    using n1 by (simp_all add: eq host_committed_def)
  show "free_inodes full_fs = 3 # [4..<32]"
    by (simp add: eq host_free_inodes n1(3,4) f(4) n32 upt_rec)
qed

lemma host_creat_leaks_inode_witness:
  "\<exists>nfs' nd. host_ufs_creat (\<lambda>_. 7) full_fs (int 0) UFS_DIRECTORY (cbytes ''e'') = Ok (Some (- 1), nfs') \<and>
    host_abs nfs' = (host_abs full_fs)(3 \<mapsto> nd) \<and> free_inodes nfs' = [4..<32] \<and> free_blocks nfs' = free_blocks full_fs \<and>
    bm_bit (dirty_inode_bp nfs') 3 \<and> hf_bytes (fs_disk nfs') = hf_bytes (fs_disk full_fs)"
  by (rule host_creat_leaks_inode [OF full_fs(1,2) _ _ _ full_fs(3)])
    (simp_all add: full_fs(4) cbytes_facts blocks_needed_def UFS_DIRECTORY_def is_int32_def)

end
