(* ===== verification/HostTrace.thy ===== *)
theory HostTrace
  imports HostFull
begin

text \<open>
  Sequences of calls on an image. An abstract file system answers the calls of fs/ufs.c, as a function of the
  nodes and of the number of free blocks alone; whatever sequence of calls it has answers for, the program
  gives the same answers on the image, with the image closed and reopened in between.
\<close>

section \<open>Runs of calls\<close>

text \<open>
  A call with its arguments (\<open>Op_remount\<close>: the image is closed, opened and mounted again), and its
  answer: the result, which is indeterminate (None) where \<open>ufs_creat\<close> succeeds, and the bytes read.
\<close>

datatype host_op =
    Op_lookup int "byte list"
  | Op_creat int int "byte list"
  | Op_write int "byte list" int int
  | Op_read int int int
  | Op_unlink int "byte list"
  | Op_remount

type_synonym answer = "int option \<times> byte list"

primrec host_call ::
    "(nat \<Rightarrow> u32) \<Rightarrow> (nat \<Rightarrow> u32) \<Rightarrow> (nat \<Rightarrow> byte) \<Rightarrow> host_op \<Rightarrow> host_file ufs \<Rightarrow> (answer \<times> host_file ufs) res" where
  "host_call junk1 junk2 junk (Op_lookup pinum name) nfs =
     bindr (host_ufs_lookup nfs pinum name) (\<lambda>(r, nfs). Ok ((Some r, []), nfs))"
| "host_call junk1 junk2 junk (Op_creat pinum type name) nfs =
     bindr (host_ufs_creat junk nfs pinum type name) (\<lambda>(r, nfs). Ok ((r, []), nfs))"
| "host_call junk1 junk2 junk (Op_write inum buf offset nbytes) nfs =
     bindr (host_ufs_write nfs inum buf offset nbytes) (\<lambda>(r, nfs). Ok ((Some r, []), nfs))"
| "host_call junk1 junk2 junk (Op_read inum offset nbytes) nfs =
     bindr (host_ufs_read nfs inum offset nbytes) (\<lambda>(r, bs, nfs). Ok ((Some r, bs), nfs))"
| "host_call junk1 junk2 junk (Op_unlink pinum name) nfs =
     bindr (host_ufs_unlink junk nfs pinum name) (\<lambda>(r, nfs). Ok ((Some r, []), nfs))"
| "host_call junk1 junk2 junk Op_remount nfs =
     bindr (host_ufs_init junk1 junk2 ((fs_disk nfs)\<lparr>hf_pos := 0\<rparr>)) (\<lambda>nfs. Ok ((Some 0, []), nfs))"

text \<open>One call after the other, on the program and on an abstract machine that may have no answer.\<close>

primrec run_calls :: "('op \<Rightarrow> 'c \<Rightarrow> ('r \<times> 'c) res) \<Rightarrow> 'op list \<Rightarrow> 'c \<Rightarrow> ('r list \<times> 'c) res" where
  "run_calls f [] c = Ok ([], c)"
| "run_calls f (op # ops) c = bindr (f op c) (\<lambda>(r, c). bindr (run_calls f ops c) (\<lambda>(rs, c). Ok (r # rs, c)))"

primrec spec_calls :: "('op \<Rightarrow> 'a \<Rightarrow> ('r \<times> 'a) option) \<Rightarrow> 'op list \<Rightarrow> 'a \<Rightarrow> ('r list \<times> 'a) option" where
  "spec_calls f [] a = Some ([], a)"
| "spec_calls f (op # ops) a = Option.bind (f op a) (\<lambda>(r, a). Option.bind (spec_calls f ops a) (\<lambda>(rs, a). Some (r # rs, a)))"

locale call_refinement =
  fixes rel :: "'a \<Rightarrow> 'c \<Rightarrow> bool"
    and spec :: "'op \<Rightarrow> 'a \<Rightarrow> ('r \<times> 'a) option"
    and prog :: "'op \<Rightarrow> 'c \<Rightarrow> ('r \<times> 'c) res"
  assumes call_sim: "rel a c \<Longrightarrow> spec op a = Some (r, a') \<Longrightarrow> \<exists>c'. prog op c = Ok (r, c') \<and> rel a' c'"
begin

lemma calls_sim:
  "rel a c \<Longrightarrow> spec_calls spec ops a = Some (rs, a') \<Longrightarrow> \<exists>c'. run_calls prog ops c = Ok (rs, c') \<and> rel a' c'"
proof (induction ops arbitrary: a c rs)
  case (Cons op ops)
  obtain r a1 rs1 where a1: "spec op a = Some (r, a1)" "spec_calls spec ops a1 = Some (rs1, a')" "rs = r # rs1"
    using Cons.prems(2) by (auto simp: bind_eq_Some_conv)
  obtain c1 where c1: "prog op c = Ok (r, c1)" "rel a1 c1" using call_sim [OF Cons.prems(1) a1(1)] by blast
  obtain c2 where "run_calls prog ops c1 = Ok (rs1, c2)" "rel a' c2" using Cons.IH [OF c1(2) a1(2)] by blast
  then show ?case using c1 a1(3) by auto
qed simp

end

section \<open>The abstract file system\<close>

text \<open>
  The nodes of \<open>n\<close> inodes and the number of free blocks. No answer is given where the outcome depends on more than
  that, or where the program fails: names without end, a write that is longer than its buffer, inside
  the file or beyond the free blocks, a read of a directory or with an overflow, a creation that finds the directory or
  the disk full, and a removal other than that of an empty file that is the last entry of its directory, is not
  alone in its block and is listed once.
\<close>

type_synonym afs = "(nat \<rightharpoonup> node) \<times> nat"

definition node_at :: "nat \<Rightarrow> afs \<Rightarrow> int \<Rightarrow> node option" where
  "node_at n s p = (if 0 \<le> p \<and> p < int n then fst s (nat p) else None)"

definition refused :: "afs \<Rightarrow> (answer \<times> afs) option" where
  "refused s = Some ((Some (- 1), []), s)"

definition a_lookup :: "nat \<Rightarrow> int \<Rightarrow> byte list \<Rightarrow> afs \<Rightarrow> (answer \<times> afs) option" where
  "a_lookup n p name s =
     (if \<not> terminated name then None
      else if p < 0 \<or> int n \<le> p then Some ((Some (- 2), []), s)
      else case node_at n s p of
        None \<Rightarrow> Some ((Some (- 3), []), s)
      | Some (Dir l) \<Rightarrow> Some ((Some (case map_of l (cstr name) of Some k \<Rightarrow> k | None \<Rightarrow> - 1), []), s)
      | _ \<Rightarrow> Some ((Some (- 4), []), s))"

definition a_creat :: "nat \<Rightarrow> int \<Rightarrow> int \<Rightarrow> byte list \<Rightarrow> afs \<Rightarrow> (answer \<times> afs) option" where
  "a_creat n p type name s =
     (if \<not> terminated name \<or> \<not> is_int32 type then None
      else case node_at n s p of
        Some (Dir l) \<Rightarrow>
          (if 27 < length (cstr name) \<or> cstr name \<in> fst ` set l then refused s
           else case filter (\<lambda>j. fst s j = None) [0..<n] of
             [] \<Rightarrow> refused s
           | ei # _ \<Rightarrow>
               if length l < 3840 \<and> blocks_needed type (length l) \<le> snd s
               then Some ((None, []), (fst s)(ei \<mapsto> new_node type ei (nat p), nat p \<mapsto> Dir (l @ [(cstr name, int ei)])),
                 snd s - blocks_needed type (length l))
               else None)
      | _ \<Rightarrow> refused s)"

definition a_write :: "nat \<Rightarrow> int \<Rightarrow> byte list \<Rightarrow> int \<Rightarrow> int \<Rightarrow> afs \<Rightarrow> (answer \<times> afs) option" where
  "a_write n i buf off k s =
     (case node_at n s i of
        Some (File l) \<Rightarrow>
          (if off < 0 \<or> int (length l) < off \<or> k \<le> 0 \<or> 4096 < k then refused s
           else if off = int (length l) \<and> nat k \<le> length buf \<and> length l + nat k \<le> 122880 \<and>
             append_blocks (length l) (nat k) \<le> snd s
           then Some ((Some 0, []), (fst s)(nat i \<mapsto> File (l @ take (nat k) buf)), snd s - append_blocks (length l) (nat k))
           else None)
      | _ \<Rightarrow> refused s)"

definition a_read :: "nat \<Rightarrow> int \<Rightarrow> int \<Rightarrow> int \<Rightarrow> afs \<Rightarrow> (answer \<times> afs) option" where
  "a_read n i off k s =
     (case node_at n s i of
        None \<Rightarrow> refused s
      | Some (File l) \<Rightarrow>
          (if off < 0 \<or> k \<le> 0 then refused s
           else if \<not> is_int32 (off + k) then None
           else if int (length l) < off + k then refused s
           else Some ((Some 0, take (nat k) (drop (nat off) l)), s))
      | _ \<Rightarrow> None)"

definition listed :: "nat \<Rightarrow> afs \<Rightarrow> int \<Rightarrow> nat list" where
  "listed n s k = filter (\<lambda>h. case fst s h of Some (Dir l) \<Rightarrow> k \<in> snd ` set l | _ \<Rightarrow> False) [0..<n]"

definition a_unlink :: "nat \<Rightarrow> int \<Rightarrow> byte list \<Rightarrow> afs \<Rightarrow> (answer \<times> afs) option" where
  "a_unlink n p name s =
     (if \<not> terminated name then None
      else if cstr name \<in> {[46], [46, 46]} then refused s
      else case node_at n s p of
        None \<Rightarrow> refused s
      | Some (Dir l) \<Rightarrow>
          (case map_of l (cstr name) of
             None \<Rightarrow> refused s
           | Some k \<Rightarrow>
               (case node_at n s k of
                  Some (Dir l') \<Rightarrow> if length l' \<noteq> 2 then refused s else None
                | Some (File []) \<Rightarrow>
                    if last l = (cstr name, k) \<and> (length l - 1) mod 128 \<noteq> 0 \<and> k \<notin> snd ` set (butlast l) \<and>
                      listed n s k = [nat p]
                    then Some ((Some 0, []), (fst s)(nat k := None, nat p \<mapsto> Dir (butlast l)), snd s)
                    else None
                | _ \<Rightarrow> None))
      | _ \<Rightarrow> None)"

primrec afs_call :: "nat \<Rightarrow> host_op \<Rightarrow> afs \<Rightarrow> (answer \<times> afs) option" where
  "afs_call n (Op_lookup pinum name) s = a_lookup n pinum name s"
| "afs_call n (Op_creat pinum type name) s = a_creat n pinum type name s"
| "afs_call n (Op_write inum buf offset nbytes) s = a_write n inum buf offset nbytes s"
| "afs_call n (Op_read inum offset nbytes) s = a_read n inum offset nbytes s"
| "afs_call n (Op_unlink pinum name) s = a_unlink n pinum name s"
| "afs_call n Op_remount s = Some ((Some 0, []), s)"

section \<open>Every answer is the program's\<close>

definition afs_rel :: "nat \<Rightarrow> afs \<Rightarrow> host_file ufs \<Rightarrow> bool" where
  "afs_rel n s nfs \<longleftrightarrow> host_committed nfs \<and> nat (num_inodes (fs_s nfs)) = n \<and> host_abs nfs = fst s \<and>
     length (free_blocks nfs) = snd s"

lemma afs_relD:
  assumes "afs_rel n s nfs"
  shows "host_fs_ok nfs" "host_abs nfs = fst s" "nat (num_inodes (fs_s nfs)) = n" "num_inodes (fs_s nfs) = int n"
    "length (free_blocks nfs) = snd s"
proof -
  show ok: "host_fs_ok nfs" and "host_abs nfs = fst s" and n: "nat (num_inodes (fs_s nfs)) = n" and "length (free_blocks nfs) = snd s"
    using assms by (simp_all add: afs_rel_def host_committed_def)
  have "layout_ok (fs_s nfs) (hf_len (fs_disk nfs))" using ok by (simp add: host_fs_ok_def fs_wf_def)
  then show "num_inodes (fs_s nfs) = int n" using layout_counts(3) n by metis
qed

text \<open>The file offset is not part of the relation.\<close>

lemma afs_rel_same:
  assumes "afs_rel n s nfs" and "host.same (fs_disk nfs) d'"
  shows "afs_rel n s (nfs\<lparr>fs_disk := d'\<rparr>)"
  using assms hfs.fs_ok_same [unfolded host_fs_simps, of nfs d']
  by (auto simp: afs_rel_def host_committed_def host.same_def free_blocks_def host_abs_def synced_def Let_def)

lemma afs_rel_refl_same: "afs_rel n s nfs \<Longrightarrow> host.same (fs_disk nfs) (fs_disk nfs)"
  by (simp add: afs_rel_def host_committed_def host_fs_ok_def host.same_def)

lemma node_at_Some: "node_at n s p = Some nd \<Longrightarrow> \<exists>i. p = int i \<and> i < n \<and> fst s i = Some nd"
  by (auto simp: node_at_def split: if_splits intro: exI [of _ "nat p"])

lemma node_at_None:
  assumes "afs_rel n s nfs" and "node_at n s p = None"
  shows "p < 0 \<or> num_inodes (fs_s nfs) \<le> p \<or> host_abs nfs (nat p) = None"
  using assms(2) afs_relD(2,4) [OF assms(1)] by (auto simp: node_at_def not_less split: if_splits)

lemma refused_sim: "refused s = Some (r, s') \<Longrightarrow> r = (Some (- 1), []) \<and> s' = s"
  by (auto simp: refused_def)

lemma host_alloc_bit:
  assumes "afs_rel n s nfs" and "0 \<le> p" and "p < int n"
  shows "get_bitmap (inode_bp nfs) p = Ok (if fst s (nat p) = None then 0 else 1)" and "nat p < length (inodes nfs)"
proof -
  note r = afs_relD [OF assms(1)]
  obtain i where i: "p = int i" "i < nat (num_inodes (fs_s nfs))" using assms(2,3) r(3) nonneg_int_cases by fastforce
  show "get_bitmap (inode_bp nfs) p = Ok (if fst s (nat p) = None then 0 else 1)"
    using host_in_table [OF r(1) i(2)] i by (auto simp: get_bitmap_eq r(2) [symmetric] host_abs_def fs_abs_def alloc_def)
  show "nat p < length (inodes nfs)" using r(1) i by (simp add: host_fs_ok_def fs_wf_def tables_ok_def)
qed

lemma host_not_dir: "host_abs nfs i = Some nd \<Longrightarrow> \<forall>l. nd \<noteq> Dir l \<Longrightarrow> i_type (inodes nfs ! i) \<noteq> UFS_DIRECTORY"
  by (auto simp: host_abs_def fs_abs_def node_of_def split: if_splits)

text \<open>The entries of a directory.\<close>

lemma host_entry:
  assumes "host_fs_ok nfs" and "host_abs nfs i = Some (Dir l)"
  shows "(nm, k) \<in> set l \<Longrightarrow> 0 \<le> k \<and> k < num_inodes (fs_s nfs) \<and> host_abs nfs (nat k) \<noteq> None" and "distinct (map fst l)"
proof -
  let ?c = "hf_bytes (fs_disk nfs)" and ?ino = "inodes nfs ! i"
  have wf: "fs_wf ?c (hf_len (fs_disk nfs)) nfs" using assms(1) by (simp add: host_fs_ok_def)
  note d = host_dirD [OF assms(2)]
  have w: "dir_wf ?c (nat (num_inodes (fs_s nfs))) (inode_bp nfs) ?ino" using dir_wf_ok(1) [OF wf d(1,2)] .
  then show "distinct (map fst l)" by (simp add: dir_wf_def d(3))
  assume "(nm, k) \<in> set l"
  then obtain j where "j < dir_size ?ino" "k = de_inum (slot ?c (i_direct ?ino) j)"
    using d(3) by (auto simp: dir_list_slot)
  then have "0 \<le> k" "nat k < nat (num_inodes (fs_s nfs))" "bm_bit (inode_bp nfs) (nat k)"
    using w by (simp_all add: dir_wf_def entry_wf_def)
  then show "0 \<le> k \<and> k < num_inodes (fs_s nfs) \<and> host_abs nfs (nat k) \<noteq> None"
    by (auto simp: host_abs_def fs_abs_def alloc_def)
qed

lemma lookup_sim:
  assumes "afs_rel n s nfs" and "a_lookup n p name s = Some (r, s')"
  shows "\<exists>nfs'. host_call j1 j2 j (Op_lookup p name) nfs = Ok (r, nfs') \<and> afs_rel n s' nfs'"
proof -
  note r = afs_relD [OF assms(1)]
  have name: "terminated name" and s': "s' = s" using assms(2) by (auto simp: a_lookup_def split: if_splits option.splits node.splits)
  show ?thesis
  proof (cases "0 \<le> p \<and> p < int n")
    case False
    then have "r = (Some (- 2), [])" using assms(2) by (auto simp: a_lookup_def split: if_splits)
    then show ?thesis using False assms(1) s' r(4) by (auto simp: host_ufs_lookup_def ufs_lookup_def)
  next
    case True
    note b = host_alloc_bit [OF assms(1), of p]
    have at: "node_at n s p = fst s (nat p)" using True by (simp add: node_at_def)
    consider "fst s (nat p) = None" | l where "fst s (nat p) = Some (Dir l)" | nd where "fst s (nat p) = Some nd" "\<forall>l. nd \<noteq> Dir l"
      by (metis not_None_eq)
    then show ?thesis
    proof cases
      case 1
      then have "r = (Some (- 3), [])" using assms(2) True at by (auto simp: a_lookup_def split: if_splits)
      then show ?thesis using 1 True b assms(1) s' r(4) by (auto simp: host_ufs_lookup_def ufs_lookup_def)
    next
      case (2 l)
      obtain d' where "ufs_lookup host_platform host_driver nfs (int (nat p)) name =
          Ok (case map_of l (cstr name) of Some k \<Rightarrow> k | None \<Rightarrow> - 1, nfs\<lparr>fs_disk := d'\<rparr>)" "host.same (fs_disk nfs) d'"
        using hfs.lookup_wf [unfolded host_fs_simps, OF r(1) _ name, of "nat p" l] r(2) 2 by auto
      then show ?thesis using assms True at 2 s' by (auto simp: host_ufs_lookup_def a_lookup_def intro: afs_rel_same split: if_splits)
    next
      case (3 nd)
      then have "i_type (inodes nfs ! nat p) \<noteq> UFS_DIRECTORY" using host_not_dir [of nfs "nat p" nd] r(2) by simp
      moreover have "r = (Some (- 4), [])" using assms(2) True at 3 by (auto simp: a_lookup_def split: if_splits node.splits)
      ultimately show ?thesis
        using 3 True b assms(1) s' r(4) by (auto simp: host_ufs_lookup_def ufs_lookup_def arr_get_def)
    qed
  qed
qed

lemma creat_refused_sim:
  assumes "afs_rel n s nfs" and "terminated name"
    and "p < 0 \<or> num_inodes (fs_s nfs) \<le> p \<or> (\<forall>l. host_abs nfs (nat p) \<noteq> Some (Dir l)) \<or>
      27 < length (cstr name) \<or> free_inodes nfs = [] \<or>
      (\<exists>l k. host_abs nfs (nat p) = Some (Dir l) \<and> map_of l (cstr name) = Some (int k))"
  shows "refused s = Some (r, s') \<Longrightarrow> \<exists>nfs'. host_call j1 j2 j (Op_creat p type name) nfs = Ok (r, nfs') \<and> afs_rel n s' nfs'"
proof -
  obtain d' where "ufs_creat host_platform host_driver j nfs p type name = Ok (- 1, nfs\<lparr>fs_disk := d'\<rparr>)"
    "host.same (fs_disk nfs) d'"
    using hfs.ufs_creat_refuses [unfolded host_fs_simps, OF afs_relD(1) [OF assms(1)] assms(2,3), of j type] by blast
  then show "refused s = Some (r, s') \<Longrightarrow> \<exists>nfs'. host_call j1 j2 j (Op_creat p type name) nfs = Ok (r, nfs') \<and> afs_rel n s' nfs'"
    using afs_rel_same [OF assms(1)] by (auto simp: host_ufs_creat_def refused_def)
qed

lemma creat_sim:
  assumes "afs_rel n s nfs" and "a_creat n p type name s = Some (r, s')"
  shows "\<exists>nfs'. host_call j1 j2 j (Op_creat p type name) nfs = Ok (r, nfs') \<and> afs_rel n s' nfs'"
proof -
  note rel = afs_relD [OF assms(1)]
  have name: "terminated name" "is_int32 type" using assms(2) by (auto simp: a_creat_def split: if_splits)
  have free: "free_inodes nfs = filter (\<lambda>j. fst s j = None) [0..<n]" using rel(2,3) host_free_inodes by metis
  note no = creat_refused_sim [OF assms(1) name(1), where j = j and type = type and ?j1.0 = j1 and ?j2.0 = j2]
  show ?thesis
  proof (cases "\<exists>l. node_at n s p = Some (Dir l)")
    case False
    then have "p < 0 \<or> num_inodes (fs_s nfs) \<le> p \<or> (\<forall>l. host_abs nfs (nat p) \<noteq> Some (Dir l))"
      using rel(2,4) by (auto simp: node_at_def split: if_splits)
    moreover have "refused s = Some (r, s')" using assms(2) False name by (auto simp: a_creat_def split: option.splits node.splits)
    ultimately show ?thesis by (intro no) auto
  next
    case True
    then obtain l i where l: "node_at n s p = Some (Dir l)" "p = int i" "fst s i = Some (Dir l)" using node_at_Some by blast
    then have dir: "host_abs nfs i = Some (Dir l)" using rel(2) by simp
    consider "27 < length (cstr name) \<or> free_inodes nfs = []" | "cstr name \<in> fst ` set l"
      | ei rest where "length (cstr name) \<le> 27" "cstr name \<notin> fst ` set l" "free_inodes nfs = ei # rest"
      by (metis list.exhaust not_le)
    then show ?thesis
    proof cases
      case 1
      then have "refused s = Some (r, s')" using assms(2) l(1) name free by (auto simp: a_creat_def split: if_splits)
      then show ?thesis using 1 by (intro no) auto
    next
      case 2
      then obtain k where k: "map_of l (cstr name) = Some k" by (metis map_of_eq_None_iff not_Some_eq)
      then have "0 \<le> k" using host_entry(1) [OF rel(1) dir] map_of_SomeD by fast
      then obtain k' where "map_of l (cstr name) = Some (int k')" using k nonneg_int_cases by metis
      moreover have "refused s = Some (r, s')" using assms(2) l(1) name 2 by (auto simp: a_creat_def split: if_splits)
      ultimately show ?thesis using dir l(2) by (intro no) auto
    next
      case (3 ei rest)
      then have a: "length l < 3840" "blocks_needed type (length l) \<le> snd s" "r = (None, [])"
        "s' = ((fst s)(ei \<mapsto> new_node type ei i, i \<mapsto> Dir (l @ [(cstr name, int ei)])), snd s - blocks_needed type (length l))"
        using assms(2) l(1,2) name free by (auto simp: a_creat_def split: if_splits)
      obtain nfs' where "host_ufs_creat j nfs (int i) type name = Ok (None, nfs')" "host_committed nfs'"
        "host_abs nfs' = (host_abs nfs)(ei \<mapsto> new_node type ei i, i \<mapsto> Dir (l @ [(cstr name, int ei)]))"
        "fs_s nfs' = fs_s nfs" "free_blocks nfs' = drop (blocks_needed type (length l)) (free_blocks nfs)"
        using host_creat_step [OF rel(1) dir _ name(1) 3 name(2), of j] a(1,2) rel(5) by auto
      then show ?thesis using a(3,4) l(2) rel by (auto simp: afs_rel_def)
    qed
  qed
qed

lemma write_sim:
  assumes "afs_rel n s nfs" and "a_write n i buf off k s = Some (r, s')"
  shows "\<exists>nfs'. host_call j1 j2 j (Op_write i buf off k) nfs = Ok (r, nfs') \<and> afs_rel n s' nfs'"
proof -
  note rel = afs_relD [OF assms(1)]
  show ?thesis
  proof (cases "\<exists>h l. i = int h \<and> host_abs nfs h = Some (File l) \<and> 0 \<le> off \<and> off \<le> int (length l) \<and> 0 < k \<and> k \<le> 4096")
    case False
    then have "refused s = Some (r, s')"
      using assms(2) rel(2) by (auto simp: a_write_def dest!: node_at_Some split: option.splits node.splits if_splits)
    then show ?thesis
      using host_write_refused [OF rel(1) False, of buf] assms(1) by (auto simp: refused_def)
  next
    case True
    then obtain h l where h: "i = int h" "host_abs nfs h = Some (File l)" "0 \<le> off" "off \<le> int (length l)" "0 < k" "k \<le> 4096"
      by blast
    then have "alloc nfs h" using host_fileD(1) by blast
    then have at: "node_at n s i = Some (File l)" using h(1,2) rel(2,3) by (auto simp: node_at_def alloc_def)
    then have w: "off = int (length l)" "nat k \<le> length buf" "length l + nat k \<le> 122880" "append_blocks (length l) (nat k) \<le> snd s"
      "r = (Some 0, [])" "s' = ((fst s)(h \<mapsto> File (l @ take (nat k) buf)), snd s - append_blocks (length l) (nat k))"
      using assms(2) h(1,3-6) by (auto simp: a_write_def split: if_splits)
    have "nat k \<le> 4096" "0 < nat k" using h(5,6) by (simp_all add: nat_le_iff)
    then obtain nfs' where "host_ufs_write nfs (int h) buf (int (length l)) (int (nat k)) = Ok (0, nfs')" "host_committed nfs'"
      "host_abs nfs' = (host_abs nfs)(h \<mapsto> File (l @ take (nat k) buf))" "fs_s nfs' = fs_s nfs"
      "free_blocks nfs' = drop (append_blocks (length l) (nat k)) (free_blocks nfs)"
      using host_write_step [OF rel(1) h(2), of "nat k" buf] h(5,6) w(2-4) rel(5) by auto
    then show ?thesis using w(1,5,6) h(1,5) rel by (auto simp: afs_rel_def)
  qed
qed

lemma read_sim:
  assumes "afs_rel n s nfs" and "a_read n i off k s = Some (r, s')"
  shows "\<exists>nfs'. host_call j1 j2 j (Op_read i off k) nfs = Ok (r, nfs') \<and> afs_rel n s' nfs'"
proof (cases "node_at n s i")
  case None
  then have "refused s = Some (r, s')" using assms(2) by (simp add: a_read_def)
  moreover have "host_ufs_read nfs i off k = Ok (- 1, [], nfs)"
    using None host_alloc_bit(1) [OF assms(1), of i] afs_relD(4) [OF assms(1)]
    by (auto simp: host_ufs_read_def ufs_read_def node_at_def split: if_splits)
  ultimately show ?thesis using assms(1) by (auto simp: refused_def)
next
  case (Some nd)
  then obtain l where l: "nd = File l" using assms(2) by (cases nd) (auto simp: a_read_def)
  obtain h' where "i = int h'" "fst s h' = Some nd" using node_at_Some [OF Some] by blast
  then obtain h where h: "nd = File l" "i = int h" "host_abs nfs h = Some (File l)"
    using l afs_relD(2) [OF assms(1)] by simp
  note ok = afs_relD(1) [OF assms(1)]
  show ?thesis
  proof (cases "off < 0 \<or> k \<le> 0 \<or> is_int32 (off + k) \<and> int (length l) < off + k")
    case True
    then have "refused s = Some (r, s')" using assms(2) Some h(1) by (auto simp: a_read_def split: if_splits)
    then show ?thesis using host_read_refused [OF ok h(3) True] assms(1) h(2) by (auto simp: refused_def)
  next
    case False
    then have r: "r = (Some 0, take (nat k) (drop (nat off) l))" "s' = s" "off + k \<le> int (length l)"
      using assms(2) Some h(1) by (auto simp: a_read_def split: if_splits)
    have "nat off + nat k \<le> length l" using r(3) False by (simp add: nat_add_distrib [symmetric] nat_le_iff)
    then obtain d' where "ufs_read host_driver nfs (int h) (int (nat off)) (int (nat k)) =
        Ok (0, take (nat k) (drop (nat off) l), nfs\<lparr>fs_disk := d'\<rparr>)" "host.same (fs_disk nfs) d'"
      using host.ufs_read_file [unfolded host_fs_simps, OF ok h(3), of "nat k" "nat off"] False by auto
    then show ?thesis using afs_rel_same [OF assms(1)] False h(2) r(1,2) by (auto simp: host_ufs_read_def)
  qed
qed

lemma remount_sim:
  assumes "afs_rel n s nfs"
  shows "\<exists>nfs'. host_call j1 j2 j Op_remount nfs = Ok ((Some 0, []), nfs') \<and> afs_rel n s nfs'"
proof -
  let ?d = "(fs_disk nfs)\<lparr>hf_pos := 0\<rparr>"
  have c: "host_fs_ok nfs" "synced (hf_bytes (fs_disk nfs)) nfs" using assms by (simp_all add: afs_rel_def host_committed_def)
  have d: "host_ok ?d" "hf_pos ?d = 0" "hf_bytes ?d = hf_bytes (fs_disk nfs)" "hf_len ?d = hf_len (fs_disk nfs)"
    using c(1) by (simp_all add: host_fs_ok_def host_ok_def)
  obtain nfs' where "ufs_init host_platform host_driver j1 j2 ?d = Ok nfs'" "host_fs_ok nfs'" "fs_s nfs' = fs_s nfs"
    "data_bp nfs' = data_bp nfs" "synced (hf_bytes (fs_disk nfs')) nfs'" "host_abs nfs' = host_abs nfs"
    using hfs.remount_ok [unfolded host_fs_simps, OF c d, of j1 j2] by blast
  then show ?thesis using assms by (auto simp: host_ufs_init_def afs_rel_def host_committed_def free_blocks_def)
qed

text \<open>An empty file has no block.\<close>

lemma empty_file_ptrs:
  assumes "host_fs_ok nfs" and "host_abs nfs j = Some (File [])" and "p \<in> set (i_direct (inodes nfs ! j))"
  shows "p = - 1"
proof -
  have wf: "fs_wf (hf_bytes (fs_disk nfs)) (hf_len (fs_disk nfs)) nfs" using assms(1) by (simp add: host_fs_ok_def)
  note f = host_file_facts [OF assms(1,2)] and i = fs_wfD [OF wf host_fileD(1) [OF assms(2)]]
  have "length (i_direct (inodes nfs ! j)) = 30" using i(4) by (simp add: inode_typed_def)
  moreover have "file_wf (inodes nfs ! j)" using i(1) f(4) by (simp add: node_wf_def)
  ultimately show ?thesis using assms(3) f(5) by (auto simp: file_wf_def in_set_conv_nth)
qed

lemma unlink_refused_sim:
  assumes "afs_rel n s nfs" and "terminated name"
    and "p < 0 \<or> num_inodes (fs_s nfs) \<le> p \<or> host_abs nfs (nat p) = None \<or> cstr name \<in> {[46], [46, 46]} \<or>
      (\<exists>l. host_abs nfs (nat p) = Some (Dir l) \<and> (map_of l (cstr name) = None \<or>
        (\<exists>k l'. map_of l (cstr name) = Some (int k) \<and> host_abs nfs k = Some (Dir l') \<and> length l' \<noteq> 2)))"
  shows "refused s = Some (r, s') \<Longrightarrow> \<exists>nfs'. host_call j1 j2 j (Op_unlink p name) nfs = Ok (r, nfs') \<and> afs_rel n s' nfs'"
  using host_unlink_refused [OF afs_relD(1) [OF assms(1)] assms(2,3), of j] afs_rel_same [OF assms(1)]
  by (auto simp: refused_def)

lemma unlink_done_sim:
  assumes "afs_rel n s nfs" and "terminated name" and "cstr name \<notin> {[46], [46, 46]}"
    and "fst s i = Some (Dir l)" and "fst s k = Some (File [])" and "l \<noteq> []" and "last l = (cstr name, int k)"
    and "(length l - 1) mod 128 \<noteq> 0" and "int k \<notin> snd ` set (butlast l)" and "listed n s (int k) = [i]"
  shows "\<exists>nfs'. host_call j1 j2 j (Op_unlink (int i) name) nfs = Ok ((Some 0, []), nfs') \<and>
    afs_rel n ((fst s)(k := None, i \<mapsto> Dir (butlast l)), snd s) nfs'"
proof -
  note rel = afs_relD [OF assms(1)]
  have l: "butlast l @ [(cstr name, int k)] = l" using assms(6,7) append_butlast_last_id by metis
  have "h = i" if "host_abs nfs h = Some (Dir l')" "int k \<in> snd ` set l'" for h l'
  proof -
    have "h < n" using host_dirD(1) [OF that(1)] rel(3) by (simp add: alloc_def)
    then have "h \<in> set (listed n s (int k))" using that rel(2) by (simp add: listed_def)
    then show ?thesis using assms(10) by simp
  qed
  moreover have "host_abs nfs i = Some (Dir (butlast l @ [(cstr name, int k)]))" unfolding l using assms(4) rel(2) by simp
  moreover have f: "host_abs nfs k = Some (File [])" using assms(5) rel(2) by simp
  moreover have "\<forall>p \<in> set (i_direct (inodes nfs ! k)). p \<noteq> - 1 \<longrightarrow> unat p \<in> set (free_blocks nfs)"
    using empty_file_ptrs [OF rel(1) f] by blast
  moreover have "cstr name \<noteq> [46]" "cstr name \<noteq> [46, 46]" "length (butlast l) mod 128 \<noteq> 0" using assms(3,8) by simp_all
  ultimately obtain nfs' where u: "ufs_unlink host_platform host_driver j nfs (int i) name = Ok (0, nfs')"
    "host.done_with nfs ((host_abs nfs)(k := None, i \<mapsto> Dir (butlast l))) nfs'" "free_blocks nfs' = free_blocks nfs"
    using hfs.unlink_last_ok [unfolded host_fs_simps, OF rel(1), of i "butlast l" name k "[]" j] assms(2,9) by blast
  show ?thesis
    using u(1,3) host_done [OF u(2)] host_done_s [OF u(2)] rel(2,3,5)
    by (intro exI [of _ nfs']) (simp add: host_ufs_unlink_def afs_rel_def)
qed

lemma unlink_sim:
  assumes "afs_rel n s nfs" and "a_unlink n p name s = Some (r, s')"
  shows "\<exists>nfs'. host_call j1 j2 j (Op_unlink p name) nfs = Ok (r, nfs') \<and> afs_rel n s' nfs'"
proof -
  note rel = afs_relD [OF assms(1)]
  have name: "terminated name" using assms(2) by (auto simp: a_unlink_def split: if_splits)
  note no = unlink_refused_sim [OF assms(1) name, where j = j and ?j1.0 = j1 and ?j2.0 = j2]
  show ?thesis
  proof (cases "cstr name \<in> {[46], [46, 46]} \<or> node_at n s p = None")
    case True
    then have "refused s = Some (r, s')" using assms(2) name by (auto simp: a_unlink_def split: if_splits)
    then show ?thesis using True node_at_None [OF assms(1)] by (intro no) blast+
  next
    case False
    then obtain l where l: "node_at n s p = Some (Dir l)"
      using assms(2) name by (auto simp: a_unlink_def split: node.splits)
    then obtain i where i: "p = int i" "fst s i = Some (Dir l)" using node_at_Some by blast
    have dir: "host_abs nfs (nat p) = Some (Dir l)" using i rel(2) by simp
    show ?thesis
    proof (cases "map_of l (cstr name)")
      case None
      then have "refused s = Some (r, s')" using assms(2) name False l by (auto simp: a_unlink_def)
      then show ?thesis using dir None by (intro no) blast+
    next
      case (Some e)
      then have mem: "(cstr name, e) \<in> set l" by (rule map_of_SomeD)
      then have "0 \<le> e" using host_entry(1) [OF rel(1) dir] by blast
      then obtain k where k: "e = int k" using nonneg_int_cases by blast
      from assms(2) name False l Some i(1) k consider l' where "node_at n s (int k) = Some (Dir l')" "length l' \<noteq> 2" "refused s = Some (r, s')"
        | "node_at n s (int k) = Some (File [])" "last l = (cstr name, int k)" "(length l - 1) mod 128 \<noteq> 0"
          "int k \<notin> snd ` set (butlast l)" "listed n s (int k) = [i]" "r = (Some 0, [])"
          "s' = ((fst s)(k := None, i \<mapsto> Dir (butlast l)), snd s)"
        by (auto simp: a_unlink_def split: option.splits node.splits list.splits if_splits)
      then show ?thesis
      proof cases
        case (1 l')
        then have "host_abs nfs k = Some (Dir l')" using node_at_Some rel(2) by fastforce
        then show ?thesis using dir Some k 1(2,3) by (intro no) blast+
      next
        case 2
        have "l \<noteq> []" using mem by auto
        moreover have "fst s k = Some (File [])" using 2(1) node_at_Some by fastforce
        ultimately show ?thesis
          using unlink_done_sim [OF assms(1) name _ i(2) _ _ 2(2-5), of j1 j2 j] False i(1) 2(6,7) by auto
      qed
    qed
  qed
qed

interpretation image: call_refinement "afs_rel n" "afs_call n" "host_call j1 j2 j" for n j1 j2 j
proof
  fix a c op r a'
  assume rel: "afs_rel n a c" and op: "afs_call n op a = Some (r, a')"
  show "\<exists>c'. host_call j1 j2 j op c = Ok (r, c') \<and> afs_rel n a' c'"
  proof (cases op)
    case (Op_lookup p name)
    show ?thesis unfolding Op_lookup by (rule lookup_sim [OF rel]) (use op Op_lookup in simp)
  next
    case (Op_creat p type name)
    show ?thesis unfolding Op_creat by (rule creat_sim [OF rel]) (use op Op_creat in simp)
  next
    case (Op_write i buf off k)
    show ?thesis unfolding Op_write by (rule write_sim [OF rel]) (use op Op_write in simp)
  next
    case (Op_read i off k)
    show ?thesis unfolding Op_read by (rule read_sim [OF rel]) (use op Op_read in simp)
  next
    case (Op_unlink p name)
    show ?thesis unfolding Op_unlink by (rule unlink_sim [OF rel]) (use op Op_unlink in simp)
  next
    case Op_remount
    then show ?thesis using remount_sim [OF rel, of j1 j2 j] op by auto
  qed
qed

section \<open>Properties\<close>

text \<open>
  C13: whatever sequence of calls a program makes on a committed image, refused calls included, and wherever it
  closes and reopens the image in between: as long as the abstract file system has an answer for each call, the
  operations of fs/ufs.c return, give the same results and the same bytes, and end in a committed image whose nodes and
  number of free blocks are those of the abstract file system, for every content of the uninitialised memory. (The
  abstract file system has no answer for an unterminated name, a write inside a file, longer than its buffer, beyond
  30 blocks or beyond the free blocks, a read of a directory or with an overflow, a creation in a full directory or
  on a full disk, and a removal other than that of an empty file which is the last entry of its directory, is
  not alone in its block and is listed once.)
\<close>

theorem host_calls_refine:
  assumes "host_committed nfs"
    and "spec_calls (afs_call (nat (num_inodes (fs_s nfs)))) ops (host_abs nfs, length (free_blocks nfs)) = Some (rs, a, b)"
  shows "\<exists>nfs'. run_calls (host_call junk1 junk2 junk) ops nfs = Ok (rs, nfs') \<and> host_committed nfs' \<and>
    host_abs nfs' = a \<and> length (free_blocks nfs') = b"
proof -
  have "afs_rel (nat (num_inodes (fs_s nfs))) (host_abs nfs, length (free_blocks nfs)) nfs"
    using assms(1) by (simp add: afs_rel_def)
  then obtain nfs' where "run_calls (host_call junk1 junk2 junk) ops nfs = Ok (rs, nfs')"
    "afs_rel (nat (num_inodes (fs_s nfs))) (a, b) nfs'"
    using image.calls_sim [OF _ assms(2)] by blast
  then show ?thesis by (auto simp: afs_rel_def)
qed

text \<open>On the empty image: two files, a refused name, a text, a remount, a read, a removal and a lookup of what is gone.\<close>

definition some_calls :: "host_op list" where
  "some_calls = [Op_creat 0 1 [102, 0], Op_creat 0 1 [103, 0], Op_creat 0 0 [102, 0], Op_write 1 [104, 105, 33] 0 3, Op_remount,
     Op_read 1 1 2, Op_unlink 0 [103, 0], Op_lookup 0 [103, 0], Op_lookup 0 [102, 0]]"

definition some_answers :: "answer list" where
  "some_answers = [(None, []), (None, []), (Some (- 1), []), (Some 0, []), (Some 0, []), (Some 0, [105, 33]), (Some 0, []),
     (Some (- 1), []), (Some 1, [])]"

lemma some_calls:
  "spec_calls (afs_call 32) some_calls ([0 \<mapsto> Dir [([46], 0), ([46, 46], 0)]], 31) =
    Some (some_answers, [0 \<mapsto> Dir [([46], 0), ([46, 46], 0), ([102], 1)], 1 \<mapsto> File [104, 105, 33]], 30)"
proof -
  let ?s0 = "([0 \<mapsto> Dir [([46], 0), ([46, 46], 0)]], 31) :: afs"
    and ?s1 = "([0 \<mapsto> Dir [([46], 0), ([46, 46], 0), ([102], 1)], 1 \<mapsto> File []], 31) :: afs"
    and ?s2 = "([0 \<mapsto> Dir [([46], 0), ([46, 46], 0), ([102], 1), ([103], 2)], 1 \<mapsto> File [], 2 \<mapsto> File []], 31) :: afs"
    and ?s3 = "([0 \<mapsto> Dir [([46], 0), ([46, 46], 0), ([102], 1), ([103], 2)], 1 \<mapsto> File [104, 105, 33], 2 \<mapsto> File []], 30) :: afs"
    and ?s4 = "([0 \<mapsto> Dir [([46], 0), ([46, 46], 0), ([102], 1)], 1 \<mapsto> File [104, 105, 33]], 30) :: afs"
  note defs = node_at_def refused_def new_node_def blocks_needed_def UFS_DIRECTORY_def UFS_REGULAR_FILE_def is_int32_def upt_rec
  have "a_creat 32 0 1 [102, 0] ?s0 = Some ((None, []), ?s1)"
    by (simp add: a_creat_def defs) (simp add: fun_eq_iff)
  moreover have "a_creat 32 0 1 [103, 0] ?s1 = Some ((None, []), ?s2)"
    by (simp add: a_creat_def defs) (simp add: fun_eq_iff)
  moreover have "a_creat 32 0 0 [102, 0] ?s2 = Some ((Some (- 1), []), ?s2)"
    by (simp add: a_creat_def defs)
  moreover have "a_write 32 1 [104, 105, 33] 0 3 ?s2 = Some ((Some 0, []), ?s3)"
    by (simp add: a_write_def node_at_def append_blocks_def) (simp add: fun_eq_iff)
  moreover have "a_read 32 1 1 2 ?s3 = Some ((Some 0, [105, 33]), ?s3)"
    by (simp add: a_read_def node_at_def is_int32_def)
  moreover have "a_unlink 32 0 [103, 0] ?s3 = Some ((Some 0, []), ?s4)"
    by (simp add: a_unlink_def node_at_def listed_def upt_rec) (simp add: fun_eq_iff)
  moreover have "a_lookup 32 0 [103, 0] ?s4 = Some ((Some (- 1), []), ?s4)" "a_lookup 32 0 [102, 0] ?s4 = Some ((Some 1, []), ?s4)"
    by (simp_all add: a_lookup_def node_at_def)
  ultimately show ?thesis by (simp add: some_calls_def some_answers_def)
qed

lemma host_calls_refine_witness:
  "\<exists>nfs'. run_calls (host_call (\<lambda>_. 5) (\<lambda>_. 9) (\<lambda>_. 7)) some_calls fresh_fs = Ok (some_answers, nfs') \<and> host_committed nfs' \<and>
    host_abs nfs' = [0 \<mapsto> Dir [([46], 0), ([46, 46], 0), ([102], 1)], 1 \<mapsto> File [104, 105, 33]] \<and> length (free_blocks nfs') = 30"
proof (rule host_calls_refine [OF fresh_fs(3)])
  have "nat (num_inodes (fs_s fresh_fs)) = 32" "length (free_blocks fresh_fs) = 31"
    by (simp_all add: fresh_fs(7,8) default_super_def)
  then show "spec_calls (afs_call (nat (num_inodes (fs_s fresh_fs)))) some_calls (host_abs fresh_fs, length (free_blocks fresh_fs)) =
    Some (some_answers, [0 \<mapsto> Dir [([46], 0), ([46, 46], 0), ([102], 1)], 1 \<mapsto> File [104, 105, 33]], 30)"
    using some_calls by (simp only: fresh_fs(5))
qed

end
