(* ===== verification/MkfsMain.thy ===== *)
theory MkfsMain
  imports Host IntStr
begin

text \<open>
  \<open>main\<close> of fs/mkfs.c around the writing of the image: its options, its messages on standard
  output and the picture of the layout.
\<close>

section \<open>The options\<close>

text \<open>What one call of \<open>getopt\<close> finds: an option of the list "i:d:f:v" with its argument, or anything else.\<close>

datatype mkfs_opt = Opt_i string | Opt_d string | Opt_f string | Opt_v | Opt_unknown

record mkfs_args =
  image_file :: "string option"
  arg_inodes :: int
  arg_data :: int
  visual :: bool

definition mkfs_defaults :: mkfs_args where
  "mkfs_defaults = \<lparr>image_file = None, arg_inodes = 32, arg_data = 32, visual = False\<rparr>"

text \<open>\<open>atoi\<close> of the C library: undefined when the value is not an \<open>int\<close>.\<close>

definition char_digit :: "char \<Rightarrow> bool" where
  "char_digit c \<longleftrightarrow> 48 \<le> (of_char c :: nat) \<and> (of_char c :: nat) \<le> 57"

definition char_space :: "char \<Rightarrow> bool" where
  "char_space c \<longleftrightarrow> of_char c = (32 :: nat) \<or> 9 \<le> (of_char c :: nat) \<and> (of_char c :: nat) \<le> 13"

definition atoi_value :: "string \<Rightarrow> int" where
  "atoi_value s = foldl (\<lambda>n c. 10 * n + (of_char c - 48)) 0 (takeWhile char_digit s)"

definition atoi :: "string \<Rightarrow> int res" where
  "atoi s = int32 (case dropWhile char_space s of
       [] \<Rightarrow> 0
     | c # r \<Rightarrow> if c = CHR ''-'' then - atoi_value r else if c = CHR ''+'' then atoi_value r else atoi_value (c # r))"

text \<open>The loop; \<open>usage\<close> prints to standard error and calls \<open>exit(1)\<close>.\<close>

fun parse_opts :: "mkfs_opt list \<Rightarrow> mkfs_args \<Rightarrow> mkfs_args res" where
  "parse_opts [] a = Ok a"
| "parse_opts (Opt_i s # os) a = bindr (atoi s) (\<lambda>n. parse_opts os (a\<lparr>arg_inodes := n\<rparr>))"
| "parse_opts (Opt_d s # os) a = bindr (atoi s) (\<lambda>n. parse_opts os (a\<lparr>arg_data := n\<rparr>))"
| "parse_opts (Opt_f s # os) a = parse_opts os (a\<lparr>image_file := Some s\<rparr>)"
| "parse_opts (Opt_v # os) a = parse_opts os (a\<lparr>visual := True\<rparr>)"
| "parse_opts (Opt_unknown # os) a = Err Aborted"

section \<open>Standard output\<close>

text \<open>\<open>%d\<close> and \<open>%lu\<close> of the C library.\<close>

definition dec_text :: "int \<Rightarrow> string" where
  "dec_text i = (if i < 0 then ''-'' else []) @ map (\<lambda>d. char_of (48 + d)) (digits 10 (nat \<bar>i\<bar>))"

definition mkfs_report :: "super_t \<Rightarrow> int \<Rightarrow> int \<Rightarrow> int \<Rightarrow> string" where
  "mkfs_report s ni nd blocks =
     ''total blocks        '' @ dec_text blocks @ [CHR 0x0A] @
     ''  inodes            '' @ dec_text ni @ '' [size of each: '' @ dec_text 128 @ '']'' @ [CHR 0x0A] @
     ''  data blocks       '' @ dec_text nd @ [CHR 0x0A] @
     ''layout details'' @ [CHR 0x0A] @
     ''  inode bitmap address/len '' @ dec_text (inode_bitmap_addr s) @ '' ['' @ dec_text (inode_bitmap_len s) @ '']'' @ [CHR 0x0A] @
     ''  data bitmap address/len  '' @ dec_text (data_bitmap_addr s) @ '' ['' @ dec_text (data_bitmap_len s) @ '']'' @ [CHR 0x0A]"

text \<open>One letter for each block.\<close>

definition layout_letters :: "super_t \<Rightarrow> string" where
  "layout_letters s = ''S'' @ replicate (nat (inode_bitmap_len s)) CHR ''i'' @ replicate (nat (data_bitmap_len s)) CHR ''d'' @
     replicate (nat (inode_region_len s)) CHR ''I'' @ replicate (nat (data_region_len s)) CHR ''D''"

definition mkfs_visual :: "super_t \<Rightarrow> string" where
  "mkfs_visual s = [CHR 0x0A] @ ''Visualization of layout'' @ [CHR 0x0A, CHR 0x0A] @ layout_letters s @ [CHR 0x0A, CHR 0x0A]"

text \<open>
  \<open>main\<close>: the result of \<open>getopt\<close> and the success of \<open>calloc\<close> and \<open>open\<close> are arguments. The result
  is the exit code, the written file and the standard output.
\<close>

definition mkfs_main ::
    "bool \<Rightarrow> (string \<Rightarrow> bool) \<Rightarrow> (nat \<Rightarrow> byte) \<Rightarrow> (nat \<Rightarrow> byte) \<Rightarrow> mkfs_opt list \<Rightarrow> (int \<times> host_file \<times> string) res" where
  "mkfs_main calloc_ok open_ok junk1 junk2 opts =
     bindr (parse_opts opts mkfs_defaults) (\<lambda>a.
     case image_file a of
       None \<Rightarrow> Err Aborted
     | Some f \<Rightarrow>
         if \<not> calloc_ok then Err Aborted
         else if \<not> open_ok f then Err Aborted
         else bindr (mkfs junk1 junk2 (arg_inodes a) (arg_data a)) (\<lambda>d.
           let s = mkfs_super (arg_inodes a) (arg_data a)
           in Ok (0, d, mkfs_report s (arg_inodes a) (arg_data a) (mkfs_total_blocks s) @
                (if visual a then mkfs_visual s else []))))"

section \<open>Properties\<close>

lemma layout_letters_blocks:
  assumes "0 \<le> inode_bitmap_len s" and "0 \<le> data_bitmap_len s" and "0 \<le> inode_region_len s" and "0 \<le> data_region_len s"
  shows "int (length (layout_letters s)) = mkfs_total_blocks s"
  using assms by (simp add: layout_letters_def mkfs_total_blocks_def)

text \<open>Without \<open>-f\<close>, or with an unknown option, there is no image.\<close>

lemma parse_unknown: "Opt_unknown \<in> set opts \<Longrightarrow> parse_opts opts a = Ok a' \<Longrightarrow> False"
  by (induction opts a rule: parse_opts.induct) auto

lemma parse_no_file:
  "\<forall>s. Opt_f s \<notin> set opts \<Longrightarrow> parse_opts opts a = Ok a' \<Longrightarrow> image_file a' = image_file a"
  by (induction opts a rule: parse_opts.induct) auto

lemma mkfs_main_usage:
  assumes "Opt_unknown \<in> set opts \<or> (\<forall>s. Opt_f s \<notin> set opts)"
  shows "mkfs_main calloc_ok open_ok junk1 junk2 opts \<noteq> Ok r"
proof
  assume r: "mkfs_main calloc_ok open_ok junk1 junk2 opts = Ok r"
  then obtain a where "parse_opts opts mkfs_defaults = Ok a" "image_file a \<noteq> None"
    by (auto simp: mkfs_main_def split: option.splits)
  then show False using assms parse_unknown parse_no_file [of opts mkfs_defaults a] by (auto simp: mkfs_defaults_def)
qed

lemma default_report:
  "mkfs_report default_super 32 32 36 =
     ''total blocks        36'' @ [CHR 0x0A] @ ''  inodes            32 [size of each: 128]'' @ [CHR 0x0A] @
     ''  data blocks       32'' @ [CHR 0x0A] @ ''layout details'' @ [CHR 0x0A] @
     ''  inode bitmap address/len 1 [1]'' @ [CHR 0x0A] @ ''  data bitmap address/len  2 [1]'' @ [CHR 0x0A]"
  by (simp add: mkfs_report_def dec_text_def digits.simps default_super_def char_of_eq_iff)

lemma default_visual:
  "mkfs_visual default_super = [CHR 0x0A] @ ''Visualization of layout'' @ [CHR 0x0A, CHR 0x0A] @
     ''SidIDDDDDDDDDDDDDDDDDDDDDDDDDDDDDDDD'' @ [CHR 0x0A, CHR 0x0A]"
  by (simp add: mkfs_visual_def layout_letters_def default_super_def numeral_eq_Suc)

text \<open>
  C19: \<open>mkfs\<close> run with a file name that can be opened and no other geometry than 32 inodes and 32 data blocks,
  given by options or by default, prints the report of a layout of 36 blocks with the bitmaps in
  blocks 1 and 2 and, when \<open>-v\<close> asks for it, the picture of one letter for each block, S, i, d, I and 32 times D. It
  writes an image that mounts, whatever the uninitialised memory of either program
  held, as a committed file system of a root directory with the entries "." and "..", both for
  inode 0.
\<close>

theorem mkfs_main_image:
  assumes "parse_opts opts mkfs_defaults = Ok a" and "image_file a = Some f" and "arg_inodes a = 32" and "arg_data a = 32"
    and "open_ok f"
  shows "\<exists>d nfs. mkfs_main True open_ok junk1 junk2 opts =
      Ok (0, d, ''total blocks        36'' @ [CHR 0x0A] @ ''  inodes            32 [size of each: 128]'' @ [CHR 0x0A] @
        ''  data blocks       32'' @ [CHR 0x0A] @ ''layout details'' @ [CHR 0x0A] @
        ''  inode bitmap address/len 1 [1]'' @ [CHR 0x0A] @ ''  data bitmap address/len  2 [1]'' @ [CHR 0x0A] @
        (if visual a then [CHR 0x0A] @ ''Visualization of layout'' @ [CHR 0x0A, CHR 0x0A] @
           ''SidIDDDDDDDDDDDDDDDDDDDDDDDDDDDDDDDD'' @ [CHR 0x0A, CHR 0x0A] else [])) \<and>
    host_ufs_init junk3 junk4 d = Ok nfs \<and> host_committed nfs \<and> host_abs nfs = [0 \<mapsto> Dir [([46], 0), ([46, 46], 0)]]"
proof -
  obtain d where d: "mkfs junk1 junk2 32 32 = Ok d" by (rule mkfs_default)
  obtain nfs where "host_ufs_init junk3 junk4 d = Ok nfs" "host_committed nfs"
    "host_abs nfs = [0 \<mapsto> Dir [([46], 0), ([46, 46], 0)]]"
    using mkfs_mount [OF d, of junk3 junk4]
    unfolding host_ufs_init_def host_fs_simps host_committed_def by blast
  moreover have "mkfs_total_blocks default_super = 36" by (simp add: mkfs_total_blocks_def default_super_def)
  then have "mkfs_main True open_ok junk1 junk2 opts =
      Ok (0, d, mkfs_report default_super 32 32 36 @ (if visual a then mkfs_visual default_super else []))"
    using d assms by (simp add: mkfs_main_def mkfs_super_default Let_def)
  ultimately show ?thesis
    unfolding default_report default_visual append_assoc by blast
qed

lemma mkfs_main_image_witness:
  "\<exists>d nfs. mkfs_main True (\<lambda>_. True) (\<lambda>_. 1) (\<lambda>_. 2) [Opt_v, Opt_d ''32'', Opt_f ''icix.initrd''] =
      Ok (0, d, ''total blocks        36'' @ [CHR 0x0A] @ ''  inodes            32 [size of each: 128]'' @ [CHR 0x0A] @
        ''  data blocks       32'' @ [CHR 0x0A] @ ''layout details'' @ [CHR 0x0A] @
        ''  inode bitmap address/len 1 [1]'' @ [CHR 0x0A] @ ''  data bitmap address/len  2 [1]'' @ [CHR 0x0A] @
        [CHR 0x0A] @ ''Visualization of layout'' @ [CHR 0x0A, CHR 0x0A] @
           ''SidIDDDDDDDDDDDDDDDDDDDDDDDDDDDDDDDD'' @ [CHR 0x0A, CHR 0x0A]) \<and>
    host_ufs_init (\<lambda>_. 3) (\<lambda>_. 4) d = Ok nfs \<and> host_committed nfs \<and> host_abs nfs = [0 \<mapsto> Dir [([46], 0), ([46, 46], 0)]]"
proof -
  have "parse_opts [Opt_v, Opt_d ''32'', Opt_f ''icix.initrd''] mkfs_defaults =
      Ok \<lparr>image_file = Some ''icix.initrd'', arg_inodes = 32, arg_data = 32, visual = True\<rparr>"
    by (simp add: mkfs_defaults_def atoi_def atoi_value_def char_digit_def char_space_def int32_def is_int32_def)
  from mkfs_main_image [where f = "''icix.initrd''" and open_ok = "\<lambda>_. True", OF this] show ?thesis
    by (simp del: append.simps)
qed

end
