(* ===== verification/HostDebug.thy ===== *)
theory HostDebug
  imports HostRun MkfsMain
begin

text \<open>
  What fs/ufs.c prints: it is compiled with \<open>DEBUG\<close>, so \<open>ufs_init\<close> writes the super block, the bitmaps
  and the allocated inodes to the standard output as it reads them.
\<close>

section \<open>The printers\<close>

definition text_line :: "string \<Rightarrow> string" where
  "text_line s = s @ [CHR 0x0A]"

definition host_rule :: string where
  "host_rule = text_line ''=======================''"

definition host_print_superblock :: "super_t \<Rightarrow> string" where
  "host_print_superblock s = host_rule @ text_line ''superblock print'' @
     text_line (''inode_bitmap_addr '' @ dec_text (inode_bitmap_addr s)) @
     text_line (''inode_bitmap_len '' @ dec_text (inode_bitmap_len s)) @
     text_line (''data_bitmap_addr '' @ dec_text (data_bitmap_addr s)) @
     text_line (''data_bitmap_len '' @ dec_text (data_bitmap_len s)) @
     text_line (''inode_region_addr '' @ dec_text (inode_region_addr s)) @
     text_line (''inode_region_len '' @ dec_text (inode_region_len s)) @
     text_line (''data_region_addr '' @ dec_text (data_region_addr s)) @
     text_line (''data_region_len '' @ dec_text (data_region_len s)) @
     text_line (''num_inodes '' @ dec_text (num_inodes s)) @
     text_line (''num_data '' @ dec_text (num_data s)) @ host_rule"

text \<open>The bound of the two loops over a bitmap of \<open>sz\<close> words, as a \<open>size_t\<close>.\<close>

definition bitmap_bits :: "int \<Rightarrow> nat" where
  "bitmap_bits sz = nat (usize host_platform (usize host_platform sz * 4 * 8))"

definition host_print_bits :: "bitmap_t \<Rightarrow> int \<Rightarrow> string \<Rightarrow> string res" where
  "host_print_bits b sz out = for_each (\<lambda>i out. bindr (get_bitmap b (int i)) (\<lambda>v. Ok (out @ dec_text v))) [0..<bitmap_bits sz] out"

definition host_print_bitmaps :: "'d ufs \<Rightarrow> string res" where
  "host_print_bitmaps nfs =
     bindr (host_print_bits (inode_bp nfs) (inode_bp_sz nfs) (host_rule @ ''inode bitmap: '')) (\<lambda>out.
     bindr (host_print_bits (data_bp nfs) (data_bp_sz nfs) (out @ [CHR 0x0A] @ ''data bitmap: '')) (\<lambda>out.
     Ok (out @ text_line [] @ host_rule)))"

definition host_print_inode :: "nat \<Rightarrow> inode_t \<Rightarrow> string \<Rightarrow> string res" where
  "host_print_inode i ino out =
     for_each (\<lambda>j out. bindr (arr_get (i_direct ino) (int j)) (\<lambda>p.
         Ok (out @ text_line (''dptr '' @ dec_text (int j) @ '': '' @ dec_text (uint p))))) [0..<DIRECT_PTRS]
       (out @ text_line (''-----Found inode '' @ dec_text (int i) @ ''-----'') @
        text_line (''type '' @ dec_text (i_type ino)) @ text_line (''size '' @ dec_text (i_size ino)))"

definition host_print_inodes :: "'d ufs \<Rightarrow> string res" where
  "host_print_inodes nfs =
     bindr (for_each (\<lambda>i out. bindr (get_bitmap (inode_bp nfs) (int i)) (\<lambda>v.
         if v \<noteq> 0 then bindr (arr_get (inodes nfs) (int i)) (\<lambda>ino. host_print_inode i ino out) else Ok out))
       [0..<bitmap_bits (inode_bp_sz nfs)] (host_rule @ text_line ''Printing all inodes...'')) (\<lambda>out.
     Ok (out @ host_rule))"

text \<open>The output of a \<open>ufs_init\<close> that returns \<open>nfs\<close>; none of the later operations prints.\<close>

definition host_init_output :: "'d ufs \<Rightarrow> string res" where
  "host_init_output nfs =
     bindr (host_print_bitmaps nfs) (\<lambda>bs.
     bindr (host_print_inodes nfs) (\<lambda>is. Ok (host_print_superblock (fs_s nfs) @ bs @ is)))"

definition host_main_output :: "(nat \<Rightarrow> u32) \<Rightarrow> (nat \<Rightarrow> u32) \<Rightarrow> host_file \<Rightarrow> string res" where
  "host_main_output junk1 junk2 d = bindr (host_ufs_init junk1 junk2 d) host_init_output"

section \<open>Printing in loops\<close>

lemma for_each_collect:
  assumes "\<And>x out. x \<in> set xs \<Longrightarrow> f x out = Ok (out @ g x)"
  shows "for_each f xs out = Ok (out @ concat (map g xs))"
  using assms
proof (induction xs arbitrary: out)
  case (Cons x xs)
  then have "f x out = Ok (out @ g x)" "for_each f xs (out @ g x) = Ok ((out @ g x) @ concat (map g xs))" by auto
  then show ?case by simp
qed simp

definition bit_char :: "bool \<Rightarrow> char" where
  "bit_char b = (if b then CHR ''1'' else CHR ''0'')"

lemma bitmap_bits_1: "bitmap_bits 1 = 32"
  by (simp add: bitmap_bits_def usize_def host_platform_def)

lemma dec_text_bit: "dec_text (of_bool b) = [bit_char b]"
  by (cases b) (simp_all add: dec_text_def bit_char_def digits.simps char_of_eq_iff)

lemma host_print_bits_eq:
  assumes "bm_cap b = 32"
  shows "host_print_bits b 1 out = Ok (out @ map (\<lambda>i. bit_char (bm_bit b i)) [0..<32])"
proof -
  have "host_print_bits b 1 out = Ok (out @ concat (map (\<lambda>i. [bit_char (bm_bit b i)]) [0..<32]))"
    unfolding host_print_bits_def bitmap_bits_1
    by (rule for_each_collect) (simp add: get_bitmap_eq assms dec_text_bit)
  then show ?thesis by simp
qed

definition inode_dump :: "nat \<Rightarrow> inode_t \<Rightarrow> string" where
  "inode_dump i ino = text_line (''-----Found inode '' @ dec_text (int i) @ ''-----'') @
     text_line (''type '' @ dec_text (i_type ino)) @ text_line (''size '' @ dec_text (i_size ino)) @
     concat (map (\<lambda>j. text_line (''dptr '' @ dec_text (int j) @ '': '' @ dec_text (uint (i_direct ino ! j)))) [0..<30])"

lemma host_print_inode_eq:
  "length (i_direct ino) = 30 \<Longrightarrow> host_print_inode i ino out = Ok (out @ inode_dump i ino)"
  unfolding host_print_inode_def
  by (subst for_each_collect [where g = "\<lambda>j. text_line (''dptr '' @ dec_text (int j) @ '': '' @ dec_text (uint (i_direct ino ! j)))"])
    (auto simp: inode_dump_def)

lemma host_init_output_eq:
  assumes "tables_ok nfs" and "inode_bp_sz nfs = 1" and "data_bp_sz nfs = 1"
    and "\<And>i. i < 32 \<Longrightarrow> bm_bit (inode_bp nfs) i \<Longrightarrow> i < length (inodes nfs)"
  shows "host_init_output nfs = Ok (host_print_superblock (fs_s nfs) @
    host_rule @ text_line (''inode bitmap: '' @ map (\<lambda>i. bit_char (bm_bit (inode_bp nfs) i)) [0..<32]) @
    text_line (''data bitmap: '' @ map (\<lambda>i. bit_char (bm_bit (data_bp nfs) i)) [0..<32]) @ host_rule @
    host_rule @ text_line ''Printing all inodes...'' @
    concat (map (\<lambda>i. inode_dump i (inodes nfs ! i)) (filter (bm_bit (inode_bp nfs)) [0..<32])) @ host_rule)"
proof -
  have cap: "bm_cap (inode_bp nfs) = 32" "bm_cap (data_bp nfs) = 32" using assms(1) by simp_all
  let ?t = "\<lambda>i. if bm_bit (inode_bp nfs) i then inode_dump i (inodes nfs ! i) else []"
  have "length (i_direct (inodes nfs ! i)) = 30" if "i < length (inodes nfs)" for i
    using assms(1) that by (auto simp: tables_ok_def inode_typed_def)
  then have "host_print_inodes nfs = Ok ((host_rule @ text_line ''Printing all inodes...'') @ concat (map ?t [0..<32]) @ host_rule)"
    unfolding host_print_inodes_def assms(2) bitmap_bits_1
    by (subst for_each_collect [where g = ?t]) (auto simp: get_bitmap_eq cap assms(4) host_print_inode_eq)
  moreover have "concat (map ?t xs) = concat (map (\<lambda>i. inode_dump i (inodes nfs ! i)) (filter (bm_bit (inode_bp nfs)) xs))" for xs
    by (induction xs) auto
  ultimately show ?thesis
    using cap by (simp add: host_init_output_def host_print_bitmaps_def assms(2,3) host_print_bits_eq text_line_def)
qed

section \<open>The output of the program\<close>

lemma uint_minus_1_32: "uint (- 1 :: u32) = 4294967295"
  by (simp add: unsigned_minus_1_eq_mask mask_eq_exp_minus_1)

lemma dec_texts:
  "dec_text 0 = ''0''" "dec_text 1 = ''1''" "dec_text 2 = ''2''" "dec_text 3 = ''3''" "dec_text 4 = ''4''"
  "dec_text 32 = ''32''" "dec_text 64 = ''64''" "dec_text 4294967295 = ''4294967295''"
  by (simp_all add: dec_text_def digits.simps char_of_eq_iff)

lemma root_dump:
  "inode_dump 0 root_inode = concat (map text_line ([''-----Found inode 0-----'', ''type 0'', ''size 64'', ''dptr 0: 4''] @
     map (\<lambda>j. ''dptr '' @ dec_text (int j) @ '': 4294967295'') [1..<30]))"
proof -
  have "[0..<30] = 0 # [1..<30]" by (simp add: upt_rec)
  moreover have "map (\<lambda>j. text_line (''dptr '' @ dec_text (int j) @ '': '' @ dec_text (uint (i_direct root_inode ! j)))) [1..<30] =
      map text_line (map (\<lambda>j. ''dptr '' @ dec_text (int j) @ '': 4294967295'') [1..<30])"
    unfolding map_map by (rule map_cong) (auto simp: root_inode_def nth_Cons' uint_minus_1_32 dec_texts)
  moreover have "i_type root_inode = 0" "i_size root_inode = 64" "i_direct root_inode ! 0 = 4"
    by (simp_all add: root_inode_def UFS_DIRECTORY_def)
  ultimately show ?thesis
    unfolding inode_dump_def by (simp add: dec_texts del: upt_rec_numeral map_map)
qed

lemma super_dump:
  "host_print_superblock default_super = concat (map text_line
     [''======================='', ''superblock print'', ''inode_bitmap_addr 1'', ''inode_bitmap_len 1'',
      ''data_bitmap_addr 2'', ''data_bitmap_len 1'', ''inode_region_addr 3'', ''inode_region_len 1'',
      ''data_region_addr 4'', ''data_region_len 32'', ''num_inodes 32'', ''num_data 32'', ''======================='' ])"
  by (simp add: host_print_superblock_def host_rule_def default_super_def dec_texts)

text \<open>
  C20: what \<open>main\<close> of fs/ufs.c prints on the image that mkfs makes, which is that of its \<open>ufs_init\<close>: the
  layout of the super block, one inode and one block in use, and the inode of the root with its block 4
  and 29 unused pointers.
\<close>

theorem host_main_prints:
  "\<exists>d. mkfs junk1 junk2 32 32 = Ok d \<and> host_main_output junk3 junk4 d = Ok (concat (map text_line (
     [''======================='', ''superblock print'', ''inode_bitmap_addr 1'', ''inode_bitmap_len 1'',
      ''data_bitmap_addr 2'', ''data_bitmap_len 1'', ''inode_region_addr 3'', ''inode_region_len 1'',
      ''data_region_addr 4'', ''data_region_len 32'', ''num_inodes 32'', ''num_data 32'', ''======================='',
      ''======================='', ''inode bitmap: 10000000000000000000000000000000'',
      ''data bitmap: 10000000000000000000000000000000'', ''======================='',
      ''======================='', ''Printing all inodes...'', ''-----Found inode 0-----'', ''type 0'', ''size 64'', ''dptr 0: 4''] @
     map (\<lambda>j. ''dptr '' @ dec_text (int j) @ '': 4294967295'') [1..<30] @ [''======================='']
  )))"
proof -
  obtain d where d: "mkfs junk1 junk2 32 32 = Ok d" by (rule mkfs_default)
  then obtain n0 where n0: "host_ufs_init junk3 junk4 d = Ok n0" "host_fs_ok n0" "fs_s n0 = default_super"
    "inode_bp n0 = [push_bit 31 1]" "data_bp n0 = [push_bit 31 1]" "inodes n0 ! 0 = root_inode"
    using mkfs_mount [OF d, of junk3 junk4] unfolding host_ufs_init_def host_fs_simps by blast
  have tab: "tables_ok n0" using n0(2) by (simp add: host_fs_ok_def fs_wf_def)
  have sz: "inode_bp_sz n0 = 1" "data_bp_sz n0 = 1"
    using ufs_init_sizes [OF n0(1) [unfolded host_ufs_init_def]] n0(3)
    by (simp_all add: default_super_def get_bitmap_sz_def int32_def is_int32_def c_div_def)
  have bits: "map (\<lambda>i. bit_char (bm_bit [push_bit 31 1] i)) [0..<32] = ''10000000000000000000000000000000''"
    and used: "filter (bm_bit [push_bit 31 1]) [0..<32] = [0]"
    using root_bit by (simp_all add: upt_rec bit_char_def)
  have "host_init_output n0 = Ok (host_print_superblock default_super @
    host_rule @ text_line (''inode bitmap: '' @ ''10000000000000000000000000000000'') @
    text_line (''data bitmap: '' @ ''10000000000000000000000000000000'') @ host_rule @
    host_rule @ text_line ''Printing all inodes...'' @ inode_dump 0 root_inode @ host_rule)"
    using host_init_output_eq [OF tab sz] tab root_bit unfolding n0(3-5) bits used
    by (auto simp: n0(6) tables_ok_def n0(3) default_super_def)
  then show ?thesis
    using d n0(1) unfolding super_dump root_dump
    by (intro exI [of _ d]) (simp add: host_main_output_def host_rule_def del: upt_rec_numeral)
qed

end
