(* ===== verification/KernelDebug.thy ===== *)
theory KernelDebug
  imports KernelFs Host
begin

text \<open>
  The dumps of kernel/kernel/filesystem.c that a build with \<open>DEBUG\<close> makes while it mounts: the
  super block, the two bitmaps and the allocated inodes. They print what the tables hold.
\<close>

section \<open>The printers\<close>

definition rule_line :: string where
  "rule_line = ''======================='' @ [CHR 0x0A]"

definition print_fields :: "'x fpu \<Rightarrow> (string \<times> int) list \<Rightarrow> kernel \<Rightarrow> kernel res" where
  "print_fields fpu fs k = for_each (\<lambda>(s, v). kprintf fpu (cbytes (s @ '' %d'' @ [CHR 0x0A])) [Word32 (of_int v)]) fs k"

definition print_superblock :: "'x fpu \<Rightarrow> super_t \<Rightarrow> kernel \<Rightarrow> kernel res" where
  "print_superblock fpu s k =
     bindr (kprintf fpu (cbytes rule_line) [] k) (\<lambda>k.
     bindr (kprintf fpu (cbytes (''superblock print'' @ [CHR 0x0A])) [] k) (\<lambda>k.
     bindr (print_fields fpu
       [(''inode_bitmap_addr'', inode_bitmap_addr s), (''inode_bitmap_len'', inode_bitmap_len s),
        (''data_bitmap_addr'', data_bitmap_addr s), (''data_bitmap_len'', data_bitmap_len s),
        (''inode_region_addr'', inode_region_addr s), (''inode_region_len'', inode_region_len s),
        (''data_region_addr'', data_region_addr s), (''data_region_len'', data_region_len s),
        (''num_inodes'', num_inodes s), (''num_data'', num_data s)] k) (\<lambda>k.
     kprintf fpu (cbytes rule_line) [] k)))"

text \<open>The loop over the bits of a bitmap of \<open>sz\<close> words.\<close>

definition print_bits :: "'x fpu \<Rightarrow> bitmap_t \<Rightarrow> int \<Rightarrow> kernel \<Rightarrow> kernel res" where
  "print_bits fpu b sz k = bindr (int32 (sz * 4 * 8)) (\<lambda>n.
     for_each (\<lambda>i k. bindr (get_bitmap b (int i)) (\<lambda>v. kprintf fpu (cbytes ''%d'') [Word32 (of_int v)] k)) [0..<nat n] k)"

text \<open>\<open>puts\<close> on the kernel's terminal.\<close>

definition kputs :: "'x fpu \<Rightarrow> u32 \<Rightarrow> string \<Rightarrow> kernel \<Rightarrow> kernel res" where
  "kputs fpu at s k = bindr (puts fpu at (cbytes s) (k_tty k)) (\<lambda>(_, st). Ok (k\<lparr>k_tty := p_tty st\<rparr>))"

definition print_bitmaps :: "'x fpu \<Rightarrow> u32 \<Rightarrow> 'd ufs \<Rightarrow> kernel \<Rightarrow> kernel res" where
  "print_bitmaps fpu at nfs k =
     bindr (kprintf fpu (cbytes rule_line) [] k) (\<lambda>k.
     bindr (kprintf fpu (cbytes ''inode bitmap: '') [] k) (\<lambda>k.
     bindr (print_bits fpu (inode_bp nfs) (inode_bp_sz nfs) k) (\<lambda>k.
     bindr (kprintf fpu (cbytes ([CHR 0x0A] @ ''data bitmap: '')) [] k) (\<lambda>k.
     bindr (print_bits fpu (data_bp nfs) (data_bp_sz nfs) k) (\<lambda>k.
     bindr (kputs fpu at '''' k) (\<lambda>k.
     kprintf fpu (cbytes rule_line) [] k))))))"

definition print_inode :: "'x fpu \<Rightarrow> nat \<Rightarrow> inode_t \<Rightarrow> kernel \<Rightarrow> kernel res" where
  "print_inode fpu i ino k =
     bindr (kprintf fpu (cbytes (''-----Found inode %d-----'' @ [CHR 0x0A])) [Word32 (of_nat i)] k) (\<lambda>k.
     bindr (kprintf fpu (cbytes (''type %d'' @ [CHR 0x0A])) [Word32 (of_int (i_type ino))] k) (\<lambda>k.
     bindr (kprintf fpu (cbytes (''size %d'' @ [CHR 0x0A])) [Word32 (of_int (i_size ino))] k) (\<lambda>k.
     for_each (\<lambda>j k. bindr (arr_get (i_direct ino) (int j)) (\<lambda>p.
       kprintf fpu (cbytes (''dptr %d: %u'' @ [CHR 0x0A])) [Word32 (of_nat j), Word32 p] k)) [0..<DIRECT_PTRS] k)))"

definition print_inodes :: "'x fpu \<Rightarrow> 'd ufs \<Rightarrow> kernel \<Rightarrow> kernel res" where
  "print_inodes fpu nfs k =
     bindr (kprintf fpu (cbytes rule_line) [] k) (\<lambda>k.
     bindr (kprintf fpu (cbytes (''Printing all inodes...'' @ [CHR 0x0A])) [] k) (\<lambda>k.
     bindr (int32 (inode_bp_sz nfs * 4 * 8)) (\<lambda>n.
     bindr (for_each (\<lambda>i k. bindr (get_bitmap (inode_bp nfs) (int i)) (\<lambda>v.
       if v \<noteq> 0 then bindr (arr_get (inodes nfs) (int i)) (\<lambda>ino. print_inode fpu i ino k) else Ok k)) [0..<nat n] k) (\<lambda>k.
     kprintf fpu (cbytes rule_line) [] k))))"

section \<open>Printing in loops\<close>

lemma for_each_prints:
  assumes "\<And>x k. x \<in> set xs \<Longrightarrow> term_ok (k_tty k) \<Longrightarrow> \<exists>k'. f x k = Ok k' \<and> prints (tx x) k k'" and "term_ok (k_tty k)"
  shows "\<exists>k'. for_each f xs k = Ok k' \<and> prints (concat (map tx xs)) k k'"
  using assms
proof (induction xs arbitrary: k)
  case Nil
  then show ?case by (simp add: prints_def shown_Nil)
next
  case (Cons x xs)
  obtain k1 where k1: "f x k = Ok k1" "prints (tx x) k k1" using Cons.prems by (meson list.set_intros(1))
  obtain k2 where "for_each f xs k1 = Ok k2" "prints (concat (map tx xs)) k1 k2"
    using Cons.IH [OF _ prints_ok [OF k1(2)]] Cons.prems(1) by auto
  then show ?case using k1 prints_append [OF k1(2)] by auto
qed

lemma prints_line:
  assumes "term_ok (k_tty k)" and "length s < 2 ^ 31" and "0 \<notin> set (map (of_char :: char \<Rightarrow> byte) s)"
    and "37 \<notin> set (map (of_char :: char \<Rightarrow> byte) s)"
  obtains k' where "kprintf fpu (cbytes s) [] k = Ok k'" "prints (map of_char s) k k'" "term_ok (k_tty k')"
  using kprintf_message [OF assms, of fpu] prints_ok by blast

text \<open>A name and its number on a line.\<close>

lemma prints_field:
  assumes "term_ok (k_tty k)" and "0 \<le> v" and "v < 2 ^ 31" and "length s < 2 ^ 20"
    and "0 \<notin> set (map (of_char :: char \<Rightarrow> byte) s)" and "37 \<notin> set (map (of_char :: char \<Rightarrow> byte) s)"
    and "0 \<notin> set (map (of_char :: char \<Rightarrow> byte) u)" and "37 \<notin> set (map (of_char :: char \<Rightarrow> byte) u)" and "length u < 2 ^ 20"
  shows "\<exists>k'. kprintf fpu (cbytes (s @ ''%d'' @ u)) [Word32 (of_int v)] k = Ok k' \<and>
    prints (map of_char s @ num_text v @ map of_char u) k k'"
  using prints_number [OF assms(1-3), of "map of_char s" "map of_char u" "cbytes (s @ ''%d'' @ u)" fpu] assms(4-)
  by (simp add: cbytes_def)

section \<open>The texts\<close>

definition super_fields :: "super_t \<Rightarrow> (string \<times> int) list" where
  "super_fields s = [(''inode_bitmap_addr'', inode_bitmap_addr s), (''inode_bitmap_len'', inode_bitmap_len s),
     (''data_bitmap_addr'', data_bitmap_addr s), (''data_bitmap_len'', data_bitmap_len s),
     (''inode_region_addr'', inode_region_addr s), (''inode_region_len'', inode_region_len s),
     (''data_region_addr'', data_region_addr s), (''data_region_len'', data_region_len s),
     (''num_inodes'', num_inodes s), (''num_data'', num_data s)]"

definition field_text :: "string \<times> int \<Rightarrow> byte list" where
  "field_text = (\<lambda>(s, v). map of_char s @ map of_char '' '' @ num_text v @ [10])"

definition super_text :: "super_t \<Rightarrow> byte list" where
  "super_text s = map of_char (rule_line @ ''superblock print'' @ [CHR 0x0A]) @
     concat (map field_text (super_fields s)) @ map of_char rule_line"

definition bits_text :: "bitmap_t \<Rightarrow> byte list" where
  "bits_text b = map (\<lambda>i. if bm_bit b i then ch CHR ''1'' else ch CHR ''0'') [0..<32]"

definition bitmaps_text :: "'d ufs \<Rightarrow> byte list" where
  "bitmaps_text nfs = map of_char (rule_line @ ''inode bitmap: '') @ bits_text (inode_bp nfs) @
     map of_char ([CHR 0x0A] @ ''data bitmap: '') @ bits_text (data_bp nfs) @ map of_char ([CHR 0x0A] @ rule_line)"

lemma num_text_bit: "num_text 0 = [48]" "num_text 1 = [49]"
  by code_simp+

lemma rule_line_ok:
  "length rule_line < 2 ^ 31" "0 \<notin> set (map (of_char :: char \<Rightarrow> byte) rule_line)"
  "37 \<notin> set (map (of_char :: char \<Rightarrow> byte) rule_line)"
  by (simp_all add: rule_line_def)

lemma print_superblock_ok:
  assumes "term_ok (k_tty k)" and "\<forall>(nm, v) \<in> set (super_fields s). 0 \<le> v \<and> v < 2 ^ 31"
  shows "\<exists>k'. print_superblock fpu s k = Ok k' \<and> prints (super_text s) k k'"
proof -
  obtain k1 where k1: "kprintf fpu (cbytes rule_line) [] k = Ok k1" "prints (map of_char rule_line) k k1" "term_ok (k_tty k1)"
    by (rule prints_line [OF assms(1) rule_line_ok])
  obtain k2 where k2: "kprintf fpu (cbytes (''superblock print'' @ [CHR 0x0A])) [] k1 = Ok k2"
    "prints (map of_char (''superblock print'' @ [CHR 0x0A])) k1 k2" "term_ok (k_tty k2)"
    by (rule prints_line [OF k1(3), of "''superblock print'' @ [CHR 0x0A]" fpu]) simp_all
  have "\<exists>k3. print_fields fpu (super_fields s) k2 = Ok k3 \<and> prints (concat (map field_text (super_fields s))) k2 k3"
    unfolding print_fields_def
  proof (rule for_each_prints [OF _ k2(3)])
    fix x and k :: kernel assume x: "x \<in> set (super_fields s)" and t: "term_ok (k_tty k)"
    then have v: "0 \<le> snd x" "snd x < 2 ^ 31" using assms(2) by auto
    have nm: "length (fst x @ '' '') < 2 ^ 20" "0 \<notin> set (map (of_char :: char \<Rightarrow> byte) (fst x @ '' ''))"
      "37 \<notin> set (map (of_char :: char \<Rightarrow> byte) (fst x @ '' ''))"
      using x by (auto simp: super_fields_def)
    show "\<exists>k'. (case x of (s, v) \<Rightarrow> kprintf fpu (cbytes (s @ '' %d'' @ [CHR 0x0A])) [Word32 (of_int v)]) k = Ok k' \<and> prints (field_text x) k k'"
      using prints_field [OF t v nm, of "[CHR 0x0A]" fpu] by (simp add: field_text_def case_prod_unfold)
  qed
  then obtain k3 where k3: "print_fields fpu (super_fields s) k2 = Ok k3" "prints (concat (map field_text (super_fields s))) k2 k3"
    by blast
  obtain k4 where k4: "kprintf fpu (cbytes rule_line) [] k3 = Ok k4" "prints (map of_char rule_line) k3 k4"
    using prints_line [OF prints_ok [OF k3(2)] rule_line_ok] by metis
  have "print_superblock fpu s k = Ok k4"
    using k1(1) k2(1) k3(1) k4(1) by (simp add: print_superblock_def super_fields_def)
  then show ?thesis
    using prints_append [OF prints_append [OF k1(2) k2(2)] prints_append [OF k3(2) k4(2)]] by (auto simp: super_text_def)
qed

lemma print_bits_ok:
  assumes "term_ok (k_tty k)" and "length b = 1" and "sz = 1"
  shows "\<exists>k'. print_bits fpu b sz k = Ok k' \<and> prints (bits_text b) k k'"
proof -
  have "\<exists>k'. for_each (\<lambda>i k. bindr (get_bitmap b (int i)) (\<lambda>v. kprintf fpu (cbytes ''%d'') [Word32 (of_int v)] k)) [0..<32] k = Ok k' \<and>
     prints (concat (map (\<lambda>i. [if bm_bit b i then ch CHR ''1'' else ch CHR ''0'']) [0..<32])) k k'"
  proof (rule for_each_prints [OF _ assms(1)])
    fix i and k :: kernel assume i: "i \<in> set [0..<32]" and t: "term_ok (k_tty k)"
    have "get_bitmap b (int i) = Ok (of_bool (bm_bit b i))"
      using i assms(2) by (intro get_bitmap_eq) (simp add: bm_cap_length)
    then show "\<exists>k'. bindr (get_bitmap b (int i)) (\<lambda>v. kprintf fpu (cbytes ''%d'') [Word32 (of_int v)] k) = Ok k' \<and>
        prints [if bm_bit b i then ch CHR ''1'' else ch CHR ''0''] k k'"
      using prints_field [OF t, of "of_bool (bm_bit b i)" "[]" "[]" fpu] num_text_bit
      by (cases "bm_bit b i") simp_all
  qed
  moreover have "concat (map (\<lambda>i. [f i]) xs) = map f xs" for f :: "nat \<Rightarrow> byte" and xs
    by (induction xs) auto
  moreover have "int32 (sz * 4 * 8) = Ok 32" by (simp add: assms(3) int32_def is_int32_def)
  ultimately show ?thesis by (simp add: print_bits_def bits_text_def)
qed

lemma prints_puts:
  assumes "term_ok (k_tty k)" and "length s < 2 ^ 30" and "0 \<notin> set (map (of_char :: char \<Rightarrow> byte) s)"
  obtains k' where "kputs fpu at s k = Ok k'" "prints (map of_char (s @ [CHR 0x0A])) k k'" "term_ok (k_tty k')"
proof -
  have "kputs fpu at s k = kprintf fpu (cbytes (''%s'' @ [CHR 0x0A])) [Str at (cbytes s)] k"
    by (simp add: kputs_def puts_def kprintf_def)
  moreover have "cstr (cbytes s) = map of_char s" "terminated (cbytes s)"
    using assms(3) by (simp_all add: cbytes_def terminated_def)
  ultimately show thesis
    using kprintf_pieces [OF assms(1), of "[Conv_s at (cbytes s), Lit [10]]" "cbytes (''%s'' @ [CHR 0x0A])" "[Str at (cbytes s)]" fpu]
      assms(2) that prints_ok by (auto simp: cbytes_def)
qed

lemma print_bitmaps_ok:
  assumes "term_ok (k_tty k)" and "tables_ok nfs" and "inode_bp_sz nfs = 1" and "data_bp_sz nfs = 1"
  shows "\<exists>k'. print_bitmaps fpu at nfs k = Ok k' \<and> prints (bitmaps_text nfs) k k'"
proof -
  have len: "length (inode_bp nfs) = 1" "length (data_bp nfs) = 1" using assms(2) by (simp_all add: tables_ok_def)
  obtain k1 where k1: "kprintf fpu (cbytes rule_line) [] k = Ok k1" "prints (map of_char rule_line) k k1" "term_ok (k_tty k1)"
    by (rule prints_line [OF assms(1) rule_line_ok])
  obtain k2 where k2: "kprintf fpu (cbytes ''inode bitmap: '') [] k1 = Ok k2"
    "prints (map of_char ''inode bitmap: '') k1 k2" "term_ok (k_tty k2)"
    by (rule prints_line [OF k1(3), of "''inode bitmap: ''" fpu]) simp_all
  obtain k3 where k3: "print_bits fpu (inode_bp nfs) (inode_bp_sz nfs) k2 = Ok k3" "prints (bits_text (inode_bp nfs)) k2 k3"
    using print_bits_ok [OF k2(3) len(1) assms(3)] by blast
  obtain k4 where k4: "kprintf fpu (cbytes ([CHR 0x0A] @ ''data bitmap: '')) [] k3 = Ok k4"
    "prints (map of_char ([CHR 0x0A] @ ''data bitmap: '')) k3 k4" "term_ok (k_tty k4)"
    by (rule prints_line [OF prints_ok [OF k3(2)], of "[CHR 0x0A] @ ''data bitmap: ''" fpu]) simp_all
  obtain k5 where k5: "print_bits fpu (data_bp nfs) (data_bp_sz nfs) k4 = Ok k5" "prints (bits_text (data_bp nfs)) k4 k5"
    using print_bits_ok [OF k4(3) len(2) assms(4)] by blast
  obtain k6 where k6: "kputs fpu at [] k5 = Ok k6" "prints (map of_char ([] @ [CHR 0x0A])) k5 k6" "term_ok (k_tty k6)"
    by (rule prints_puts [OF prints_ok [OF k5(2)], of "[]"]) simp_all
  obtain k7 where k7: "kprintf fpu (cbytes rule_line) [] k6 = Ok k7" "prints (map of_char rule_line) k6 k7"
    using prints_line [OF k6(3) rule_line_ok] by metis
  have "print_bitmaps fpu at nfs k = Ok k7"
    using k1(1) k2(1) k3(1) k4(1) k5(1) k6(1) k7(1) by (simp add: print_bitmaps_def)
  then show ?thesis
    using prints_append [OF prints_append [OF prints_append [OF k1(2) k2(2)] prints_append [OF k3(2) k4(2)]]
        prints_append [OF k5(2) prints_append [OF k6(2) k7(2)]]]
    by (auto simp: bitmaps_text_def)
qed

text \<open>
  An inode. A pointer is printed with \<open>%u\<close>, which \<open>vprintf\<close> treats as signed: an unused one
  appears as -1.
\<close>

definition ptr_text :: "nat \<Rightarrow> u32 \<Rightarrow> byte list" where
  "ptr_text j p = map of_char ''dptr '' @ num_text (int j) @ map of_char '': '' @ text_of (Conv_u p) @ [10]"

definition inode_text :: "nat \<Rightarrow> inode_t \<Rightarrow> byte list" where
  "inode_text i ino = map of_char ''-----Found inode '' @ num_text (int i) @ map of_char (''-----'' @ [CHR 0x0A]) @
     map of_char ''type '' @ num_text (i_type ino) @ [10] @ map of_char ''size '' @ num_text (i_size ino) @ [10] @
     concat (map (\<lambda>j. ptr_text j (i_direct ino ! j)) [0..<DIRECT_PTRS])"

definition inodes_text :: "'d ufs \<Rightarrow> byte list" where
  "inodes_text nfs = map of_char (rule_line @ ''Printing all inodes...'' @ [CHR 0x0A]) @
     concat (map (\<lambda>i. if bm_bit (inode_bp nfs) i then inode_text i (inodes nfs ! i) else []) [0..<32]) @ map of_char rule_line"

definition inode_printable :: "inode_t \<Rightarrow> bool" where
  "inode_printable ino \<longleftrightarrow> 0 \<le> i_type ino \<and> i_type ino < 2 ^ 31 \<and> 0 \<le> i_size ino \<and> i_size ino < 2 ^ 31 \<and>
     length (i_direct ino) = DIRECT_PTRS \<and> (\<forall>p \<in> set (i_direct ino). sint p \<noteq> - (2 ^ 31))"

lemma prints_ptr:
  assumes "term_ok (k_tty k)" and "sint p \<noteq> - (2 ^ 31)" and "j < 30"
  shows "\<exists>k'. kprintf fpu (cbytes (''dptr %d: %u'' @ [CHR 0x0A])) [Word32 (of_nat j), Word32 p] k = Ok k' \<and> prints (ptr_text j p) k k'"
proof -
  let ?ps = "[Lit (map of_char ''dptr ''), Conv_d (of_nat j), Lit (map of_char '': ''), Conv_u p, Lit [10]]"
  have "length (text_of (Conv_u p)) \<le> 12" using length_num_text [of "sint p"] by (simp add: num_text_def)
  then have "length (concat (map text_of ?ps)) < 2 ^ 31" using length_num_text [of "int j"] by (simp add: num_text_def)
  moreover have "\<forall>p \<in> set ?ps. piece_ok p" using number_ok [of "int j"] assms(2,3) by simp
  ultimately show ?thesis
    using kprintf_pieces [OF assms(1), of ?ps "cbytes (''dptr %d: %u'' @ [CHR 0x0A])" "[Word32 (of_nat j), Word32 p]" fpu]
    by (simp add: cbytes_def ptr_text_def num_text_def)
qed

lemma print_inode_ok:
  assumes "term_ok (k_tty k)" and "inode_printable ino" and "i < 32"
  shows "\<exists>k'. print_inode fpu i ino k = Ok k' \<and> prints (inode_text i ino) k k'"
proof -
  have p: "0 \<le> i_type ino" "i_type ino < 2 ^ 31" "0 \<le> i_size ino" "i_size ino < 2 ^ 31" "length (i_direct ino) = 30"
    "\<forall>p \<in> set (i_direct ino). sint p \<noteq> - (2 ^ 31)"
    using assms(2) by (simp_all add: inode_printable_def)
  have i: "0 \<le> int i" "int i < 2 ^ 31" using assms(3) by simp_all
  obtain k1 where k1: "kprintf fpu (cbytes (''-----Found inode %d-----'' @ [CHR 0x0A])) [Word32 (of_nat i)] k = Ok k1"
    "prints (map of_char ''-----Found inode '' @ num_text (int i) @ map of_char (''-----'' @ [CHR 0x0A])) k k1"
    using prints_field [OF assms(1) i, of "''-----Found inode ''" "''-----'' @ [CHR 0x0A]" fpu] by auto
  obtain k2 where k2: "kprintf fpu (cbytes (''type %d'' @ [CHR 0x0A])) [Word32 (of_int (i_type ino))] k1 = Ok k2"
    "prints (map of_char ''type '' @ num_text (i_type ino) @ map of_char [CHR 0x0A]) k1 k2"
    using prints_field [OF prints_ok [OF k1(2)] p(1,2), of "''type ''" "[CHR 0x0A]" fpu] by auto
  obtain k3 where k3: "kprintf fpu (cbytes (''size %d'' @ [CHR 0x0A])) [Word32 (of_int (i_size ino))] k2 = Ok k3"
    "prints (map of_char ''size '' @ num_text (i_size ino) @ map of_char [CHR 0x0A]) k2 k3"
    using prints_field [OF prints_ok [OF k2(2)] p(3,4), of "''size ''" "[CHR 0x0A]" fpu] by auto
  have "\<exists>k4. for_each (\<lambda>j k. bindr (arr_get (i_direct ino) (int j)) (\<lambda>p.
       kprintf fpu (cbytes (''dptr %d: %u'' @ [CHR 0x0A])) [Word32 (of_nat j), Word32 p] k)) [0..<30] k3 = Ok k4 \<and>
     prints (concat (map (\<lambda>j. ptr_text j (i_direct ino ! j)) [0..<30])) k3 k4"
  proof (rule for_each_prints [OF _ prints_ok [OF k3(2)]])
    fix j and k :: kernel assume j: "j \<in> set [0..<30]" and t: "term_ok (k_tty k)"
    then show "\<exists>k'. bindr (arr_get (i_direct ino) (int j)) (\<lambda>p.
       kprintf fpu (cbytes (''dptr %d: %u'' @ [CHR 0x0A])) [Word32 (of_nat j), Word32 p] k) = Ok k' \<and> prints (ptr_text j (i_direct ino ! j)) k k'"
      using prints_ptr [OF t, of "i_direct ino ! j" j fpu] p(5,6) by auto
  qed
  then obtain k4 where k4: "for_each (\<lambda>j k. bindr (arr_get (i_direct ino) (int j)) (\<lambda>p.
       kprintf fpu (cbytes (''dptr %d: %u'' @ [CHR 0x0A])) [Word32 (of_nat j), Word32 p] k)) [0..<30] k3 = Ok k4"
     "prints (concat (map (\<lambda>j. ptr_text j (i_direct ino ! j)) [0..<30])) k3 k4"
    by blast
  have "print_inode fpu i ino k = Ok k4" using k1(1) k2(1) k3(1) k4(1) by (simp add: print_inode_def)
  then show ?thesis
    using prints_append [OF prints_append [OF k1(2) k2(2)] prints_append [OF k3(2) k4(2)]] by (auto simp: inode_text_def)
qed

lemma print_inodes_ok:
  assumes "term_ok (k_tty k)" and "tables_ok nfs" and "inode_bp_sz nfs = 1"
    and "\<And>i. i < 32 \<Longrightarrow> bm_bit (inode_bp nfs) i \<Longrightarrow> i < length (inodes nfs) \<and> inode_printable (inodes nfs ! i)"
  shows "\<exists>k'. print_inodes fpu nfs k = Ok k' \<and> prints (inodes_text nfs) k k'"
proof -
  let ?s = "''Printing all inodes...'' @ [CHR 0x0A]"
  let ?f = "\<lambda>i k. bindr (get_bitmap (inode_bp nfs) (int i)) (\<lambda>v.
       if v \<noteq> 0 then bindr (arr_get (inodes nfs) (int i)) (\<lambda>ino. print_inode fpu i ino k) else Ok k)"
  let ?t = "\<lambda>i. if bm_bit (inode_bp nfs) i then inode_text i (inodes nfs ! i) else []"
  obtain k1 where k1: "kprintf fpu (cbytes rule_line) [] k = Ok k1" "prints (map of_char rule_line) k k1" "term_ok (k_tty k1)"
    by (rule prints_line [OF assms(1) rule_line_ok])
  obtain k2 where k2: "kprintf fpu (cbytes ?s) [] k1 = Ok k2" "prints (map of_char ?s) k1 k2" "term_ok (k_tty k2)"
    by (rule prints_line [OF k1(3), of ?s fpu]) simp_all
  have "\<exists>k3. for_each ?f [0..<32] k2 = Ok k3 \<and> prints (concat (map ?t [0..<32])) k2 k3"
  proof (rule for_each_prints [OF _ k2(3)])
    fix i and k :: kernel assume i: "i \<in> set [0..<32]" and t: "term_ok (k_tty k)"
    have g: "get_bitmap (inode_bp nfs) (int i) = Ok (of_bool (bm_bit (inode_bp nfs) i))"
      using i assms(2) by (intro get_bitmap_eq) simp
    show "\<exists>k'. ?f i k = Ok k' \<and> prints (?t i) k k'"
    proof (cases "bm_bit (inode_bp nfs) i")
      case True
      then show ?thesis using g assms(4) [of i] print_inode_ok [OF t, of "inodes nfs ! i" i fpu] i by auto
    next
      case False
      then show ?thesis using g t by (simp add: prints_def shown_Nil)
    qed
  qed
  then obtain k3 where k3: "for_each ?f [0..<32] k2 = Ok k3" "prints (concat (map ?t [0..<32])) k2 k3" by blast
  obtain k4 where k4: "kprintf fpu (cbytes rule_line) [] k3 = Ok k4" "prints (map of_char rule_line) k3 k4"
    using prints_line [OF prints_ok [OF k3(2)] rule_line_ok] by metis
  have "int32 (inode_bp_sz nfs * 4 * 8) = Ok 32" by (simp add: assms(3) int32_def is_int32_def)
  then have "print_inodes fpu nfs k = Ok k4"
    using k1(1) k2(1) k3(1) k4(1) by (simp add: print_inodes_def)
  then show ?thesis
    using prints_append [OF prints_append [OF k1(2) k2(2)] prints_append [OF k3(2) k4(2)]] by (auto simp: inodes_text_def)
qed

section \<open>The dumps of a mounted file system\<close>

lemma wf_printable:
  assumes wf: "fs_wf c L nfs" and al: "alloc nfs i" and ty: "i_type (inodes nfs ! i) \<in> {UFS_DIRECTORY, UFS_REGULAR_FILE}"
  shows "inode_printable (inodes nfs ! i)"
proof -
  let ?ino = "inodes nfs ! i"
  note w = fs_wfD [OF wf al]
  have lay: "layout_ok (fs_s nfs) L" using wf by (simp add: fs_wf_def)
  have len: "length (i_direct ?ino) = 30" using w(4) by (simp add: inode_typed_def)
  have "sint p \<noteq> - (2 ^ 31)" if "p \<in> set (i_direct ?ino)" for p
  proof (cases "p = - 1")
    case False
    then obtain k where "k < 30" "i_direct ?ino ! k = p" using \<open>p \<in> _\<close> len by (auto simp: in_set_conv_nth)
    then have "blk_ok L p" using data_ptr_ok(1) [OF lay w(2)] False by blast
    then have "unat p < 2 ^ 31" using blk_ok_less [of L p] by simp
    then have "sint p = int (unat p)" using sint_of_nat32 [of "unat p"] by simp
    then have "0 \<le> sint p" by simp
    then show ?thesis by auto
  qed simp
  moreover have "0 \<le> i_size ?ino"
    using w(1) ty by (auto simp: node_wf_def dir_wf_def file_wf_def)
  ultimately show ?thesis
    using w(4) ty len by (auto simp: inode_printable_def inode_typed_def is_int32_def UFS_DIRECTORY_def UFS_REGULAR_FILE_def)
qed

text \<open>
  The three dumps of a build with \<open>DEBUG\<close>, on a well-formed file system with at most 32
  inodes and data blocks: they print the fields of the super block, the two bitmaps bit by bit
  from the first one on, and each allocated inode with its 30 pointers, and leave everything but
  the terminal alone.
\<close>

theorem debug_dumps:
  assumes "fs_wf c L nfs" and "inode_bp_sz nfs = 1" and "data_bp_sz nfs = 1" and "term_ok (k_tty k)"
    and "\<forall>(nm, v) \<in> set (super_fields (fs_s nfs)). 0 \<le> v \<and> v < 2 ^ 31"
    and "\<forall>i < 32. bm_bit (inode_bp nfs) i \<longrightarrow> i < nat (num_inodes (fs_s nfs)) \<and>
      i_type (inodes nfs ! i) \<in> {UFS_DIRECTORY, UFS_REGULAR_FILE}"
  shows "\<exists>k1 k2 k3. print_superblock fpu (fs_s nfs) k = Ok k1 \<and> print_bitmaps fpu at nfs k1 = Ok k2 \<and>
    print_inodes fpu nfs k2 = Ok k3 \<and> prints (super_text (fs_s nfs) @ bitmaps_text nfs @ inodes_text nfs) k k3"
proof -
  have tab: "tables_ok nfs" using assms(1) by (simp add: fs_wf_def)
  obtain k1 where k1: "print_superblock fpu (fs_s nfs) k = Ok k1" "prints (super_text (fs_s nfs)) k k1"
    using print_superblock_ok [OF assms(4,5)] by blast
  obtain k2 where k2: "print_bitmaps fpu at nfs k1 = Ok k2" "prints (bitmaps_text nfs) k1 k2"
    using print_bitmaps_ok [OF prints_ok [OF k1(2)] tab assms(2,3)] by blast
  have ino: "i < length (inodes nfs) \<and> inode_printable (inodes nfs ! i)" if "i < 32" "bm_bit (inode_bp nfs) i" for i
  proof -
    have "alloc nfs i" using assms(6) that by (simp add: alloc_def)
    then show ?thesis using fs_wfD(5) [OF assms(1)] wf_printable [OF assms(1)] assms(6) that by blast
  qed
  obtain k3 where "print_inodes fpu nfs k2 = Ok k3" "prints (inodes_text nfs) k2 k3"
    using print_inodes_ok [OF prints_ok [OF k2(2)] tab assms(2) ino] by blast
  then show ?thesis
    using k1 k2 prints_append [OF k1(2) prints_append [OF k2(2)]] by blast
qed

lemma fresh_sizes: "inode_bp_sz fresh_fs = 1" "data_bp_sz fresh_fs = 1"
proof -
  have "get_bitmap_sz 32 = Ok 1" by (simp add: get_bitmap_sz_def int32_def is_int32_def c_div_def)
  moreover have "num_inodes (fs_s fresh_fs) = 32" "num_data (fs_s fresh_fs) = 32" by (simp_all add: fresh_fs(8) default_super_def)
  ultimately show "inode_bp_sz fresh_fs = 1" "data_bp_sz fresh_fs = 1"
    using ufs_init_sizes [OF fresh_fs(2) [unfolded host_ufs_init_def]] by simp_all
qed

lemma debug_dumps_witness:
  "\<exists>k1 k2 k3. print_superblock no_fpu (fs_s fresh_fs) idle_kernel = Ok k1 \<and> print_bitmaps no_fpu 0 fresh_fs k1 = Ok k2 \<and>
    print_inodes no_fpu fresh_fs k2 = Ok k3 \<and>
    prints (super_text (fs_s fresh_fs) @ bitmaps_text fresh_fs @ inodes_text fresh_fs) idle_kernel k3"
proof (rule debug_dumps [OF _ fresh_sizes])
  show wf: "fs_wf (hf_bytes (fs_disk fresh_fs)) (hf_len (fs_disk fresh_fs)) fresh_fs"
    using fresh_fs(4) by (simp add: host_fs_ok_def)
  show "\<forall>i < 32. bm_bit (inode_bp fresh_fs) i \<longrightarrow> i < nat (num_inodes (fs_s fresh_fs)) \<and>
      i_type (inodes fresh_fs ! i) \<in> {UFS_DIRECTORY, UFS_REGULAR_FILE}"
  proof (intro allI impI)
    fix i :: nat assume i: "i < 32" "bm_bit (inode_bp fresh_fs) i"
    then have "alloc fresh_fs i" by (simp add: alloc_def fresh_fs default_super_def)
    moreover have "host_abs fresh_fs i = (if i = 0 then Some (Dir [([46], 0), ([46, 46], 0)]) else None)"
      by (simp add: fresh_fs)
    ultimately have "i = 0" "i_type (inodes fresh_fs ! i) = UFS_DIRECTORY"
      by (auto simp: host_abs_def fs_abs_def node_of_def split: if_splits)
    then show "i < nat (num_inodes (fs_s fresh_fs)) \<and> i_type (inodes fresh_fs ! i) \<in> {UFS_DIRECTORY, UFS_REGULAR_FILE}"
      by (simp add: fresh_fs default_super_def)
  qed
qed (simp_all add: fresh_fs default_super_def super_fields_def idle_kernel_def blank_tty_ok)

end
