(* ===== verification/VmmFormer.thy ===== *)
theory VmmFormer
  imports Vmm
begin

text \<open>
  kernel/arch/i386/tmp.c, the version of the paging code before vmm.c. Its frame bitmap, \<open>get_page\<close>
  and \<open>switch_page_dir\<close> are the text of vmm.c, so the definitions of Vmm are their model too; what
  differs is how the page frame allocator knows that a page is taken. The lemmas show where the
  two versions agree (\<open>init_paging\<close>, whatever the size of the kernel) and where they do not (pages
  on frame 0, and released pages).
\<close>

section \<open>The page frame allocator\<close>

text \<open>A page is taken when its frame number is not 0.\<close>

definition former_alloc :: "page_ptr \<Rightarrow> u32 \<Rightarrow> u32 \<Rightarrow> vmm \<Rightarrow> vmm res" where
  "former_alloc p is_kernel is_writeable st =
     bindr (load_page st p) (\<lambda>pg.
     if frame pg \<noteq> 0 then Ok st
     else bindr (first_frame (nframes st) (frames st)) (\<lambda>idx.
       if idx = 0xFFFFFFFF then Err Aborted
       else bindr (set_frame (idx * 0x1000) (frames st)) (\<lambda>fs.
         store_page p (pg\<lparr>present := 1, rw := ucast is_writeable, user := (if is_kernel \<noteq> 0 then 0 else 1),
             frame := ucast idx\<rparr>) (st\<lparr>frames := fs\<rparr>))))"

definition former_free :: "page_ptr \<Rightarrow> vmm \<Rightarrow> vmm res" where
  "former_free p st =
     bindr (load_page st p) (\<lambda>pg.
     if frame pg \<noteq> 0
     then bindr (clear_frame (ucast (frame pg)) (frames st)) (\<lambda>fs.
       store_page p (pg\<lparr>frame := 0\<rparr>) (st\<lparr>frames := fs\<rparr>))
     else Ok st)"

section \<open>Paging\<close>

partial_function (option) former_map_kernel :: "u32 \<Rightarrow> vmm \<Rightarrow> vmm res option" where
  "former_map_kernel i st =
     (if i < free_addr st
      then (case get_page i True st of Err e \<Rightarrow> Some (Err e)
        | Ok (pg, st) \<Rightarrow> (case pg of None \<Rightarrow> Some (Err Undefined)
          | Some p \<Rightarrow> (case former_alloc p 0 0 st of Err e \<Rightarrow> Some (Err e)
            | Ok st \<Rightarrow> former_map_kernel (i + 0x1000) st)))
      else Some (Ok st))"

definition former_init_paging :: "handlers \<Rightarrow> vmm \<Rightarrow> (handlers \<times> vmm) res option" where
  "former_init_paging hs st =
     map_option (\<lambda>r. bindr r (\<lambda>st.
       bindr (register_int_handler 14 Page_fault hs) (\<lambda>hs.
       Ok (hs, (switch_page_dir st)\<lparr>paging_on := True\<rparr>)))) (former_map_kernel 0 (init_frames st))"

section \<open>Where the versions agree\<close>

lemma former_alloc_same:
  assumes "load_page st p = Ok pg" and "frame pg \<noteq> 0 \<longleftrightarrow> present pg = 1"
  shows "former_alloc p k w st = pfa_alloc p k w st"
  using assms by (simp add: former_alloc_def pfa_alloc_def)

lemma former_alloc_zero_page: "load_page st p = Ok zero_page \<Longrightarrow> former_alloc p k w st = pfa_alloc p k w st"
  using former_alloc_same [of st p zero_page] by (simp add: zero_page_def)

text \<open>The rounds of both loops up to page \<open>m\<close>.\<close>

lemma former_steps:
  assumes "identity_upto t n st" and "n \<le> m" and "m \<le> 1024" and "m * 4096 \<le> unat (free_addr st)"
  shows "\<exists>st'. map_kernel (of_nat n * 0x1000) st = map_kernel (of_nat m * 0x1000) st' \<and>
    former_map_kernel (of_nat n * 0x1000) st = former_map_kernel (of_nat m * 0x1000) st' \<and>
    identity_upto t m st' \<and> free_addr st' = free_addr st"
  using assms(1,2,4)
proof (induction "m - n" arbitrary: n st)
  case 0
  then show ?case by auto
next
  case (Suc d)
  then have n: "n < m" "n < 1024" using assms(3) by auto
  then have "unat ((of_nat n :: u32) * 0x1000) < unat (free_addr st)"
    using unat_page_addr [of n] Suc.prems(3) by simp
  then have less: "of_nat n * 0x1000 < free_addr st" by (simp add: word_less_nat_alt)
  obtain st1 where st1: "pfa_alloc (t, n) 0 0 st = Ok st1" "identity_upto t (Suc n) st1"
    "free_addr st1 = free_addr st" "load_page st (t, n) = Ok zero_page"
    using identity_step(2) [OF Suc.prems(1) n(2)] by blast
  have "\<exists>st'. map_kernel (of_nat (Suc n) * 0x1000) st1 = map_kernel (of_nat m * 0x1000) st' \<and>
    former_map_kernel (of_nat (Suc n) * 0x1000) st1 = former_map_kernel (of_nat m * 0x1000) st' \<and>
    identity_upto t m st' \<and> free_addr st' = free_addr st1"
    using Suc.hyps(1) [of "Suc n" st1] Suc.hyps(2) Suc.prems(3) st1 n by simp
  moreover have "map_kernel (of_nat n * 0x1000) st = map_kernel (of_nat (Suc n) * 0x1000) st1"
    using less identity_step(1) [OF Suc.prems(1) n(2)] st1(1)
    by (subst map_kernel.simps) (simp add: next_page del: of_nat_Suc)
  moreover have "former_map_kernel (of_nat n * 0x1000) st = former_map_kernel (of_nat (Suc n) * 0x1000) st1"
    using less identity_step(1) [OF Suc.prems(1) n(2)] st1(1) former_alloc_zero_page [OF st1(4)]
    by (subst former_map_kernel.simps) (simp add: next_page del: of_nat_Suc)
  ultimately show ?case using st1 by simp
qed

text \<open>
  The two versions of \<open>init_paging\<close> do the same, also when the kernel is too large for the frame
  bitmap, which the former version makes too short in the same way.
\<close>

theorem former_init_paging_same:
  assumes "unat (free_addr st) \<le> 2 ^ 31"
  shows "former_init_paging hs st = init_paging hs st"
proof -
  let ?f = "unat (free_addr st)"
  obtain t st1 where st1: "get_page 0 True (init_frames st) = Ok (Some (t, 0), st1)" "get_page 0 True st1 = Ok (Some (t, 0), st1)"
    "0 < free_addr (init_frames st)" "0 < free_addr st1" "identity_upto t 0 st1" "unat (free_addr st1) = kernel_end ?f"
    using table_made [OF assms] by blast
  have 1: "map_kernel 0 (init_frames st) = map_kernel 0 st1"
    using st1(1-4) by (subst (1 2) map_kernel.simps) simp
  have 2: "former_map_kernel 0 (init_frames st) = former_map_kernel 0 st1"
    using st1(1-4) by (subst (1 2) former_map_kernel.simps) simp
  obtain m where m: "kernel_end ?f = m * 4096" using kernel_end_page by blast
  obtain st2 where st2: "map_kernel 0 st1 = map_kernel (of_nat (min m 1024) * 0x1000) st2"
    "former_map_kernel 0 st1 = former_map_kernel (of_nat (min m 1024) * 0x1000) st2"
    "identity_upto t (min m 1024) st2" "free_addr st2 = free_addr st1"
    using former_steps [OF st1(5), of "min m 1024"] st1(6) m by auto
  have "former_map_kernel (of_nat (min m 1024) * 0x1000) st2 = map_kernel (of_nat (min m 1024) * 0x1000) st2"
  proof (cases "m \<le> 1024")
    case True
    then have "\<not> of_nat m * 0x1000 < free_addr st2"
      using unat_page_addr [of m] m st1(6) st2(4) by (simp add: word_less_nat_alt)
    then show ?thesis
      using True by (subst former_map_kernel.simps, subst map_kernel.simps) (simp add: min_absorb1)
  next
    case False
    have "unat (free_addr st2) + 4096 \<le> 2 ^ 32"
      using kernel_end_bounds(2) [of ?f] assms st1(6) st2(4) by simp
    moreover have "identity_upto t 1024 st2" using st2(3) False by simp
    ultimately obtain p st' where p: "get_page (of_nat 1024 * 0x1000) True st2 = Ok (Some p, st')"
      "load_page st' p = Ok zero_page" "pfa_alloc p 0 0 st' = Err Undefined"
      using page_beyond_4MB by blast
    then show ?thesis
      using False former_alloc_zero_page [OF p(2)]
      by (subst former_map_kernel.simps, subst map_kernel.simps) simp
  qed
  then show ?thesis
    using 1 2 st2(1,2) by (simp add: former_init_paging_def init_paging_def)
qed

section \<open>Where they differ\<close>

text \<open>
  A page on frame 0 counts as free: another allocation for it takes a second frame, where
  \<open>pfa_alloc\<close> leaves it alone.
\<close>

theorem former_alloc_frame_0:
  assumes "tables_at st t = Some ps" and "i < length ps" and "frame (ps ! i) = 0" and "present (ps ! i) = 1"
    and "first_frame (nframes st) (frames st) = Ok (of_nat k)" and "k < frame_cap (frames st)"
  shows "pfa_alloc (t, i) 0 0 st = Ok st"
    and "former_alloc (t, i) 0 0 st = Ok (st\<lparr>frames := frame_with (frames st) k,
      tables_at := (tables_at st)(t \<mapsto> ps[i := (ps ! i)\<lparr>present := 1, rw := 0, user := 1, frame := of_nat k\<rparr>])\<rparr>)"
proof -
  have "k < 2 ^ 20" using frame_capD [OF assms(6)] by blast
  then have ne: "(of_nat k :: u32) \<noteq> 0xFFFFFFFF"
    by (simp add: word_unat_eq_iff unat_of_nat)
  have "(ucast (of_nat k :: u32) :: 20 word) = of_nat k"
    by (rule bit_eqI) (simp add: bit_simps)
  then show "former_alloc (t, i) 0 0 st = Ok (st\<lparr>frames := frame_with (frames st) k,
      tables_at := (tables_at st)(t \<mapsto> ps[i := (ps ! i)\<lparr>present := 1, rw := 0, user := 1, frame := of_nat k\<rparr>])\<rparr>)"
    using assms ne by (simp add: former_alloc_def load_page_eq store_page_eq set_frame_eq)
  show "pfa_alloc (t, i) 0 0 st = Ok st"
    using assms by (simp add: pfa_alloc_def load_page_eq)
qed

text \<open>
  A released page stays present, on frame 0: the processor still translates its addresses, to the
  first page of the physical memory.
\<close>

theorem former_free_stays_mapped:
  assumes "load_page st p = Ok pg" and "present pg = 1" and "frame pg \<noteq> 0" and "unat (frame pg) < 4096" and "frames st \<noteq> []"
  shows "\<exists>st'. former_free p st = Ok st' \<and> load_page st' p = Ok (pg\<lparr>frame := 0\<rparr>) \<and>
    bit (page_word (pg\<lparr>frame := 0\<rparr>)) 0 \<and> page_word (pg\<lparr>frame := 0\<rparr>) AND NOT 0xFFF = 0"
proof -
  obtain t i where p: "p = (t, i)" by (cases p)
  obtain ps where ps: "tables_at st t = Some ps" "i < length ps" "ps ! i = pg"
    using assms(1) by (auto simp: p load_page_def arr_get_Ok_iff split: option.splits)
  have "former_free p st = Ok (st\<lparr>frames := frame_without (frames st) 0, tables_at := (tables_at st)(t \<mapsto> ps[i := pg\<lparr>frame := 0\<rparr>])\<rparr>)"
    using clear_page_frame [OF assms(4,5)] assms(3) ps by (simp add: p former_free_def load_page_eq store_page_eq)
  moreover have "bit (page_word (pg\<lparr>frame := 0\<rparr>)) 0"
    using assms(2) by (simp add: page_word_def bit_simps)
  moreover have "page_word (pg\<lparr>frame := 0\<rparr>) AND NOT 0xFFF = 0"
  proof (unfold fff, rule bit_eqI)
    fix n
    have out: "k \<ge> 7 \<Longrightarrow> \<not> bit (unused pg) k" "k \<ge> 1 \<Longrightarrow> \<not> bit (b :: 1 word) k" for k b
      using bit_imp_le_length [of "unused pg" k] bit_imp_le_length [of b k] by auto
    show "bit (page_word (pg\<lparr>frame := 0\<rparr>) AND NOT (mask 12)) n = bit (0 :: u32) n"
      using out by (cases "n < 12") (simp_all add: page_word_def bit_simps del: push_bit_Suc push_bit_numeral)
  qed
  ultimately show ?thesis
    using ps by (auto simp: p load_page_eq)
qed

end
