(* ===== verification/Spec2Isabelle.thy ===== *)
theory Spec2Isabelle
  imports Kernel HostTrace HostDebug KernelDebug VmmFormer
begin

text \<open>
  icix is a small 32-bit x86 kernel. GRUB starts it with one module, an initial ramdisk that two
  programs of the build host make: \<open>fs/mkfs.c\<close> writes an empty file system image and
  \<open>fs/ufs.c\<close> puts two directories and two files in it. The kernel sets up the terminal, the
  descriptor tables, paging, the interrupt controllers and the timer, mounts the ramdisk with
  \<open>kernel/kernel/filesystem.c\<close>, prints the tree of files and waits for interrupts. This development
  models the whole path, from the first byte that mkfs writes to the idle loop, and proves what
  each part promises and where it fails.

  \<^bold>\<open>Theories and sources\<close> (paths under \<^verbatim>\<open>src/\<close>):

  \<^item> \<open>Prelude\<close>: the machine types, \<open>'a res\<close> for results of C code (a value, an abort or undefined
    behaviour), byte stores with block reads and writes, little-endian words.
  \<^item> \<open>CString\<close>, \<open>CArray\<close>: every routine of \<^verbatim>\<open>libc/string\<close>, on a flat memory and on byte arrays with
    bounds.
  \<^item> \<open>Bitmap\<close>: the bitmaps and search loops of \<^verbatim>\<open>filesystem.c\<close> and \<^verbatim>\<open>ufs.c\<close>; the locale \<open>bit_store\<close>.
  \<^item> \<open>Disk\<close>: \<^verbatim>\<open>disk_driver.h\<close>, \<open>Read\<close> and \<open>Write\<close>, \<^verbatim>\<open>drivers/initrd.c\<close> and the image file of the host; the
    locales \<open>disk_reader\<close> and \<open>disk_store\<close>.
  \<^item> \<open>UfsLayout\<close>: the structs of \<^verbatim>\<open>filesystem.h\<close> as records, and their bytes.
  \<^item> \<open>UfsOps\<close>: the operations of \<^verbatim>\<open>filesystem.c\<close>, over a platform (the width of \<open>size_t\<close>, the linked
    \<open>strcpy\<close>) and a driver. The loops of a C function are definitions of their own, in the order of
    the code.
  \<^item> \<open>UfsRead\<close>, \<open>UfsInv\<close>, \<open>UfsAbs\<close>, \<open>UfsCommit\<close>, \<open>UfsEntry\<close>, \<open>UfsCreat\<close>, \<open>UfsFull\<close>, \<open>UfsWrite\<close>, \<open>UfsUnlink\<close>, \<open>UfsMount\<close>,
    \<open>UfsBoot\<close>: the correctness of these operations, proved once in the locale \<open>ufs_rw\<close> for every
    disk that can be written, and in \<open>disk_reader\<close> for one that can only be read.
  \<^item> \<open>Mkfs\<close>, \<open>MkfsMain\<close>: \<^verbatim>\<open>fs/mkfs.c\<close>, with its options and its messages.
  \<^item> \<open>Host\<close>, \<open>HostRun\<close>, \<open>HostUnlink\<close>, \<open>HostFull\<close>, \<open>HostDebug\<close>: \<^verbatim>\<open>fs/ufs.c\<close>, whose operations are those of \<open>UfsOps\<close> on
    POSIX calls, its \<open>main\<close>, what it prints, and its failures. \<open>HostTrace\<close>: sequences of these calls.
  \<^item> \<open>Tty\<close>: \<^verbatim>\<open>tty.c\<close>, \<^verbatim>\<open>vga.h\<close> and \<open>putchar\<close>. \<open>IntStr\<close>, \<open>Printf\<close>: \<^verbatim>\<open>libc/stdio\<close>, \<open>abort\<close> and \<open>assert\<close>.
  \<^item> \<open>Pic\<close>: \<^verbatim>\<open>utilities.h\<close> and \<^verbatim>\<open>pic.c\<close>, on a history of port operations.
  \<^item> \<open>Descr\<close>: \<^verbatim>\<open>gdt.c\<close> and \<^verbatim>\<open>isr.c\<close>. \<open>Vmm\<close>: \<^verbatim>\<open>pmm.c\<close> and \<^verbatim>\<open>vmm.c\<close>.
    \<open>VmmFormer\<close>: the paging code before \<^verbatim>\<open>vmm.c\<close>, in \<^verbatim>\<open>tmp.c\<close>, compared with it.
  \<^item> \<open>Interrupt\<close>: \<open>interrupt_handler\<close>, the timer and the page fault handler on the state of the machine.
  \<^item> \<open>KernelFs\<close>, \<open>KernelDebug\<close>, \<open>Kernel\<close>: the printing of the file system, the dumps of a debug build, and
    \<open>kernel_main\<close>.

  \<^bold>\<open>State.\<close> A C struct is a record with the names of the source; the static variables of a
  file are the fields of one record (\<open>tty\<close>, \<open>initrd\<close>, \<open>vmm\<close>, \<open>gdt_state\<close>, \<open>idt_state\<close>), and \<open>kernel\<close> holds
  them all. An \<open>unsigned\<close> field is a word of its width. A C \<open>int\<close> is an integer that is checked
  to be in range where the code computes with it: an overflow is \<open>Err Undefined\<close>, as are an access out of
  bounds and a shift by 32 or more. \<open>abort\<close>, \<open>exit(1)\<close> and a failed \<open>assert\<close> are \<open>Err Aborted\<close>.
  Uninitialised memory (the two dirty bitmaps, a local buffer) is an argument of the model, so what is
  proved holds for all of its contents.

  \<^bold>\<open>Interfaces.\<close> \<open>bit_store\<close> is what a bitmap promises; the file system's bitmaps and the frame bitmap
  of \<^verbatim>\<open>vmm.c\<close> provide it. \<open>disk_reader\<close> is the contract of a driver that seeks and reads, which the
  initrd driver provides up to the byte before the last, and \<open>disk_store\<close> adds writing, which the image
  file provides. \<open>c_platform\<close> is a \<open>strcpy\<close> that copies strings; the host has it, the kernel does
  not. \<open>ufs_rw\<close> joins the last two. \<open>call_refinement\<close> carries the refinement of one call over to sequences of calls.

  \<^bold>\<open>What is shown.\<close>

  \<^item> The abstract file system is a partial map from inode numbers to directories and files. Creation, lookup,
    writing at the end and reading refine it, a remount keeps it, and the image that the host
    tools make is one particular map. The kernel mounts that image and its printed listing is the text
    of the map: the boot as a whole puts a known text on the screen.
  \<^item> \<open>ufs_unlink\<close> refines the removal of the last entry of a directory when the file has no
    block and the entry is not alone in its block of the directory; for other files it frees the wrong blocks, and an earlier entry becomes a hole that ends later
    lookups. What it rejects, it rejects without a change. \<open>ufs_creat\<close> does so too, except when it finds the
    directory or the disk full: then it loses an inode.
  \<^item> Whatever sequence of calls a program makes, with remounts in between, the results and the bytes read are those of
    an executable abstract file system, which answers from the nodes and the number of free blocks alone. Where it has no
    answer (\<open>HostTrace\<close> lists the cases) nothing is claimed.
  \<^item> The terminal never writes outside its 80 by 25 cells and implements a screen with one cursor.
    \<open>printf\<close> is the rendering of its format where numbers have digits that the table holds; the exact condition is
    stated.
  \<^item> The descriptor tables decode to what the code passed, the interrupt controllers keep their
    masks, the page tables translate the memory of the kernel to itself, \<open>malloc\<close> maps what it returns,
    and the search for a frame is the plain one. The former paging code, which is not built, sets up the same
    tables and differs in what it takes for a free page.
  \<^item> The demonstration at the end of the boot ends in exception 13, not in the page fault that its
    comment announces.

  \<^bold>\<open>Bounds and fuel.\<close> A loop that may run on is a \<open>partial_function (option)\<close> (\<open>strlen\<close>, which
  does not return on a memory without a NUL byte, the loops of \<^verbatim>\<open>vmm.c\<close> that
  compare addresses, the recursion of \<open>print_fs_contents\<close>), and its theorems state when it returns. The step
  of a hardware interrupt, \<open>irq n\<close>, follows at most \<open>n\<close> faults of its handler; one is enough for a handler that halts,
  and a fault that is still pending is the outcome \<open>Faults\<close>. \<open>dir_text\<close>
  takes the depth of the tree; a tree that is deeper has no text. \<open>layout_ok\<close> limits the
  number of inodes and of blocks to 32, since a bit from 32 on is undefined (\<open>bitmap_beyond_32\<close>).
  \<open>init_paging\<close> is followed up to 4 MB, where the frame bitmap is as large as what is allocated for it;
  beyond, \<open>init_paging_beyond_4MB\<close> says what happens.

  \<^bold>\<open>Assumptions.\<close> Interrupts are delivered in the idle loop only, although they are enabled
  earlier; \<open>unhandled_interrupt_halts\<close> shows what a tick before would do. Accesses of the C code to memory do not
  go through the page tables, except for the load of the timer handler. The heap of the kernel has
  addresses but not contents: the objects that are allocated are fields of records. The stack of the kernel is not
  modelled. \<open>malloc\<close> and \<open>calloc\<close> of the host succeed, \<open>open\<close> and \<open>getopt\<close> are
  arguments. The devices behind the ports and the arithmetic of \<open>double\<close> in \<open>printf\<close> are parameters.

  \<^bold>\<open>Not modelled.\<close> The assembly files: a \<open>lgdt\<close>, a \<open>lidt\<close> and the writes of \<open>cr3\<close> and \<open>cr0\<close> are fields of the
  state, and the interrupt stubs are the step from \<open>irq\<close> to \<open>interrupt_handler\<close>.
  \<^verbatim>\<open>hi.c\<close> and \<^verbatim>\<open>test.c\<close>, two experiments. The
  installed copies of the headers under \<^verbatim>\<open>sysroot\<close> and \<^verbatim>\<open>fs/ufs.h\<close>, whose originals are modelled. Of
  \<^verbatim>\<open>fs/ufs.c\<close>, \<open>ufs_clean\<close>, which frees memory. The older \<open>printf\<close> that is commented out.
\<close>

end
